(* ===== verification/Prelude.thy ===== *)
theory Prelude
  imports "HOL-Library.Word" "HOL-Library.Monad_Syntax"
begin

text \<open>
  Shared vocabulary of the development: the C types the sources use, the memory
  primitives every component is written with, and the generic lemmas on words, byte
  segments and lists that the component proofs rest on.

  A C function that can run into undefined behaviour (a read or a write outside an
  allocated segment, a call through a null pointer, an uninitialised pointer) is modelled by
  a function into an option type: \<open>None\<close> is undefined behaviour, \<open>Some\<close> carries the
  results. The error returns of the sources (0, -1, -2, NULL) are ordinary values.
\<close>

unbundle bit_operations_syntax

named_theorems seg_simps "reading and writing byte segments"
named_theorems frame_simps "what an operation leaves unchanged"

section \<open>The C types\<close>

type_synonym byte = "8 word"
type_synonym u16 = "16 word"
type_synonym u32 = "32 word"
type_synonym u64 = "64 word"

text \<open>\<open>int\<close> is 32 bits wide and read with \<open>sint\<close>; \<open>size_t\<close> and \<open>unsigned long\<close> are
  64 bits wide (LP64).\<close>

type_synonym cint = "32 word"
type_synonym size_t = "64 word"

abbreviation (input) INT_MAX :: int where
  "INT_MAX \<equiv> 2147483647"

section \<open>Byte segments\<close>

definition rd :: "byte list \<Rightarrow> size_t \<Rightarrow> byte option" where
  "rd d i = (if unat i < length d then Some (d ! unat i) else None)"

definition wr :: "byte list \<Rightarrow> size_t \<Rightarrow> byte \<Rightarrow> byte list option" where
  "wr d i c = (if unat i < length d then Some (d[unat i := c]) else None)"

text \<open>\<open>memcpy\<close> out of a segment and into a segment.\<close>

definition rd_seg :: "byte list \<Rightarrow> size_t \<Rightarrow> size_t \<Rightarrow> byte list option" where
  "rd_seg d i n =
     (if unat i + unat n \<le> length d then Some (take (unat n) (drop (unat i) d)) else None)"

definition seg_upd :: "'a list \<Rightarrow> nat \<Rightarrow> 'a list \<Rightarrow> 'a list" where
  "seg_upd d i bs = take i d @ bs @ drop (i + length bs) d"

definition wr_seg :: "byte list \<Rightarrow> size_t \<Rightarrow> byte list \<Rightarrow> byte list option" where
  "wr_seg d i bs =
     (if unat i + length bs \<le> length d then Some (seg_upd d (unat i) bs) else None)"

lemma rd_Some [seg_simps]: "unat i < length d \<Longrightarrow> rd d i = Some (d ! unat i)"
  by (simp add: rd_def)

lemma wr_Some [seg_simps]: "unat i < length d \<Longrightarrow> wr d i c = Some (d[unat i := c])"
  by (simp add: wr_def)

lemma rd_seg_Some [seg_simps]:
  "unat i + unat n \<le> length d \<Longrightarrow> rd_seg d i n = Some (take (unat n) (drop (unat i) d))"
  by (simp add: rd_seg_def)

lemma wr_seg_Some [seg_simps]:
  "unat i + length bs \<le> length d \<Longrightarrow> wr_seg d i bs = Some (seg_upd d (unat i) bs)"
  by (simp add: wr_seg_def)

lemma length_seg_upd [simp]: "i + length bs \<le> length d \<Longrightarrow> length (seg_upd d i bs) = length d"
  by (simp add: seg_upd_def)

lemma seg_upd_Nil [simp]: "seg_upd d i [] = d"
  by (simp add: seg_upd_def)

lemma seg_upd_append:
  "i + length xs + length ys \<le> length d \<Longrightarrow>
     seg_upd (seg_upd d i xs) (i + length xs) ys = seg_upd d i (xs @ ys)"
  by (simp add: seg_upd_def ac_simps)

lemma seg_upd_single: "i < length d \<Longrightarrow> seg_upd d i [c] = d[i := c]"
  by (simp add: seg_upd_def upd_conv_take_nth_drop)

lemma take_seg_upd [simp]: "i \<le> length d \<Longrightarrow> j \<le> i \<Longrightarrow> take j (seg_upd d i bs) = take j d"
  by (simp add: seg_upd_def)

lemma take_seg_upd_end:
  "i + length bs \<le> length d \<Longrightarrow> take (i + length bs) (seg_upd d i bs) = take i d @ bs"
  by (simp add: seg_upd_def)

lemma nth_seg_upd_outside:
  assumes "i + length bs \<le> length d" "j < i \<or> i + length bs \<le> j"
  shows "seg_upd d i bs ! j = d ! j"
proof (cases "j < i")
  case True
  then show ?thesis
    using assms by (simp add: seg_upd_def nth_append)
next
  case False
  then obtain k where "j = i + length bs + k"
    using assms(2) le_Suc_ex by blast
  then show ?thesis
    using assms(1) by (simp add: seg_upd_def nth_append ac_simps)
qed

section \<open>Big-endian encodings\<close>

definition be16_bytes :: "u16 \<Rightarrow> byte list" where
  "be16_bytes w = [ucast (drop_bit 8 w), ucast w]"

definition be32_bytes :: "u32 \<Rightarrow> byte list" where
  "be32_bytes l = [ucast (drop_bit 24 l), ucast (drop_bit 16 l), ucast (drop_bit 8 l), ucast l]"

definition be64_bytes :: "u64 \<Rightarrow> byte list" where
  "be64_bytes q =
     [ucast (drop_bit 56 q), ucast (drop_bit 48 q), ucast (drop_bit 40 q), ucast (drop_bit 32 q),
      ucast (drop_bit 24 q), ucast (drop_bit 16 q), ucast (drop_bit 8 q), ucast q]"

definition be16 :: "byte \<Rightarrow> byte \<Rightarrow> u16" where
  "be16 a b = push_bit 8 (ucast a) OR ucast b"

definition be32 :: "byte \<Rightarrow> byte \<Rightarrow> byte \<Rightarrow> byte \<Rightarrow> u32" where
  "be32 a b c d = ((push_bit 24 (ucast a) OR push_bit 16 (ucast b)) OR push_bit 8 (ucast c)) OR ucast d"

definition be64 ::
  "byte \<Rightarrow> byte \<Rightarrow> byte \<Rightarrow> byte \<Rightarrow> byte \<Rightarrow> byte \<Rightarrow> byte \<Rightarrow> byte \<Rightarrow> u64" where
  "be64 a b c d e f g h =
     ((((((push_bit 56 (ucast a) OR push_bit 48 (ucast b)) OR push_bit 40 (ucast c))
       OR push_bit 32 (ucast d)) OR push_bit 24 (ucast e)) OR push_bit 16 (ucast f))
       OR push_bit 8 (ucast g)) OR ucast h"

lemma byte_low: "ucast (ucast l :: byte) = take_bit 8 (l :: 'a::len word)"
  by (rule bit_word_eqI) (auto simp: bit_simps)

lemma byte_join:
  "push_bit k (take_bit 8 (drop_bit k l)) OR take_bit k l = take_bit (k + 8) (l :: 'a::len word)"
  by (rule bit_word_eqI) (auto simp: bit_simps)

lemma length_be_bytes [simp]:
  "length (be16_bytes w) = 2" "length (be32_bytes l) = 4" "length (be64_bytes q) = 8"
  by (simp_all add: be16_bytes_def be32_bytes_def be64_bytes_def)

lemma be16_roundtrip: "be16 (ucast (drop_bit 8 w)) (ucast w) = w"
  using byte_join [of 8 w] by (simp add: be16_def byte_low take_bit_word_eq_self)

lemma be32_roundtrip:
  "be32 (ucast (drop_bit 24 l)) (ucast (drop_bit 16 l)) (ucast (drop_bit 8 l)) (ucast l) = l"
  using byte_join [of 24 l] byte_join [of 16 l] byte_join [of 8 l]
  by (simp add: be32_def byte_low or.assoc take_bit_word_eq_self)

lemma be64_roundtrip:
  "be64 (ucast (drop_bit 56 q)) (ucast (drop_bit 48 q)) (ucast (drop_bit 40 q))
     (ucast (drop_bit 32 q)) (ucast (drop_bit 24 q)) (ucast (drop_bit 16 q))
     (ucast (drop_bit 8 q)) (ucast q) = q"
  using byte_join [of 56 q] byte_join [of 48 q] byte_join [of 40 q] byte_join [of 32 q]
    byte_join [of 24 q] byte_join [of 16 q] byte_join [of 8 q]
  by (simp add: be64_def byte_low or.assoc take_bit_word_eq_self)

text \<open>The same four bytes in memory order on the little-endian hosts the program is built
  for: what \<open>memcpy\<close> of a \<open>u32\<close> writes and reads.\<close>

definition le32_bytes :: "u32 \<Rightarrow> byte list" where
  "le32_bytes l = rev (be32_bytes l)"

fun le32 :: "byte list \<Rightarrow> u32" where
  "le32 [d, c, b, a] = be32 a b c d"
| "le32 _ = 0"

lemma length_le32_bytes [simp]: "length (le32_bytes l) = 4"
  by (simp add: le32_bytes_def)

lemma le32_roundtrip [simp]: "le32 (le32_bytes l) = l"
  by (simp add: le32_bytes_def be32_bytes_def be32_roundtrip)

text \<open>\<open>htonl\<close> and \<open>ntohl\<close> swap the four bytes on such a host, \<open>htons\<close> and \<open>ntohs\<close> the two.\<close>

definition bswap32 :: "u32 \<Rightarrow> u32" where
  "bswap32 l = be32 (ucast l) (ucast (drop_bit 8 l)) (ucast (drop_bit 16 l)) (ucast (drop_bit 24 l))"

definition bswap16 :: "u16 \<Rightarrow> u16" where
  "bswap16 w = be16 (ucast w) (ucast (drop_bit 8 w))"

lemma be32_byte_simps:
  "ucast (drop_bit 24 (be32 a b c d)) = a" "ucast (drop_bit 16 (be32 a b c d)) = b"
  "ucast (drop_bit 8 (be32 a b c d)) = c" "ucast (be32 a b c d) = d"
  by (rule bit_word_eqI; auto simp: be32_def bit_simps dest: bit_imp_le_length)+

lemma bswap32_involution [simp]: "bswap32 (bswap32 l) = l"
  by (simp add: bswap32_def be32_byte_simps be32_roundtrip)

lemma bswap32_inject [simp]: "bswap32 a = bswap32 b \<longleftrightarrow> a = b"
  by (metis bswap32_involution)

section \<open>Word arithmetic\<close>

lemma unat_of_nat_size [simp]:
  "n < 18446744073709551616 \<Longrightarrow> unat (of_nat n :: size_t) = n"
  by (simp add: unat_of_nat)

lemma unat_size_bound: "unat (x :: size_t) < 18446744073709551616"
  using unsigned_less [of x, where ?'a = nat] by simp

lemma unat_add_size:
  "unat a + unat b < 18446744073709551616 \<Longrightarrow> unat (a + b :: size_t) = unat a + unat b"
  by (simp add: unat_word_ariths)

lemma unat_add_of_nat:
  "unat a + n < 18446744073709551616 \<Longrightarrow> unat (a + of_nat n :: size_t) = unat a + n"
  by (simp add: unat_add_size)

section \<open>Results of partial computations\<close>

text \<open>\<open>post m P\<close>: if the computation is defined, its result satisfies \<open>P\<close>. The rules walk through a
  \<open>do\<close> block and remember what each step returned.\<close>

named_theorems post_intros "rules for the results of option computations"

definition post :: "'a option \<Rightarrow> ('a \<Rightarrow> bool) \<Rightarrow> bool" where
  "post m P \<longleftrightarrow> (\<forall>x. m = Some x \<longrightarrow> P x)"

lemma postD: "post m P \<Longrightarrow> m = Some x \<Longrightarrow> P x"
  by (simp add: post_def)

lemma postI: "(\<And>x. m = Some x \<Longrightarrow> P x) \<Longrightarrow> post m P"
  by (simp add: post_def)

lemma post_return [post_intros]: "post None P" "P x \<Longrightarrow> post (Some x) P"
  by (simp_all add: post_def)

lemma post_bind [post_intros]: "(\<And>x. m = Some x \<Longrightarrow> post (f x) P) \<Longrightarrow> post (m \<bind> f) P"
  by (cases m) (simp_all add: post_def)

lemma post_if [post_intros]: "(b \<Longrightarrow> post m P) \<Longrightarrow> (\<not> b \<Longrightarrow> post n P) \<Longrightarrow> post (if b then m else n) P"
  by simp

lemma post_let [post_intros]: "(\<And>y. y = x \<Longrightarrow> post (f y) P) \<Longrightarrow> post (Let x f) P"
  by simp

lemma post_prod [post_intros]: "(\<And>a b. x = (a, b) \<Longrightarrow> post (f a b) P) \<Longrightarrow> post (case x of (a, b) \<Rightarrow> f a b) P"
  by (cases x) simp

lemma post_option [post_intros]:
  "(x = None \<Longrightarrow> post m P) \<Longrightarrow> (\<And>y. x = Some y \<Longrightarrow> post (f y) P) \<Longrightarrow>
     post (case x of None \<Rightarrow> m | Some y \<Rightarrow> f y) P"
  by (cases x) simp_all

end
