(* ===== verification/Vector.thy ===== *)
theory Vector
  imports Prelude
begin

text \<open>
  The growing pointer vectors of \<open>misaka/lib/vector.c\<close>. A slot is \<open>None\<close> for NULL. The index grows by
  doubling through \<open>XREALLOC\<close>, whose size parameter is an \<open>int\<close>: growing beyond that range, or a failed
  allocation (the parameter \<open>mem\<close> says which sizes succeed), is undefined, as is any access outside the
  index.
\<close>

section \<open>State and operations\<close>

record 'v vector =
  v_active :: u32
  v_alloced :: u32
  v_index :: "'v option list"

definition v_get :: "'v vector \<Rightarrow> u32 \<Rightarrow> 'v option option" where
  "v_get v i = (if unat i < length (v_index v) then Some (v_index v ! unat i) else None)"

definition v_put :: "'v vector \<Rightarrow> u32 \<Rightarrow> 'v option \<Rightarrow> 'v vector option" where
  "v_put v i x = (if unat i < length (v_index v) then Some (v\<lparr>v_index := (v_index v)[unat i := x]\<rparr>) else None)"

definition vector_init :: "u32 \<Rightarrow> 'v vector option" where
  "vector_init n =
     (let n = (if n = 0 then 1 else n) in
      if 8 * unat n \<le> 2147483647
      then Some \<lparr>v_active = 0, v_alloced = n, v_index = replicate (unat n) None\<rparr> else None)"

definition vector_copy :: "'v vector \<Rightarrow> 'v vector option" where
  "vector_copy v =
     (if unat (8 * v_alloced v) \<le> 8 * length (v_index v)
      then Some \<lparr>v_active = v_active v, v_alloced = v_alloced v, v_index = take (unat (8 * v_alloced v) div 8) (v_index v)\<rparr>
      else None)"

partial_function (option) vector_ensure :: "(nat \<Rightarrow> bool) \<Rightarrow> 'v vector \<Rightarrow> u32 \<Rightarrow> 'v vector option" where
  "vector_ensure mem v num =
     (if num < v_alloced v then Some v
      else if 16 * unat (v_alloced v) \<le> 2147483647 \<and> mem (16 * unat (v_alloced v)) \<and>
              length (v_index v) = unat (v_alloced v) then
        (let v = v\<lparr>v_index := v_index v @ replicate (unat (v_alloced v)) None, v_alloced := v_alloced v * 2\<rparr> in
         if v_alloced v \<le> num then vector_ensure mem v num else Some v)
      else None)"

text \<open>The search loop of \<open>vector_empty_slot\<close> from slot \<open>i\<close> on, with \<open>n\<close> slots to go.\<close>

fun empty_slot_loop :: "'v option list \<Rightarrow> nat \<Rightarrow> nat \<Rightarrow> nat option" where
  "empty_slot_loop ix i 0 = Some i"
| "empty_slot_loop ix i (Suc n) =
     (if i < length ix then (if ix ! i = None then Some i else empty_slot_loop ix (Suc i) n) else None)"

definition vector_empty_slot :: "'v vector \<Rightarrow> u32 option" where
  "vector_empty_slot v =
     (if v_active v = 0 then Some 0 else map_option of_nat (empty_slot_loop (v_index v) 0 (unat (v_active v))))"

definition vector_set_index :: "(nat \<Rightarrow> bool) \<Rightarrow> 'v vector \<Rightarrow> u32 \<Rightarrow> 'v option \<Rightarrow> (u32 \<times> 'v vector) option" where
  "vector_set_index mem v i val =
     do {
       v \<leftarrow> vector_ensure mem v i;
       v \<leftarrow> v_put v i val;
       Some (i, if v_active v \<le> i then v\<lparr>v_active := i + 1\<rparr> else v)
     }"

definition vector_set :: "(nat \<Rightarrow> bool) \<Rightarrow> 'v vector \<Rightarrow> 'v option \<Rightarrow> (u32 \<times> 'v vector) option" where
  "vector_set mem v val =
     do {
       i \<leftarrow> vector_empty_slot v;
       vector_set_index mem v i val
     }"

definition vector_lookup :: "'v vector \<Rightarrow> u32 \<Rightarrow> 'v option option" where
  "vector_lookup v i = (if v_active v \<le> i then Some None else v_get v i)"

definition vector_lookup_ensure :: "(nat \<Rightarrow> bool) \<Rightarrow> 'v vector \<Rightarrow> u32 \<Rightarrow> ('v option \<times> 'v vector) option" where
  "vector_lookup_ensure mem v i =
     do {
       v \<leftarrow> vector_ensure mem v i;
       x \<leftarrow> v_get v i;
       Some (x, v)
     }"

text \<open>The loop of \<open>vector_unset\<close>: \<open>while (i && v->index[--i] == NULL && v->active--)\<close>. The last operand
  decrements \<open>active\<close> even when it was 0 and ends the loop.\<close>

fun unset_loop :: "'v option list \<Rightarrow> nat \<Rightarrow> u32 \<Rightarrow> u32 option" where
  "unset_loop ix 0 active = Some active"
| "unset_loop ix (Suc i) active =
     (if i < length ix then
        (if ix ! i = None then (if active = 0 then Some (active - 1) else unset_loop ix i (active - 1))
         else Some active)
      else None)"

definition vector_unset :: "'v vector \<Rightarrow> u32 \<Rightarrow> 'v vector option" where
  "vector_unset v i =
     (if v_alloced v \<le> i then Some v
      else do {
        v \<leftarrow> v_put v i None;
        (if i + 1 = v_active v then do {
           active \<leftarrow> unset_loop (v_index v) (unat i) (v_active v - 1);
           Some (v\<lparr>v_active := active\<rparr>)
         }
         else Some v)
      })"

definition vector_count :: "'v vector \<Rightarrow> u32 option" where
  "vector_count v =
     (if unat (v_active v) \<le> length (v_index v)
      then Some (of_nat (length (filter (\<lambda>x. x \<noteq> None) (take (unat (v_active v)) (v_index v))))) else None)"

section \<open>Invariant\<close>

definition vec_wf :: "'v vector \<Rightarrow> bool" where
  "vec_wf v \<longleftrightarrow> length (v_index v) = unat (v_alloced v) \<and> 0 < v_alloced v \<and> v_active v \<le> v_alloced v \<and>
     (\<forall>i. unat (v_active v) \<le> i \<longrightarrow> i < length (v_index v) \<longrightarrow> v_index v ! i = None)"

text \<open>The vector as a total function from slot numbers.\<close>

definition slots_of :: "'v vector \<Rightarrow> nat \<Rightarrow> 'v option" where
  "slots_of v i = (if i < length (v_index v) then v_index v ! i else None)"

lemma lookup_slots: "vec_wf v \<Longrightarrow> vector_lookup v i = Some (slots_of v (unat i))"
  by (auto simp: vector_lookup_def v_get_def slots_of_def vec_wf_def word_le_nat_alt)

lemma init_wf:
  assumes "vector_init n = Some v"
  shows "vec_wf v" "slots_of v = (\<lambda>i. None)"
  using assms by (auto simp: vector_init_def vec_wf_def slots_of_def Let_def word_gt_0 split: if_splits)

text \<open>Growing: within the limit of the allocation the recursion ends, and no slot changes.\<close>

lemma ensure_ok:
  assumes "vec_wf v" "unat num < 134217728" "\<And>n. mem n"
  shows "\<exists>v'. vector_ensure mem v num = Some v' \<and> vec_wf v' \<and> num < v_alloced v' \<and> slots_of v' = slots_of v \<and>
    v_active v' = v_active v"
  using assms(1)
proof (induction "134217728 - unat (v_alloced v)" arbitrary: v rule: less_induct)
  case less
  show ?case
  proof (cases "num < v_alloced v")
    case True
    then show ?thesis
      using less.prems by (subst vector_ensure.simps) simp
  next
    case False
    let ?v = "v\<lparr>v_index := v_index v @ replicate (unat (v_alloced v)) None, v_alloced := v_alloced v * 2\<rparr>"
    have a: "unat (v_alloced v) \<le> unat num" "0 < unat (v_alloced v)"
      using False less.prems by (auto simp: word_le_nat_alt not_less vec_wf_def word_gt_0 unat_gt_0)
    then have d: "unat (v_alloced v * 2) = 2 * unat (v_alloced v)"
      using assms(2) by (simp add: unat_word_ariths)
    have wf: "vec_wf ?v"
      using less.prems d a by (auto simp: vec_wf_def word_le_nat_alt word_gt_0 nth_append unat_gt_0 [symmetric])
    have same: "slots_of ?v = slots_of v"
      by (auto simp: slots_of_def nth_append)
    have step: "vector_ensure mem v num = (if v_alloced ?v \<le> num then vector_ensure mem ?v num else Some ?v)"
      using False a assms(2,3) less.prems by (subst vector_ensure.simps) (simp add: vec_wf_def Let_def)
    have "134217728 - unat (v_alloced ?v) < 134217728 - unat (v_alloced v)"
      using a d assms(2) by simp
    from less.hyps [OF this wf] show ?thesis
      using step wf same by (auto simp: not_le)
  qed
qed

lemma set_index_ok:
  assumes "vec_wf v" "unat i < 134217727" "\<And>n. mem n"
  shows "\<exists>v'. vector_set_index mem v i x = Some (i, v') \<and> vec_wf v' \<and> slots_of v' = (slots_of v)(unat i := x)"
proof -
  from ensure_ok [of v i mem] assms obtain v1 where
    v1: "vector_ensure mem v i = Some v1" "vec_wf v1" "i < v_alloced v1" "slots_of v1 = slots_of v"
    by auto
  have i: "unat i < length (v_index v1)"
    using v1(2,3) by (simp add: vec_wf_def word_less_nat_alt)
  have s: "unat (i + 1) = Suc (unat i)"
    using assms(2) by (simp add: unat_word_ariths)
  let ?v = "v1\<lparr>v_index := (v_index v1)[unat i := x]\<rparr>"
  let ?v' = "if v_active ?v \<le> i then ?v\<lparr>v_active := i + 1\<rparr> else ?v"
  have "vector_set_index mem v i x = Some (i, ?v')"
    using v1(1) i by (simp add: vector_set_index_def v_put_def)
  moreover have "vec_wf ?v'"
    using v1(2,3) i s by (auto simp: vec_wf_def word_le_nat_alt word_less_nat_alt nth_list_update)
  moreover have "slots_of ?v' = (slots_of v)(unat i := x)"
    unfolding v1(4) [symmetric] using i by (auto simp: slots_of_def fun_eq_iff nth_list_update)
  ultimately show ?thesis
    by blast
qed

lemma empty_slot_loop_ok:
  assumes "i + n \<le> length ix"
  shows "\<exists>j. empty_slot_loop ix i n = Some j \<and> i \<le> j \<and> j \<le> i + n \<and> (\<forall>k. i \<le> k \<and> k < j \<longrightarrow> ix ! k \<noteq> None) \<and>
    (j < i + n \<longrightarrow> ix ! j = None)"
  using assms
proof (induction ix i n rule: empty_slot_loop.induct)
  case (2 ix i n)
  show ?case
  proof (cases "ix ! i = None")
    case True
    then show ?thesis
      using "2.prems" by (intro exI [of _ i]) auto
  next
    case False
    from "2.IH" [OF _ False] "2.prems" obtain j where
      j: "empty_slot_loop ix (Suc i) n = Some j" "Suc i \<le> j" "j \<le> Suc i + n"
        "\<forall>k. Suc i \<le> k \<and> k < j \<longrightarrow> ix ! k \<noteq> None" "j < Suc i + n \<longrightarrow> ix ! j = None"
      by auto
    have "ix ! k \<noteq> None" if "i \<le> k" "k < j" for k
      using that j(4) False by (cases "k = i") auto
    then show ?thesis
      using j "2.prems" False by (intro exI [of _ j]) auto
  qed
qed auto

lemma empty_slot_ok:
  assumes "vec_wf v"
  shows "\<exists>i. vector_empty_slot v = Some i \<and> i \<le> v_active v \<and> slots_of v (unat i) = None \<and>
    (\<forall>k<unat i. slots_of v k \<noteq> None)"
proof (cases "v_active v = 0")
  case True
  then show ?thesis
    using assms by (intro exI [of _ 0]) (auto simp: vector_empty_slot_def slots_of_def vec_wf_def)
next
  case False
  have len: "unat (v_active v) \<le> length (v_index v)"
    using assms by (simp add: vec_wf_def word_le_nat_alt)
  from empty_slot_loop_ok [of 0 "unat (v_active v)" "v_index v"] len obtain j where
    j: "empty_slot_loop (v_index v) 0 (unat (v_active v)) = Some j" "j \<le> unat (v_active v)"
      "\<forall>k<j. v_index v ! k \<noteq> None" "j < unat (v_active v) \<longrightarrow> v_index v ! j = None"
    by auto
  have u: "unat (of_nat j :: u32) = j"
    using j(2) unsigned_less [of "v_active v", where ?'a = nat] by (simp add: unat_of_nat)
  have "slots_of v j = None"
    using j(2,4) assms by (cases "j < unat (v_active v)") (auto simp: slots_of_def vec_wf_def)
  moreover have "\<forall>k<j. slots_of v k \<noteq> None"
    using j(2,3) len by (auto simp: slots_of_def)
  ultimately show ?thesis
    using False j u by (intro exI [of _ "of_nat j"]) (auto simp: vector_empty_slot_def word_le_nat_alt)
qed

lemma unset_loop_ok:
  assumes "n \<le> length ix" "n < 4294967296"
  shows "\<exists>m\<le>n. unset_loop ix n (of_nat n) = Some (of_nat m) \<and> (\<forall>k. m \<le> k \<and> k < n \<longrightarrow> ix ! k = None) \<and>
    (0 < m \<longrightarrow> ix ! (m - 1) \<noteq> None)"
  using assms
proof (induction n)
  case (Suc n)
  show ?case
  proof (cases "ix ! n = None")
    case True
    have "(of_nat (Suc n) :: u32) \<noteq> 0"
      using Suc.prems(2) by (simp only: word_unat_eq_iff unat_of_nat) simp
    then have step: "unset_loop ix (Suc n) (of_nat (Suc n)) = unset_loop ix n (of_nat n)"
      using True Suc.prems(1) by simp
    from Suc obtain m where
      m: "m \<le> n" "unset_loop ix n (of_nat n) = Some (of_nat m)" "\<forall>k. m \<le> k \<and> k < n \<longrightarrow> ix ! k = None"
        "0 < m \<longrightarrow> ix ! (m - 1) \<noteq> None"
      by auto
    have "ix ! k = None" if "m \<le> k" "k < Suc n" for k
      using that m(3) True by (cases "k = n") auto
    then show ?thesis
      unfolding step using m by (intro exI [of _ m]) auto
  next
    case False
    then show ?thesis
      using Suc.prems(1) by (intro exI [of _ "Suc n"]) auto
  qed
qed auto

lemma put_none_ok:
  assumes "vec_wf v" "i < v_alloced v"
  defines "v1 \<equiv> v\<lparr>v_index := (v_index v)[unat i := None]\<rparr>"
  shows "v_put v i None = Some v1" "slots_of v1 = (slots_of v)(unat i := None)" "vec_wf v1"
    "unat i < length (v_index v1)"
  using assms(1,2) unfolding v1_def
  by (auto simp: v_put_def slots_of_def vec_wf_def word_less_nat_alt fun_eq_iff nth_list_update)

lemma unset_inner:
  assumes "vec_wf v" "i < v_alloced v" "i + 1 \<noteq> v_active v"
  shows "\<exists>v'. vector_unset v i = Some v' \<and> vec_wf v' \<and> slots_of v' = (slots_of v)(unat i := None) \<and>
    v_active v' = v_active v"
  using put_none_ok [OF assms(1,2)] assms(2,3)
  by (intro exI [of _ "v\<lparr>v_index := (v_index v)[unat i := None]\<rparr>"]) (simp add: vector_unset_def not_le [symmetric])

lemma unset_last:
  assumes wf: "vec_wf v" and i: "i < v_alloced v" "i + 1 = v_active v"
  shows "\<exists>v'. vector_unset v i = Some v' \<and> vec_wf v' \<and> slots_of v' = (slots_of v)(unat i := None) \<and>
    (v_active v' = 0 \<or> slots_of v' (unat (v_active v') - 1) \<noteq> None)"
proof -
  let ?v1 = "v\<lparr>v_index := (v_index v)[unat i := None]\<rparr>"
  note v1 = put_none_ok [OF wf i(1)]
  have lt: "unat i < 4294967296"
    using unsigned_less [of i, where ?'a = nat] by simp
  from unset_loop_ok [OF less_imp_le [OF v1(4)] lt] obtain m where
    m: "m \<le> unat i" "unset_loop (v_index ?v1) (unat i) (of_nat (unat i)) = Some (of_nat m)"
      "\<forall>k. m \<le> k \<and> k < unat i \<longrightarrow> v_index ?v1 ! k = None" "0 < m \<longrightarrow> v_index ?v1 ! (m - 1) \<noteq> None"
    by blast
  have act: "v_active v - 1 = of_nat (unat i)"
    using i(2) by (metis add_diff_cancel_right' of_nat_unat ucast_id)
  have um: "unat (of_nat m :: u32) = m"
    using m(1) lt by (simp add: unat_of_nat)
  have top: "unat (v_active v) \<le> Suc (unat i)"
    using i(2) [symmetric] by (auto simp: unat_plus_if')
  let ?v = "?v1\<lparr>v_active := of_nat m\<rparr>"
  have "vector_unset v i = Some ?v"
    using i m(2) v1(1) act by (simp add: vector_unset_def not_le [symmetric])
  moreover have "v_index ?v1 ! k = None" if "m \<le> k" "k < length (v_index ?v1)" for k
  proof -
    consider "k < unat i" | "k = unat i" | "unat (v_active v) \<le> k"
      using top by linarith
    then show ?thesis
      using that m(3) v1(3) by cases (auto simp: vec_wf_def simp del: nth_list_update_neq)
  qed
  then have "vec_wf ?v"
    using v1(3,4) um m(1) by (auto simp: vec_wf_def word_le_nat_alt)
  moreover have "slots_of ?v = slots_of ?v1"
    by (simp add: slots_of_def fun_eq_iff)
  moreover have "(of_nat m :: u32) = 0 \<or> slots_of ?v (unat (of_nat m :: u32) - 1) \<noteq> None"
    using m(1,4) um v1(4) by (cases "m = 0") (auto simp: slots_of_def)
  ultimately show ?thesis
    using v1(2) by (intro exI [of _ ?v]) simp
qed

section \<open>Properties\<close>

text \<open>\<open>vector_set\<close> puts the value into the smallest empty slot and returns its number, growing the vector
  when there is none; every other slot keeps its value.\<close>

theorem vector_set_smallest:
  assumes "vec_wf v" "unat (v_active v) < 134217727" "\<And>n. mem n"
  shows "\<exists>i v'. vector_set mem v x = Some (i, v') \<and> vec_wf v' \<and> slots_of v (unat i) = None \<and>
    (\<forall>k<unat i. slots_of v k \<noteq> None) \<and> vector_lookup v' i = Some x \<and> slots_of v' = (slots_of v)(unat i := x)"
proof -
  from empty_slot_ok [OF assms(1)] obtain i where
    i: "vector_empty_slot v = Some i" "i \<le> v_active v" "slots_of v (unat i) = None" "\<forall>k<unat i. slots_of v k \<noteq> None"
    by blast
  then have "unat i < 134217727"
    using assms(2) by (simp add: word_le_nat_alt)
  from set_index_ok [of v i mem x] this assms obtain v' where
    "vector_set_index mem v i x = Some (i, v')" "vec_wf v'" "slots_of v' = (slots_of v)(unat i := x)"
    by auto
  then show ?thesis
    using i by (intro exI [of _ i] exI [of _ v']) (simp add: vector_set_def lookup_slots)
qed

theorem vector_set_smallest_witness:
  "\<exists>i v'. vector_set (\<lambda>n. True) \<lparr>v_active = 1, v_alloced = 1, v_index = [Some (5 :: nat)]\<rparr> (Some 7) = Some (i, v') \<and>
     vector_lookup v' i = Some (Some 7) \<and> slots_of v' = (slots_of \<lparr>v_active = 1, v_alloced = 1, v_index = [Some 5]\<rparr>)(unat i := Some 7)"
  using vector_set_smallest [of "\<lparr>v_active = 1, v_alloced = 1, v_index = [Some (5 :: nat)]\<rparr>" "\<lambda>n. True" "Some 7"]
  by (auto simp: vec_wf_def)

text \<open>\<open>vector_unset\<close> empties the slot and no other, and when it was the last active one, trims the
  active range to end right behind the last used slot.\<close>

theorem vector_unset_trims:
  assumes "vec_wf v"
  shows "\<exists>v'. vector_unset v i = Some v' \<and> vec_wf v' \<and> slots_of v' = (slots_of v)(unat i := None) \<and>
    (if i + 1 = v_active v \<and> i < v_alloced v
     then v_active v' = 0 \<or> slots_of v' (unat (v_active v') - 1) \<noteq> None else v_active v' = v_active v)"
proof (cases "v_alloced v \<le> i")
  case True
  then show ?thesis
    using assms by (auto simp: vector_unset_def slots_of_def vec_wf_def word_le_nat_alt word_less_nat_alt)
next
  case False
  then have i: "i < v_alloced v"
    by simp
  show ?thesis
  proof (cases "i + 1 = v_active v")
    case True
    from unset_last [OF assms i True] show ?thesis
      using True i by simp
  next
    case False
    from unset_inner [OF assms i False] show ?thesis
      using False by simp
  qed
qed

theorem vector_unset_trims_witness:
  "\<exists>v'. vector_unset \<lparr>v_active = 3, v_alloced = 4, v_index = [Some (5 :: nat), None, Some 6, None]\<rparr> 2 = Some v' \<and>
     slots_of v' = (slots_of \<lparr>v_active = 3, v_alloced = 4, v_index = [Some 5, None, Some 6, None]\<rparr>)(2 := None)"
proof -
  let ?v = "\<lparr>v_active = 3, v_alloced = 4, v_index = [Some (5 :: nat), None, Some 6, None]\<rparr>"
  have "vec_wf ?v"
    by (auto simp: vec_wf_def nth_Cons' )
  from vector_unset_trims [OF this, of 2] show ?thesis
    by auto
qed

end
