(* ===== verification/Queues.thy ===== *)
theory Queues
  imports Prelude
begin

text \<open>
  The contract of a first-in first-out queue, which the message rings, the global queue, the packet
  fifos and the thread pool's job queue promise to their clients, and the pointer paths the linked
  implementations are read with.

  An operation is partial: \<open>None\<close> is undefined behaviour. \<open>ok q x\<close> is what the caller owes for adding
  \<open>x\<close> (room, a valid and unlinked node).
\<close>

section \<open>The queue contract\<close>

locale fifo_queue =
  fixes inv :: "'q \<Rightarrow> bool"
    and abs :: "'q \<Rightarrow> 'a list"
    and ok :: "'q \<Rightarrow> 'a \<Rightarrow> bool"
    and enq :: "'q \<Rightarrow> 'a \<Rightarrow> 'q option"
    and deq :: "'q \<Rightarrow> ('a option \<times> 'q) option"
  assumes enq_law: "inv q \<Longrightarrow> ok q x \<Longrightarrow> \<exists>q'. enq q x = Some q' \<and> inv q' \<and> abs q' = abs q @ [x]"
    and deq_empty_law: "inv q \<Longrightarrow> abs q = [] \<Longrightarrow> \<exists>q'. deq q = Some (None, q') \<and> inv q' \<and> abs q' = []"
    and deq_law: "inv q \<Longrightarrow> abs q = x # xs \<Longrightarrow> \<exists>q'. deq q = Some (Some x, q') \<and> inv q' \<and> abs q' = xs"
begin

text \<open>Any sequence of additions (\<open>Some x\<close>) and removals (\<open>None\<close>) a client makes: the items handed
  out so far followed by the items still queued are the items it started with followed by the
  items added, in order.\<close>

fun run_queue :: "'a option list \<Rightarrow> 'q \<Rightarrow> 'a list \<Rightarrow> ('a list \<times> 'q) option" where
  "run_queue [] q out = Some (out, q)"
| "run_queue (Some x # cs) q out =
     (if ok q x then (case enq q x of None \<Rightarrow> None | Some q' \<Rightarrow> run_queue cs q' out) else Some (out, q))"
| "run_queue (None # cs) q out =
     (case deq q of None \<Rightarrow> None
      | Some (None, q') \<Rightarrow> run_queue cs q' out
      | Some (Some x, q') \<Rightarrow> run_queue cs q' (out @ [x]))"

fun added :: "'a option list \<Rightarrow> 'q \<Rightarrow> 'a list" where
  "added [] q = []"
| "added (Some x # cs) q =
     (if ok q x then x # (case enq q x of None \<Rightarrow> [] | Some q' \<Rightarrow> added cs q') else [])"
| "added (None # cs) q = (case deq q of None \<Rightarrow> [] | Some (_, q') \<Rightarrow> added cs q')"

lemma fifo_order:
  "inv q \<Longrightarrow> \<exists>out' q'. run_queue cs q out = Some (out', q') \<and> inv q' \<and>
     out' @ abs q' = out @ abs q @ added cs q"
proof (induction cs q out rule: run_queue.induct)
  case (2 x cs q out)
  show ?case
  proof (cases "ok q x")
    case True
    from enq_law [OF 2(2) this] obtain q' where "enq q x = Some q'" "inv q'" "abs q' = abs q @ [x]"
      by blast
    then show ?thesis
      using 2(1) True by auto
  qed (use 2(2) in auto)
next
  case (3 cs q out)
  show ?case
  proof (cases "abs q")
    case Nil
    from deq_empty_law [OF 3(3) this] obtain q' where "deq q = Some (None, q')" "inv q'" "abs q' = []"
      by blast
    then show ?thesis
      using 3(1) Nil by auto
  next
    case (Cons x xs)
    from deq_law [OF 3(3) this] obtain q' where "deq q = Some (Some x, q')" "inv q'" "abs q' = xs"
      by blast
    then show ?thesis
      using 3(2) Cons by auto
  qed
qed simp

text \<open>Draining: as many removals as there are items hand them all out, in order, and leave the queue
  empty.\<close>

lemma drain:
  "inv q \<Longrightarrow> \<exists>q'. run_queue (replicate (length (abs q)) None) q out = Some (out @ abs q, q') \<and>
     inv q' \<and> abs q' = []"
proof (induction "abs q" arbitrary: q out)
  case Nil
  then show ?case
    by (metis append_Nil2 list.size(3) replicate_0 run_queue.simps(1))
next
  case (Cons x xs)
  from deq_law [OF Cons.prems] Cons.hyps(2) obtain q' where
    q': "deq q = Some (Some x, q')" "inv q'" "abs q' = xs"
    by metis
  then show ?case
    using Cons.hyps(1) [of q' "out @ [x]"] Cons.hyps(2) [symmetric] by auto
qed

end

section \<open>Paths of next pointers\<close>

text \<open>A pointer is an address or NULL (\<open>None\<close>). \<open>path nxt p as\<close>: following \<open>nxt\<close> from \<open>p\<close> visits
  exactly \<open>as\<close> and ends at NULL. A store maps the live addresses to their contents.\<close>

type_synonym addr = nat
type_synonym ptr = "addr option"

fun path :: "(addr \<Rightarrow> ptr option) \<Rightarrow> ptr \<Rightarrow> addr list \<Rightarrow> bool" where
  "path nxt p [] \<longleftrightarrow> p = None"
| "path nxt p (a # as) \<longleftrightarrow> p = Some a \<and> (\<exists>p'. nxt a = Some p' \<and> path nxt p' as)"

lemma path_None [simp]: "path nxt None as \<longleftrightarrow> as = []"
  by (cases as) auto

lemma path_live: "path nxt p as \<Longrightarrow> a \<in> set as \<Longrightarrow> nxt a \<noteq> None"
  by (induction as arbitrary: p) auto

lemma path_cong:
  "(\<And>a. a \<in> set as \<Longrightarrow> nxt a = nxt' a) \<Longrightarrow> path nxt p as = path nxt' p as"
proof (induction as arbitrary: p)
  case (Cons a as)
  then have "path nxt p' as = path nxt' p' as" for p'
    by simp
  then show ?case
    using Cons.prems by simp
qed simp

lemma path_det: "path nxt p as \<Longrightarrow> path nxt p bs \<Longrightarrow> as = bs"
proof (induction as arbitrary: p bs)
  case (Cons a as)
  then show ?case
    by (cases bs) auto
qed simp

lemma path_append:
  "path nxt p (as @ b # bs) \<Longrightarrow> path nxt (Some b) (b # bs)"
  by (induction as arbitrary: p) auto

lemma path_distinct: "path nxt p as \<Longrightarrow> distinct as"
proof (induction as arbitrary: p)
  case (Cons a as)
  have "a \<notin> set as"
  proof
    assume "a \<in> set as"
    then obtain xs ys where as: "as = xs @ a # ys"
      by (meson split_list)
    from Cons.prems obtain p' where "nxt a = Some p'" "path nxt p' as"
      by auto
    with as have "path nxt (Some a) (a # ys)"
      using path_append [of nxt p' xs a ys] by simp
    moreover have "path nxt (Some a) (a # as)"
      using Cons.prems by auto
    ultimately have "as = ys"
      using path_det by blast
    then show False
      using as by auto
  qed
  then show ?case
    using Cons by auto
qed simp

text \<open>Appending a node behind the last one.\<close>

lemma path_snoc:
  assumes "path nxt p as" "b \<notin> set as" "nxt b = Some None"
    and "as \<noteq> [] \<Longrightarrow> nxt' (last as) = Some (Some b)" "\<And>a. a \<noteq> last as \<or> as = [] \<Longrightarrow> nxt' a = nxt a"
  shows "path nxt' (if as = [] then Some b else p) (as @ [b])"
proof (cases as rule: rev_cases)
  case (snoc bs a)
  then show ?thesis
    using assms path_distinct [OF assms(1)]
  proof (induction bs arbitrary: p as)
    case (Cons c bs)
    then have "path nxt p (c # bs @ [a])" "nxt' c = nxt c" "nxt' a = Some (Some b)"
      by auto
    then show ?case
      using Cons.IH [OF refl] Cons.prems by auto
  qed (use assms(3) in auto)
qed (use assms in auto)

end
