(* ===== verification/Release.thy ===== *)
theory Release
  imports Queues
begin

text \<open>
  Giving memory back: \<open>misakafree\<close> of \<open>misaka/lib/memory.c\<close> and the functions of the containers that only release their blocks.
  The heap is the set of the blocks that are allocated. Freeing NULL is logged and ignored; freeing what is not allocated, or reading a
  structure that is not, is undefined.
\<close>

type_synonym blocks = "addr set"

definition misakafree :: "ptr \<Rightarrow> blocks \<Rightarrow> blocks option" where
  "misakafree p H = (case p of None \<Rightarrow> Some H | Some a \<Rightarrow> if a \<in> H then Some (H - {a}) else None)"

definition list_free :: "ptr \<Rightarrow> blocks \<Rightarrow> blocks option" where
  "list_free l H = misakafree l H"

text \<open>\<open>index\<close> gives the field of the structure at an address.\<close>

definition hash_free :: "(addr \<Rightarrow> ptr) \<Rightarrow> ptr \<Rightarrow> blocks \<Rightarrow> blocks option" where
  "hash_free index h H = do {
     a \<leftarrow> h;
     H \<leftarrow> (if a \<in> H then misakafree (index a) H else None);
     misakafree h H
   }"

definition vector_only_wrapper_free :: "ptr \<Rightarrow> blocks \<Rightarrow> blocks option" where
  "vector_only_wrapper_free v H = misakafree v H"

definition vector_only_index_free :: "ptr \<Rightarrow> blocks \<Rightarrow> blocks option" where
  "vector_only_index_free index H = misakafree index H"

definition vector_free :: "(addr \<Rightarrow> ptr) \<Rightarrow> ptr \<Rightarrow> blocks \<Rightarrow> blocks option" where
  "vector_free index v H = do {
     a \<leftarrow> v;
     H \<leftarrow> (if a \<in> H then misakafree (index a) H else None);
     misakafree v H
   }"

text \<open>A structure and its index are released exactly once: both blocks and nothing else are gone, and a second call is undefined.\<close>

lemma vector_free_releases:
  assumes "a \<in> H" "index a = Some i" "i \<in> H" "i \<noteq> a"
  shows "vector_free index (Some a) H = Some (H - {a, i})" "vector_free index (Some a) (H - {a, i}) = None"
  using assms by (auto simp: vector_free_def misakafree_def)

lemma hash_free_releases:
  assumes "a \<in> H" "index a = Some i" "i \<in> H" "i \<noteq> a"
  shows "hash_free index (Some a) H = Some (H - {a, i})" "hash_free index (Some a) (H - {a, i}) = None"
  using assms by (auto simp: hash_free_def misakafree_def)

text \<open>The two partial releases of a vector, in either order, do what \<open>vector_free\<close> does.\<close>

lemma vector_free_parts:
  assumes "a \<in> H" "index a = Some i" "i \<in> H" "i \<noteq> a"
  shows "do { H1 \<leftarrow> vector_only_index_free (index a) H; vector_only_wrapper_free (Some a) H1 } = vector_free index (Some a) H"
    "do { H1 \<leftarrow> vector_only_wrapper_free (Some a) H; vector_only_index_free (index a) H1 } = vector_free index (Some a) H"
  using assms by (auto simp: vector_only_index_free_def vector_only_wrapper_free_def vector_free_def misakafree_def)

end
