(* ===== verification/Sockunion.thy ===== *)
theory Sockunion
  imports Prelude
begin

text \<open>
  Socket addresses: \<open>union sockunion\<close> of \<open>misaka/include/sockunion.h\<close> and the operations of
  \<open>misaka/lib/sockunion.c\<close>.

  The strings are C strings in their memory segment: a byte list with its terminating NUL, and
  reading past the end of the segment is undefined (the outer \<open>None\<close>). The answers of the system
  calls are parameters, and so is a successful or failed allocation; \<open>inet_ntop\<close>, \<open>htonl\<close> and the
  like are those of the C library on a little-endian host.
\<close>

abbreviation (input) AF_INET :: u16 where "AF_INET \<equiv> 2"

text \<open>The union of \<open>struct sockaddr\<close> and \<open>struct sockaddr_in\<close>: both start with the family; the
  port and the address are in network byte order, as stored.\<close>

record sockunion =
  sa_family :: u16
  sin_port :: u16
  sin_addr :: u32

definition zero_sockunion :: sockunion where
  "zero_sockunion = \<lparr>sa_family = 0, sin_port = 0, sin_addr = 0\<rparr>"

datatype connect_result = connect_error | connect_success | connect_in_progress | connect_passive

section \<open>Addresses and strings\<close>

text \<open>The do loop of \<open>inet_aton\<close>; \<open>val\<close> and \<open>addr\<close> are \<open>u_long\<close> and wrap around. The inner \<open>None\<close> is
  the early \<open>return 0\<close>.\<close>

fun aton_loop :: "byte list \<Rightarrow> nat \<Rightarrow> u64 \<Rightarrow> u64 \<Rightarrow> (nat \<times> u64) option option" where
  "aton_loop [] dots addr val = None"
| "aton_loop (c # cp) dots addr val =
     (if 48 \<le> c \<and> c \<le> 57 then aton_loop cp dots addr (val * 10 + (ucast c - 48))
      else if c = 46 then
        (if dots + 1 > 3 then Some None
         else if val > 255 then Some None
         else aton_loop cp (dots + 1) (push_bit 8 addr OR val) 0)
      else if c = 0 then (if val > 255 then Some None else Some (Some (dots, push_bit 8 addr OR val)))
      else Some None)"

text \<open>\<open>inet_aton\<close> yields the address in network byte order, or the inner \<open>None\<close> for its result 0.\<close>

definition inet_aton :: "byte list \<Rightarrow> u32 option option" where
  "inet_aton cp = do {
     r \<leftarrow> aton_loop cp 0 0 0;
     Some (map_option (\<lambda>(dots, addr).
       bswap32 (ucast (if dots < 3 then push_bit (8 * (3 - dots)) addr else addr))) r)
   }"

text \<open>\<open>inet_pton\<close>: the return value and the address stored on success.\<close>

definition inet_pton :: "u16 \<Rightarrow> byte list \<Rightarrow> (int \<times> u32 option) option" where
  "inet_pton family strptr =
     (if family = AF_INET then do {
        r \<leftarrow> inet_aton strptr;
        Some (case r of Some a \<Rightarrow> (1, Some a) | None \<Rightarrow> (0, None))
      } else Some (-1, None))"

text \<open>\<open>inet_ntop\<close> of the C library for \<open>AF_INET\<close>: the octets in memory order in decimal with dots
  between them and the terminating NUL, or NULL when the buffer is too short.\<close>

definition octet_digits :: "nat \<Rightarrow> nat list" where
  "octet_digits n =
     (if n < 10 then [n] else if n < 100 then [n div 10, n mod 10]
      else [n div 100, n div 10 mod 10, n mod 10])"

definition octet_str :: "byte \<Rightarrow> byte list" where
  "octet_str b = map (\<lambda>d. of_nat (48 + d)) (octet_digits (unat b))"

definition ntop_str :: "u32 \<Rightarrow> byte list" where
  "ntop_str a = octet_str (ucast a) @ 46 # octet_str (ucast (drop_bit 8 a)) @ 46 #
     octet_str (ucast (drop_bit 16 a)) @ 46 # octet_str (ucast (drop_bit 24 a)) @ [0]"

definition inet_ntop :: "u32 \<Rightarrow> size_t \<Rightarrow> byte list option" where
  "inet_ntop a len = (if unat len < length (ntop_str a) then None else Some (ntop_str a))"

abbreviation (input) INET_ADDRSTRLEN :: size_t where "INET_ADDRSTRLEN \<equiv> 16"
abbreviation (input) SU_ADDRSTRLEN :: size_t where "SU_ADDRSTRLEN \<equiv> 46"

text \<open>\<open>inet_sutop\<close> writes the string into \<open>str\<close> and returns it; a family other than \<open>AF_INET\<close> leaves
  the buffer as it is. The buffer must have room for what \<open>inet_ntop\<close> writes.\<close>

definition inet_sutop :: "sockunion \<Rightarrow> byte list \<Rightarrow> byte list option" where
  "inet_sutop su str =
     (if sa_family su = AF_INET then
        (case inet_ntop (sin_addr su) INET_ADDRSTRLEN of
           Some bs \<Rightarrow> wr_seg str 0 bs
         | None \<Rightarrow> Some str)
      else Some str)"

definition str2sockunion :: "byte list \<Rightarrow> (int \<times> sockunion) option" where
  "str2sockunion str = do {
     (ret, a) \<leftarrow> inet_pton AF_INET str;
     Some (case a of
       Some v \<Rightarrow> if ret > 0 then (0, zero_sockunion\<lparr>sin_addr := v, sa_family := AF_INET\<rparr>)
                 else (-1, zero_sockunion\<lparr>sin_addr := v\<rparr>)
     | None \<Rightarrow> (-1, zero_sockunion))
   }"

text \<open>\<open>sockunion2str\<close>: the string in the buffer, or NULL.\<close>

definition sockunion2str :: "sockunion \<Rightarrow> size_t \<Rightarrow> byte list option" where
  "sockunion2str su len = (if sa_family su = AF_INET then inet_ntop (sin_addr su) len else None)"

text \<open>\<open>XCALLOC\<close> may fail, and the functions that call it write through its result unchecked.\<close>

definition sockunion_str2su :: "bool \<Rightarrow> byte list \<Rightarrow> sockunion option option" where
  "sockunion_str2su alloc str = do {
     (ret, a) \<leftarrow> inet_pton AF_INET str;
     case a of
       Some v \<Rightarrow> if \<not> alloc then None
                 else if ret > 0 then Some (Some (zero_sockunion\<lparr>sin_addr := v, sa_family := AF_INET\<rparr>))
                 else Some None
     | None \<Rightarrow> Some None
   }"

definition sockunion_dup :: "bool \<Rightarrow> sockunion \<Rightarrow> sockunion option" where
  "sockunion_dup alloc su = (if alloc then Some su else None)"

section \<open>Comparison\<close>

definition sockunion_same :: "sockunion \<Rightarrow> sockunion \<Rightarrow> int" where
  "sockunion_same su1 su2 =
     (if sa_family su1 \<noteq> sa_family su2 then 0
      else if sa_family su1 = AF_INET then
        (if le32_bytes (sin_addr su1) = le32_bytes (sin_addr su2) then 1 else 0)
      else 1)"

definition sockunion_cmp :: "sockunion \<Rightarrow> sockunion \<Rightarrow> int" where
  "sockunion_cmp su1 su2 =
     (if sa_family su1 > sa_family su2 then 1
      else if sa_family su1 < sa_family su2 then -1
      else if sa_family su1 = AF_INET then
        (if bswap32 (sin_addr su1) = bswap32 (sin_addr su2) then 0
         else if bswap32 (sin_addr su1) > bswap32 (sin_addr su2) then 1
         else -1)
      else 0)"

section \<open>Sockets\<close>

text \<open>Each function takes the answers of the system calls it makes. \<open>sockunion_accept\<close> gets the
  address the kernel stored.\<close>

definition sockunion_socket :: "cint \<Rightarrow> cint" where
  "sockunion_socket sock = (if sint sock < 0 then -1 else sock)"

definition sockunion_accept :: "cint \<times> sockunion option \<Rightarrow> sockunion \<Rightarrow> cint \<times> sockunion" where
  "sockunion_accept answer su = (fst answer, case snd answer of Some new \<Rightarrow> new | None \<Rightarrow> su)"

definition sockunion_sizeof :: "sockunion \<Rightarrow> int" where
  "sockunion_sizeof su = (if sa_family su = AF_INET then 16 else 0)"

abbreviation (input) EINPROGRESS :: int where "EINPROGRESS \<equiv> 115"

text \<open>\<open>sockunion_connect\<close> on the result of \<open>connect\<close> and the error number behind it. The flag says
  that \<open>ioctl (fd, FIONBIO, 0)\<close> was called, which makes the descriptor blocking.\<close>

definition sockunion_connect :: "cint \<Rightarrow> int \<Rightarrow> connect_result \<times> bool" where
  "sockunion_connect ret en =
     (if ret = 0 then (connect_success, True)
      else if sint ret < 0 \<and> en \<noteq> EINPROGRESS then (connect_error, False)
      else (connect_in_progress, False))"

text \<open>\<open>sockunion_stream_socket\<close> sets an unset family and returns what \<open>socket\<close> answers for it.\<close>

definition sockunion_stream_socket :: "(u16 \<Rightarrow> cint) \<Rightarrow> sockunion \<Rightarrow> cint \<times> sockunion" where
  "sockunion_stream_socket sys_socket su =
     (let su' = (if sa_family su = 0 then su\<lparr>sa_family := AF_INET\<rparr> else su)
      in (sys_socket (sa_family su'), su'))"

text \<open>\<open>bind\<close> is asked with the address and its size; \<open>has_addr\<close> says that \<open>su_addr\<close> is not NULL.\<close>

definition sockunion_bind ::
  "(sockunion \<Rightarrow> int \<Rightarrow> cint) \<Rightarrow> sockunion \<Rightarrow> u16 \<Rightarrow> bool \<Rightarrow> cint \<times> sockunion" where
  "sockunion_bind sys_bind su port has_addr =
     (if sa_family su = AF_INET then
        let su1 = su\<lparr>sin_port := bswap16 port\<rparr>;
            su2 = (if has_addr then su1 else su1\<lparr>sin_addr := 0\<rparr>)
        in (sys_bind su2 16, su2)
      else (sys_bind su 0, su))"

definition sockopt_reuseaddr :: "cint \<Rightarrow> int" where
  "sockopt_reuseaddr ret = (if sint ret < 0 then -1 else 0)"

definition sockopt_reuseport :: "cint \<Rightarrow> int" where
  "sockopt_reuseport ret = (if sint ret < 0 then -1 else 0)"

definition sockopt_ttl :: "u16 \<Rightarrow> cint \<Rightarrow> int" where
  "sockopt_ttl family ret = (if family = AF_INET then (if sint ret < 0 then -1 else 0) else 0)"

definition sockopt_cork :: "cint \<Rightarrow> cint" where
  "sockopt_cork ret = ret"

text \<open>\<open>sockopt_minttl\<close> is compiled by what the headers of the platform define: the parameters say whether \<open>IP_MINTTL\<close> and
  \<open>IPV6_MINHOPCNT\<close> are. The flag is \<open>True\<close> when \<open>errno\<close> is set to \<open>EOPNOTSUPP\<close>.\<close>

definition sockopt_minttl :: "bool \<Rightarrow> bool \<Rightarrow> cint \<Rightarrow> cint \<Rightarrow> cint \<times> bool" where
  "sockopt_minttl has_minttl has_minhopcnt family ret =
     (if has_minttl \<and> family = 2 then (ret, False)
      else if has_minhopcnt \<and> family = 10 then (ret, False)
      else (-1, True))"

text \<open>\<open>sockunion_su2str\<close>: for another family than \<open>AF_INET\<close> the buffer is copied without having been written. The inner
  \<open>None\<close> is NULL, when \<open>strdup\<close> gets no memory.\<close>

definition sockunion_su2str :: "bool \<Rightarrow> sockunion \<Rightarrow> byte list option option" where
  "sockunion_su2str mem su =
     (if sa_family su = AF_INET then do {
        str \<leftarrow> inet_ntop (sin_addr su) SU_ADDRSTRLEN;
        Some (if mem then Some str else None)
      }
      else None)"

definition sockunion_normalise_mapped :: "sockunion \<Rightarrow> sockunion" where
  "sockunion_normalise_mapped su = su"

text \<open>\<open>getsockname\<close> and \<open>getpeername\<close>: on success the kernel's address is copied into a new block.
  The inner \<open>None\<close> is NULL.\<close>

definition sockunion_getsockname :: "bool \<Rightarrow> cint \<Rightarrow> sockunion \<Rightarrow> sockunion option option" where
  "sockunion_getsockname alloc ret name =
     (if sint ret < 0 then Some None
      else if sa_family name = AF_INET then (if alloc then Some (Some name) else None)
      else Some None)"

definition sockunion_getpeername :: "bool \<Rightarrow> cint \<Rightarrow> sockunion \<Rightarrow> sockunion option option" where
  "sockunion_getpeername alloc ret name =
     (if sint ret < 0 then Some None
      else if sa_family name = AF_INET then (if alloc then Some (Some name) else None)
      else Some None)"

section \<open>The order of addresses\<close>

text \<open>What the comparison looks at: the family, and for an IPv4 address its value in host order.\<close>

definition su_key :: "sockunion \<Rightarrow> int \<times> int" where
  "su_key su = (uint (sa_family su), if sa_family su = AF_INET then uint (bswap32 (sin_addr su)) else 0)"

definition key_sign :: "int \<times> int \<Rightarrow> int \<times> int \<Rightarrow> int" where
  "key_sign p q = (if fst p \<noteq> fst q then sgn (fst p - fst q) else sgn (snd p - snd q))"

lemma uint_inject: "uint x = uint y \<longleftrightarrow> x = (y :: 'a::len word)"
  by (metis word_of_int_uint)

lemma family_inject: "uint (f :: u16) = 2 \<longleftrightarrow> f = 2"
  using uint_inject [of f 2] by simp

lemmas key_simps = su_key_def uint_inject family_inject

lemma sockunion_cmp_key: "sockunion_cmp a b = key_sign (su_key a) (su_key b)"
  by (auto simp: sockunion_cmp_def key_sign_def key_simps word_less_def sgn_if)

lemma le32_bytes_inject: "le32_bytes a = le32_bytes b \<longleftrightarrow> a = b"
  by (metis le32_roundtrip)

lemma sockunion_same_key: "sockunion_same a b = 1 \<longleftrightarrow> su_key a = su_key b"
  by (auto simp: sockunion_same_def key_simps le32_bytes_inject)

lemma key_sign_order:
  "key_sign p q = 0 \<longleftrightarrow> p = q" "key_sign q p = - key_sign p q" "key_sign p q \<le> 0 \<Longrightarrow> key_sign q r \<le> 0 \<Longrightarrow> key_sign p r \<le> 0"
  by (auto simp: key_sign_def sgn_if prod_eq_iff split: if_splits)

section \<open>Reading back a printed address\<close>

lemma aton_digit:
  assumes "d < 10"
  shows "aton_loop (of_nat (48 + d) # cp) dots addr val = aton_loop cp dots addr (val * 10 + of_nat d)"
proof -
  have "d \<in> {0, 1, 2, 3, 4, 5, 6, 7, 8, 9}"
    using assms by auto
  then show ?thesis
    by (elim insertE) simp_all
qed

lemma foldl_of_nat:
  "foldl (\<lambda>v d. v * 10 + of_nat d) (of_nat n :: u64) ds = of_nat (foldl (\<lambda>v d. v * 10 + d) n ds)"
proof (induction ds arbitrary: n)
  case (Cons d ds)
  have "(of_nat n :: u64) * 10 + of_nat d = of_nat (n * 10 + d)"
    by simp
  then show ?case
    using Cons [of "n * 10 + d"] by (simp only: foldl.simps)
qed simp

lemma digits_value:
  "foldl (\<lambda>v d. v * 10 + of_nat d) (0 :: u64) (octet_digits n) = of_nat n"
proof -
  have "n div 10 div 10 * 10 + n div 10 mod 10 = n div 10"
    by (rule div_mult_mod_eq)
  then have "(n div 100 * 10 + n div 10 mod 10) * 10 + n mod 10 = n"
    using div_mult2_eq [of n 10 10] by simp
  then have "foldl (\<lambda>v d. v * 10 + d) 0 (octet_digits n) = n"
    by (simp add: octet_digits_def)
  then show ?thesis
    using foldl_of_nat [of 0 "octet_digits n"] by simp
qed

lemma aton_digits:
  assumes "\<forall>d \<in> set ds. d < 10"
  shows "aton_loop (map (\<lambda>d. of_nat (48 + d)) ds @ cp) dots addr val =
    aton_loop cp dots addr (foldl (\<lambda>v d. v * 10 + of_nat d) val ds)"
  using assms
proof (induction ds arbitrary: val)
  case (Cons d ds)
  then show ?case
    using aton_digit [of d "map (\<lambda>d. of_nat (48 + d)) ds @ cp" dots addr val] by simp
qed simp

lemma unat_byte_bound: "unat (b :: byte) < 256"
  using unsigned_less [of b, where ?'a = nat] by simp

lemma aton_octet: "aton_loop (octet_str b @ cp) dots addr 0 = aton_loop cp dots addr (ucast b)"
proof -
  have "\<forall>d \<in> set (octet_digits (unat b)). d < 10"
    using unat_byte_bound [of b] by (auto simp: octet_digits_def)
  then show ?thesis
    using aton_digits [of "octet_digits (unat b)"] digits_value [of "unat b"]
    by (simp add: octet_str_def)
qed

lemma ucast_byte_le: "(ucast (b :: byte) :: u64) \<le> 255"
  using unat_byte_bound [of b] by (simp add: word_le_nat_alt unsigned_ucast_eq take_bit_nat_eq_self)

lemma quad_join:
  "ucast (((push_bit 24 (ucast a) OR push_bit 16 (ucast b)) OR push_bit 8 (ucast c)) OR (ucast d :: u64)) =
     be32 a b c (d :: byte)"
  by (rule bit_word_eqI) (auto simp: be32_def bit_simps dest: bit_imp_le_length)

lemma inet_aton_ntop: "inet_aton (ntop_str a) = Some (Some a)"
proof -
  have "bswap32 (be32 (ucast a) (ucast (drop_bit 8 a)) (ucast (drop_bit 16 a)) (ucast (drop_bit 24 a))) = a"
    by (simp flip: bswap32_def)
  then show ?thesis
    by (simp add: inet_aton_def ntop_str_def aton_octet linorder_not_less ucast_byte_le quad_join)
qed

lemma octet_str_length: "length (octet_str b) \<le> 3"
  by (simp add: octet_str_def octet_digits_def)

lemma ntop_str_length: "length (ntop_str a) \<le> 16"
  using octet_str_length [of "ucast a"] octet_str_length [of "ucast (drop_bit 8 a)"]
    octet_str_length [of "ucast (drop_bit 16 a)"] octet_str_length [of "ucast (drop_bit 24 a)"]
  by (simp add: ntop_str_def)

section \<open>Properties\<close>

text \<open>C29: Every IPv4 address that \<open>sockunion2str\<close> prints into a buffer of \<open>SU_ADDRSTRLEN\<close> bytes is read
  back by \<open>str2sockunion\<close> as the same address.\<close>

theorem address_roundtrip:
  assumes "sa_family su = AF_INET"
  shows "\<exists>str. sockunion2str su SU_ADDRSTRLEN = Some str \<and>
    str2sockunion str = Some (0, zero_sockunion\<lparr>sin_addr := sin_addr su, sa_family := AF_INET\<rparr>)"
  using assms ntop_str_length [of "sin_addr su"]
  by (simp add: sockunion2str_def inet_ntop_def str2sockunion_def inet_pton_def inet_aton_ntop)

theorem address_roundtrip_witness:
  "\<exists>str. sockunion2str \<lparr>sa_family = 2, sin_port = 80, sin_addr = 16777343\<rparr> SU_ADDRSTRLEN = Some str \<and>
     str2sockunion str = Some (0, \<lparr>sa_family = 2, sin_port = 0, sin_addr = 16777343\<rparr>)"
  using address_roundtrip [of "\<lparr>sa_family = 2, sin_port = 80, sin_addr = 16777343\<rparr>"]
  by (simp add: zero_sockunion_def)

text \<open>\<open>sockunion_cmp\<close> is a total order on addresses: it is antisymmetric and transitive, and it
  returns 0 exactly on the pairs that \<open>sockunion_same\<close> accepts.\<close>

theorem sockunion_cmp_total_order:
  "(sockunion_cmp a b = 0 \<longleftrightarrow> sockunion_same a b = 1) \<and> sockunion_cmp b a = - sockunion_cmp a b \<and>
     (sockunion_cmp a b \<le> 0 \<and> sockunion_cmp b c \<le> 0 \<longrightarrow> sockunion_cmp a c \<le> 0)"
  using key_sign_order [of "su_key a" "su_key b"] key_sign_order(3) [of "su_key a" "su_key b" "su_key c"]
  by (auto simp: sockunion_cmp_key sockunion_same_key)

theorem sockunion_cmp_total_order_witness:
  "sockunion_cmp (zero_sockunion\<lparr>sa_family := 2, sin_addr := 1\<rparr>) (zero_sockunion\<lparr>sa_family := 2, sin_addr := 65536\<rparr>) = 1 \<and>
   sockunion_cmp (zero_sockunion\<lparr>sa_family := 2, sin_addr := 65536\<rparr>) (zero_sockunion\<lparr>sa_family := 2, sin_addr := 1\<rparr>) = -1"
  using sockunion_cmp_total_order [of "zero_sockunion\<lparr>sa_family := 2, sin_addr := 1\<rparr>"
      "zero_sockunion\<lparr>sa_family := 2, sin_addr := 65536\<rparr>" zero_sockunion]
  by (simp add: sockunion_cmp_def bswap32_def be32_def)

text \<open>\<open>inet_aton\<close> accumulates an octet in an \<open>unsigned long\<close> without a bound, so an octet that is
  too large by a multiple of 2 to the power 64 is accepted: \<open>18446744073709551617.0.0.1\<close> reads as
  the address \<open>1.0.0.1\<close>.\<close>

theorem inet_aton_octet_wraps:
  "inet_aton ([49, 56, 52, 52, 54, 55, 52, 52, 48, 55, 51, 55, 48, 57, 53, 53, 49, 54, 49, 55] @
     [46, 48, 46, 48, 46, 49, 0]) = inet_aton [49, 46, 48, 46, 48, 46, 49, 0] \<and>
   inet_aton [49, 46, 48, 46, 48, 46, 49, 0] = Some (Some 16777217)"
  by (simp add: inet_aton_def bswap32_def be32_def)

end
