(* ===== verification/Network.thy ===== *)
theory Network
  imports Prelude
begin

text \<open>
  The blocking transfer loops and descriptor helpers of \<open>misaka/lib/network.c\<close>.

  The operating system is a parameter: the answers of the successive system calls of a run
  are given as a list, and a loop consumes one answer per call. Running out of answers
  (\<open>None\<close>) is a call that never returns. What the loops rely on, that a call never
  transfers more than was asked for, is the predicate \<open>reads_bounded\<close>.
\<close>

section \<open>System call answers\<close>

text \<open>The answer of a \<open>read\<close>-like call: the bytes stored into the buffer, or an error number
  with return value -1.\<close>

datatype sysread = Got "byte list" | Fail int

text \<open>The answer of a \<open>write\<close>-like call: the number of bytes taken, or an error number.\<close>

datatype syswrite = Wrote nat | WFail int

text \<open>\<open>EAGAIN\<close>, \<open>EWOULDBLOCK\<close> and \<open>EINTR\<close> as Linux numbers them.\<close>

abbreviation (input) EINTR :: int where "EINTR \<equiv> 4"
abbreviation (input) EAGAIN :: int where "EAGAIN \<equiv> 11"
abbreviation (input) EWOULDBLOCK :: int where "EWOULDBLOCK \<equiv> 11"

definition ERRNO_IO_RETRY :: "int \<Rightarrow> bool" where
  "ERRNO_IO_RETRY en \<longleftrightarrow> en = EAGAIN \<or> en = EWOULDBLOCK \<or> en = EINTR"

section \<open>readn and writen\<close>

text \<open>\<open>readn_loop nbytes nleft acc rs\<close>: the while loop of \<open>readn\<close> with \<open>nleft\<close> bytes to go,
  \<open>acc\<close> already stored at the buffer and \<open>rs\<close> the answers still to come. It yields the
  return value, the bytes stored and the unused answers.\<close>

fun readn_loop :: "int \<Rightarrow> int \<Rightarrow> byte list \<Rightarrow> sysread list \<Rightarrow> (int \<times> byte list \<times> sysread list) option" where
  "readn_loop nbytes nleft acc [] = (if 0 < nleft then None else Some (nbytes - nleft, acc, []))"
| "readn_loop nbytes nleft acc (Fail e # rs) =
     (if 0 < nleft then Some (-1, acc, rs) else Some (nbytes - nleft, acc, Fail e # rs))"
| "readn_loop nbytes nleft acc (Got bs # rs) =
     (if 0 < nleft then
        (if bs = [] then Some (nbytes - nleft, acc, rs)
         else readn_loop nbytes (nleft - int (length bs)) (acc @ bs) rs)
      else Some (nbytes - nleft, acc, Got bs # rs))"

definition readn :: "int \<Rightarrow> sysread list \<Rightarrow> (int \<times> byte list \<times> sysread list) option" where
  "readn nbytes rs = readn_loop nbytes nbytes [] rs"

text \<open>\<open>writen\<close> hands the unsent tail of the buffer to each call; the result carries the bytes
  the calls took, in order.\<close>

fun writen_loop :: "int \<Rightarrow> int \<Rightarrow> byte list \<Rightarrow> byte list \<Rightarrow> syswrite list \<Rightarrow> (int \<times> byte list) option" where
  "writen_loop nbytes nleft ptr sent [] = (if 0 < nleft then None else Some (nbytes - nleft, sent))"
| "writen_loop nbytes nleft ptr sent (WFail e # ws) =
     (if 0 < nleft then Some (-1, sent) else Some (nbytes - nleft, sent))"
| "writen_loop nbytes nleft ptr sent (Wrote k # ws) =
     (if 0 < nleft then
        (if k = 0 then Some (0, sent)
         else writen_loop nbytes (nleft - int k) (drop k ptr) (sent @ take k ptr) ws)
      else Some (nbytes - nleft, sent))"

definition writen :: "byte list \<Rightarrow> int \<Rightarrow> syswrite list \<Rightarrow> (int \<times> byte list) option" where
  "writen ptr nbytes ws = writen_loop nbytes nbytes ptr [] ws"

text \<open>\<open>set_nonblocking\<close> over the two \<open>fcntl\<close> answers: the flags read (negative for an error) and
  the result of storing them. It yields the return value and the flags stored, if any.\<close>

abbreviation (input) O_NONBLOCK :: u32 where "O_NONBLOCK \<equiv> 2048"

definition set_nonblocking :: "cint \<Rightarrow> cint \<Rightarrow> int \<times> u32 option" where
  "set_nonblocking getfl setfl =
     (if sint getfl < 0 then (-1, None)
      else if sint setfl < 0 then (-1, None)
      else (0, Some (getfl OR O_NONBLOCK)))"

section \<open>The contract of the read calls and what the loops guarantee\<close>

text \<open>Every call answers with at most the number of bytes asked for, as POSIX requires.\<close>

fun reads_bounded :: "int \<Rightarrow> sysread list \<Rightarrow> bool" where
  "reads_bounded n [] = True"
| "reads_bounded n (Fail e # rs) = True"
| "reads_bounded n (Got bs # rs) \<longleftrightarrow>
     n \<le> 0 \<or> (int (length bs) \<le> n \<and> (bs = [] \<or> reads_bounded (n - int (length bs)) rs))"

fun writes_bounded :: "int \<Rightarrow> syswrite list \<Rightarrow> bool" where
  "writes_bounded n [] = True"
| "writes_bounded n (WFail e # ws) = True"
| "writes_bounded n (Wrote k # ws) \<longleftrightarrow>
     n \<le> 0 \<or> (int k \<le> n \<and> (k = 0 \<or> writes_bounded (n - int k) ws))"

lemma readn_loop_result:
  assumes "readn_loop nbytes nleft acc rs = Some (r, bs, rs')" "reads_bounded nleft rs"
    and "0 \<le> nleft" "nleft \<le> nbytes" "int (length acc) = nbytes - nleft"
  shows "(r = -1 \<or> r = int (length bs)) \<and> int (length bs) \<le> nbytes"
  using assms
proof (induction nbytes nleft acc rs rule: readn_loop.induct)
  case (3 nbytes nleft acc bs' rs)
  then show ?case
    by (cases "0 < nleft"; cases "bs' = []") auto
qed (auto split: if_splits)

text \<open>\<open>readn\<close> never stores more than it was asked to and returns -1 or exactly the number of bytes
  it stored.\<close>

lemma readn_bounded:
  "readn n rs = Some (r, bs, rs') \<Longrightarrow> reads_bounded n rs \<Longrightarrow> 0 \<le> n \<Longrightarrow>
     (r = -1 \<or> r = int (length bs)) \<and> int (length bs) \<le> n"
  by (rule readn_loop_result [of n n "[]" rs]) (auto simp: readn_def)

lemma writen_loop_complete:
  assumes "writen_loop nbytes nleft ptr sent ws = Some (r, out)" "writes_bounded nleft ws"
    and "0 \<le> nleft" "nleft \<le> nbytes" "int (length ptr) = nleft" "r = nbytes" "nbytes \<noteq> 0"
  shows "out = sent @ ptr"
  using assms
proof (induction nbytes nleft ptr sent ws rule: writen_loop.induct)
  case (3 nbytes nleft ptr sent k ws)
  then show ?case
    by (cases "0 < nleft"; cases "k = 0") auto
qed (auto split: if_splits)

text \<open>When \<open>writen\<close> reports the full length, the calls took exactly the buffer, in order.\<close>

lemma writen_complete:
  "writen ptr n ws = Some (n, out) \<Longrightarrow> writes_bounded n ws \<Longrightarrow> int (length ptr) = n \<Longrightarrow> n \<noteq> 0 \<Longrightarrow>
     out = ptr"
  using writen_loop_complete [of n n ptr "[]" ws n out] by (auto simp: writen_def)

end
