(* ===== verification/Memory.thy ===== *)
theory Memory
  imports Prelude
begin

text \<open>
  The allocation wrappers of \<open>misaka/lib/memory.c\<close>. The C library's \<open>malloc\<close> is a parameter: for
  a number of bytes it gives the segment it returns, with whatever the memory held, or \<open>None\<close>
  for NULL. The wrappers take the size as an \<open>int\<close> and widen it to \<open>size_t\<close> again, so a size is
  truncated to 32 bits and sign-extended. The switch over the memory type has only its default
  case: the pools are compiled in under \<open>MISAK_CACHE_SUPPORT\<close>, which nothing defines.
\<close>

type_synonym allocator = "size_t \<Rightarrow> byte list option"

text \<open>What \<open>malloc\<close> promises.\<close>

definition malloc_ok :: "allocator \<Rightarrow> bool" where
  "malloc_ok malloc \<longleftrightarrow> (\<forall>n d. malloc n = Some d \<longrightarrow> length d = unat n)"

definition misakamalloc :: "allocator \<Rightarrow> cint \<Rightarrow> byte list option" where
  "misakamalloc malloc sz = malloc (scast sz)"

definition misakacalloc :: "allocator \<Rightarrow> cint \<Rightarrow> byte list option" where
  "misakacalloc malloc sz = map_option (\<lambda>d. replicate (length d) 0) (malloc (scast sz))"

text \<open>\<open>realloc\<close> keeps the old bytes as far as they fit; behind them is the new block's memory.\<close>

definition misakarealloc :: "allocator \<Rightarrow> byte list \<Rightarrow> cint \<Rightarrow> byte list option" where
  "misakarealloc malloc ptr sz =
     map_option (\<lambda>d. take (length d) ptr @ drop (length ptr) d) (malloc (scast sz))"

lemma scast_ucast_small:
  fixes n :: size_t
  assumes "unat n \<le> 2147483647"
  shows "scast (ucast n :: cint) = n"
proof -
  define m where "m = unat n"
  have n: "n = word_of_nat m" and m: "m \<le> 2147483647"
    using assms by (simp_all add: m_def)
  have "(ucast n :: cint) = word_of_nat m"
    by (simp add: m_def)
  moreover have "sint (word_of_nat m :: cint) = int m"
    using m by (simp add: signed_of_nat signed_take_bit_int_eq_self)
  ultimately show ?thesis
    by (metis n of_int_of_nat_eq of_int_sint)
qed

lemma misakamalloc_length:
  "malloc_ok malloc \<Longrightarrow> unat (n :: size_t) \<le> 2147483647 \<Longrightarrow> misakamalloc malloc (ucast n) = Some d \<Longrightarrow>
     length d = unat n"
  by (simp add: misakamalloc_def malloc_ok_def scast_ucast_small)

lemma misakarealloc_length:
  "malloc_ok malloc \<Longrightarrow> unat (n :: size_t) \<le> 2147483647 \<Longrightarrow> misakarealloc malloc ptr (ucast n) = Some d \<Longrightarrow>
     length d = unat n"
  by (auto simp: misakarealloc_def malloc_ok_def scast_ucast_small)

lemma misakarealloc_prefix:
  "misakarealloc malloc ptr n = Some d \<Longrightarrow> k \<le> length ptr \<Longrightarrow> k \<le> length d \<Longrightarrow> take k d = take k ptr"
  by (auto simp: misakarealloc_def min_def)

end
