(* ===== verification/Stream.thy ===== *)
theory Stream
  imports Sockunion Network Memory
begin

text \<open>
  The packet buffer of \<open>misaka/lib/stream.c\<close> and \<open>misaka/include/stream.h\<close>.

  A \<open>struct stream\<close> is the record \<open>stream\<close>: its \<open>data\<close> segment is a byte list, \<open>getp\<close>,
  \<open>endp\<close> and \<open>size\<close> are \<open>size_t\<close> words that wrap around, and the \<open>int\<close> fields are 32-bit
  words. Every operation takes the stream and gives back the changed stream with the value
  returned; \<open>None\<close> is an access outside the data segment. \<open>assert\<close> is the macro of
  \<open>misaka/include/zebra.h\<close> line 4, which evaluates its argument and goes on, so the code after a
  failed bounds check runs: the operations return 0 or -1 there, as written.

  The abstract view is a byte queue: \<open>contents\<close> are the unread bytes, \<open>room\<close> the free space
  behind them, \<open>adv n\<close> consumes and \<open>app bs\<close> appends. The lemmas named \<open>..._eq\<close> say that on a
  sane stream each getter and putter is one such step.
\<close>

section \<open>The structure\<close>

abbreviation (input) MISAKA_MAX_PACKET_SIZE :: size_t where "MISAKA_MAX_PACKET_SIZE \<equiv> 256"
abbreviation (input) MISAKA_HEADER_SIZE :: nat where "MISAKA_HEADER_SIZE \<equiv> 8"

text \<open>The link to the next packet (\<open>next\<close>) is kept by the packet store of theory \<open>Fifo\<close>, and
  the per-event pointers \<open>edata\<close> are never read by the program.\<close>

record stream =
  s_owner :: cint
  s_type :: cint
  s_stype :: cint
  s_su :: sockunion
  s_dsu :: sockunion
  s_plen :: cint
  s_rlen :: cint
  s_flag :: cint
  s_src :: cint
  s_dst :: cint
  s_mark :: cint
  s_interval :: cint
  s_repeat :: cint
  s_nid :: cint
  s_sid :: cint
  s_seq :: cint
  s_getp :: size_t
  s_endp :: size_t
  s_size :: size_t
  s_data :: "byte list"

definition GETP_VALID :: "stream \<Rightarrow> size_t \<Rightarrow> bool" where
  "GETP_VALID s g \<longleftrightarrow> g \<le> s_endp s"

definition PUT_AT_VALID :: "stream \<Rightarrow> size_t \<Rightarrow> bool" where
  "PUT_AT_VALID s g \<longleftrightarrow> GETP_VALID s g"

definition ENDP_VALID :: "stream \<Rightarrow> size_t \<Rightarrow> bool" where
  "ENDP_VALID s e \<longleftrightarrow> e \<le> s_size s"

definition STREAM_WRITEABLE :: "stream \<Rightarrow> size_t" where
  "STREAM_WRITEABLE s = s_size s - s_endp s"

definition STREAM_READABLE :: "stream \<Rightarrow> size_t" where
  "STREAM_READABLE s = s_endp s - s_getp s"

text \<open>What \<open>STREAM_VERIFY_SANE\<close> asserts.\<close>

definition STREAM_SANE :: "stream \<Rightarrow> bool" where
  "STREAM_SANE s \<longleftrightarrow> GETP_VALID s (s_getp s) \<and> ENDP_VALID s (s_endp s)"

text \<open>\<open>CHECK_SIZE\<close> replaces a size that does not fit by the free space; the sum wraps.\<close>

definition CHECK_SIZE :: "stream \<Rightarrow> size_t \<Rightarrow> size_t" where
  "CHECK_SIZE s z = (if s_endp s + z > s_size s then s_size s - s_endp s else z)"

section \<open>Allocation and copying\<close>

text \<open>\<open>mem\<close> is the structure the first allocation returned (its fields hold whatever the memory
  held), \<open>None\<close> when it failed; the data segment comes from \<open>misakamalloc\<close>.\<close>

definition stream_new :: "allocator \<Rightarrow> stream option \<Rightarrow> size_t \<Rightarrow> stream option" where
  "stream_new malloc mem sz =
     (if sz = 0 then None
      else case mem of
        None \<Rightarrow> None
      | Some s \<Rightarrow>
          (case misakamalloc malloc (ucast sz) of
             None \<Rightarrow> None
           | Some d \<Rightarrow> Some (s\<lparr>s_data := d, s_getp := 0, s_endp := 0, s_type := 0, s_mark := 0,
                               s_size := sz\<rparr>)))"

definition stream_copy :: "stream \<Rightarrow> stream \<Rightarrow> stream option" where
  "stream_copy new src = do {
     bs \<leftarrow> rd_seg (s_data src) 0 (s_endp src);
     d \<leftarrow> wr_seg (s_data new) 0 bs;
     Some (new\<lparr>s_endp := s_endp src, s_getp := s_getp src, s_data := d\<rparr>)
   }"

text \<open>The inner option is the NULL that \<open>stream_dup\<close> returns when \<open>stream_new\<close> fails.\<close>

definition stream_dup :: "allocator \<Rightarrow> stream option \<Rightarrow> stream \<Rightarrow> stream option option" where
  "stream_dup malloc mem s =
     (case stream_new malloc mem (s_endp s) of
        None \<Rightarrow> Some None
      | Some new \<Rightarrow> map_option Some (stream_copy new s))"

definition stream_resize :: "allocator \<Rightarrow> stream \<Rightarrow> size_t \<Rightarrow> size_t \<times> stream" where
  "stream_resize malloc s newsize =
     (case misakarealloc malloc (s_data s) (ucast newsize) of
        None \<Rightarrow> (s_size s, s)
      | Some newdata \<Rightarrow>
          let s1 = s\<lparr>s_data := newdata, s_size := newsize\<rparr>;
              s2 = (if s_endp s1 > s_size s1 then s1\<lparr>s_endp := s_size s1\<rparr> else s1);
              s3 = (if s_getp s2 > s_endp s2 then s2\<lparr>s_getp := s_endp s2\<rparr> else s2)
          in (s_size s3, s3))"

section \<open>Cursor operations\<close>

definition stream_get_getp :: "stream \<Rightarrow> size_t" where
  "stream_get_getp s = s_getp s"

definition stream_get_endp :: "stream \<Rightarrow> size_t" where
  "stream_get_endp s = s_endp s"

definition stream_get_size :: "stream \<Rightarrow> size_t" where
  "stream_get_size s = s_size s"

definition stream_set_getp :: "stream \<Rightarrow> size_t \<Rightarrow> stream" where
  "stream_set_getp s pos = s\<lparr>s_getp := (if \<not> GETP_VALID s pos then s_endp s else pos)\<rparr>"

definition stream_forward_getp :: "stream \<Rightarrow> size_t \<Rightarrow> stream" where
  "stream_forward_getp s sz =
     (if \<not> GETP_VALID s (s_getp s + sz) then s else s\<lparr>s_getp := s_getp s + sz\<rparr>)"

text \<open>\<open>stream_forward\<close> takes an \<open>int\<close>, which is sign-extended, and checks nothing.\<close>

definition stream_forward :: "stream \<Rightarrow> cint \<Rightarrow> stream" where
  "stream_forward s sz = s\<lparr>s_getp := s_getp s + scast sz\<rparr>"

definition stream_forward_endp :: "stream \<Rightarrow> size_t \<Rightarrow> stream" where
  "stream_forward_endp s sz =
     (if \<not> ENDP_VALID s (s_endp s + sz) then s else s\<lparr>s_endp := s_endp s + sz\<rparr>)"

text \<open>The expression \<open>s->data[s->getp++]\<close> and the statement \<open>s->data[s->endp++] = c\<close>.\<close>

definition next_byte :: "stream \<Rightarrow> (byte \<times> stream) option" where
  "next_byte s = do { c \<leftarrow> rd (s_data s) (s_getp s); Some (c, s\<lparr>s_getp := s_getp s + 1\<rparr>) }"

definition put_byte :: "byte \<Rightarrow> stream \<Rightarrow> stream option" where
  "put_byte c s = do { d \<leftarrow> wr (s_data s) (s_endp s) c; Some (s\<lparr>s_data := d, s_endp := s_endp s + 1\<rparr>) }"

section \<open>Getters\<close>

text \<open>\<open>stream_get\<close> leaves the destination alone when the stream is too short: the inner option.\<close>

definition stream_get :: "stream \<Rightarrow> size_t \<Rightarrow> (byte list option \<times> stream) option" where
  "stream_get s sz =
     (if STREAM_READABLE s < sz then Some (None, s)
      else do {
        bs \<leftarrow> rd_seg (s_data s) (s_getp s) sz;
        Some (Some bs, s\<lparr>s_getp := s_getp s + sz\<rparr>)
      })"

definition stream_getc :: "stream \<Rightarrow> (byte \<times> stream) option" where
  "stream_getc s = (if STREAM_READABLE s < 1 then Some (0, s) else next_byte s)"

definition stream_getc_from :: "stream \<Rightarrow> size_t \<Rightarrow> byte option" where
  "stream_getc_from s frm =
     (if \<not> GETP_VALID s (frm + 1) then Some 0 else rd (s_data s) frm)"

definition stream_getw :: "stream \<Rightarrow> (u16 \<times> stream) option" where
  "stream_getw s =
     (if STREAM_READABLE s < 2 then Some (0, s)
      else do { (a, s) \<leftarrow> next_byte s; (b, s) \<leftarrow> next_byte s; Some (be16 a b, s) })"

definition stream_getw_from :: "stream \<Rightarrow> size_t \<Rightarrow> u16 option" where
  "stream_getw_from s frm =
     (if \<not> GETP_VALID s (frm + 2) then Some 0
      else do { a \<leftarrow> rd (s_data s) frm; b \<leftarrow> rd (s_data s) (frm + 1); Some (be16 a b) })"

definition stream_getl_from :: "stream \<Rightarrow> size_t \<Rightarrow> u32 option" where
  "stream_getl_from s frm =
     (if \<not> GETP_VALID s (frm + 4) then Some 0
      else do {
        a \<leftarrow> rd (s_data s) frm; b \<leftarrow> rd (s_data s) (frm + 1);
        c \<leftarrow> rd (s_data s) (frm + 2); d \<leftarrow> rd (s_data s) (frm + 3);
        Some (be32 a b c d)
      })"

definition stream_getl :: "stream \<Rightarrow> (u32 \<times> stream) option" where
  "stream_getl s =
     (if STREAM_READABLE s < 4 then Some (0, s)
      else do {
        (a, s) \<leftarrow> next_byte s; (b, s) \<leftarrow> next_byte s;
        (c, s) \<leftarrow> next_byte s; (d, s) \<leftarrow> next_byte s;
        Some (be32 a b c d, s)
      })"

definition stream_getq_from :: "stream \<Rightarrow> size_t \<Rightarrow> u64 option" where
  "stream_getq_from s frm =
     (if \<not> GETP_VALID s (frm + 8) then Some 0
      else do {
        a \<leftarrow> rd (s_data s) frm; b \<leftarrow> rd (s_data s) (frm + 1);
        c \<leftarrow> rd (s_data s) (frm + 2); d \<leftarrow> rd (s_data s) (frm + 3);
        e \<leftarrow> rd (s_data s) (frm + 4); f \<leftarrow> rd (s_data s) (frm + 5);
        g \<leftarrow> rd (s_data s) (frm + 6); h \<leftarrow> rd (s_data s) (frm + 7);
        Some (be64 a b c d e f g h)
      })"

definition stream_getq :: "stream \<Rightarrow> (u64 \<times> stream) option" where
  "stream_getq s =
     (if STREAM_READABLE s < 8 then Some (0, s)
      else do {
        (a, s) \<leftarrow> next_byte s; (b, s) \<leftarrow> next_byte s;
        (c, s) \<leftarrow> next_byte s; (d, s) \<leftarrow> next_byte s;
        (e, s) \<leftarrow> next_byte s; (f, s) \<leftarrow> next_byte s;
        (g, s) \<leftarrow> next_byte s; (h, s) \<leftarrow> next_byte s;
        Some (be64 a b c d e f g h, s)
      })"

definition stream_get_ipv4 :: "stream \<Rightarrow> (u32 \<times> stream) option" where
  "stream_get_ipv4 s =
     (if STREAM_READABLE s < 4 then Some (0, s)
      else do {
        bs \<leftarrow> rd_seg (s_data s) (s_getp s) 4;
        Some (le32 bs, s\<lparr>s_getp := s_getp s + 4\<rparr>)
      })"

section \<open>Putters\<close>

text \<open>\<open>src\<close> is the source buffer, \<open>None\<close> for the null pointer that asks for zeroes.\<close>

definition stream_put :: "stream \<Rightarrow> byte list option \<Rightarrow> size_t \<Rightarrow> stream option" where
  "stream_put s src sz =
     (let n = CHECK_SIZE s sz in
      if STREAM_WRITEABLE s < n then Some s
      else do {
        bs \<leftarrow> (case src of Some b \<Rightarrow> rd_seg b 0 n | None \<Rightarrow> Some (replicate (unat n) 0));
        d \<leftarrow> wr_seg (s_data s) (s_endp s) bs;
        Some (s\<lparr>s_data := d, s_endp := s_endp s + n\<rparr>)
      })"

definition stream_putc :: "stream \<Rightarrow> byte \<Rightarrow> (int \<times> stream) option" where
  "stream_putc s c =
     (if STREAM_WRITEABLE s < 1 then Some (0, s)
      else do { s \<leftarrow> put_byte c s; Some (1, s) })"

definition stream_putw :: "stream \<Rightarrow> u16 \<Rightarrow> (int \<times> stream) option" where
  "stream_putw s w =
     (if STREAM_WRITEABLE s < 2 then Some (0, s)
      else do {
        s \<leftarrow> put_byte (ucast (drop_bit 8 w)) s;
        s \<leftarrow> put_byte (ucast w) s;
        Some (2, s)
      })"

definition stream_putl :: "stream \<Rightarrow> u32 \<Rightarrow> (int \<times> stream) option" where
  "stream_putl s l =
     (if STREAM_WRITEABLE s < 4 then Some (0, s)
      else do {
        s \<leftarrow> put_byte (ucast (drop_bit 24 l)) s;
        s \<leftarrow> put_byte (ucast (drop_bit 16 l)) s;
        s \<leftarrow> put_byte (ucast (drop_bit 8 l)) s;
        s \<leftarrow> put_byte (ucast l) s;
        Some (4, s)
      })"

definition stream_putq :: "stream \<Rightarrow> u64 \<Rightarrow> (int \<times> stream) option" where
  "stream_putq s q =
     (if STREAM_WRITEABLE s < 8 then Some (0, s)
      else do {
        s \<leftarrow> put_byte (ucast (drop_bit 56 q)) s;
        s \<leftarrow> put_byte (ucast (drop_bit 48 q)) s;
        s \<leftarrow> put_byte (ucast (drop_bit 40 q)) s;
        s \<leftarrow> put_byte (ucast (drop_bit 32 q)) s;
        s \<leftarrow> put_byte (ucast (drop_bit 24 q)) s;
        s \<leftarrow> put_byte (ucast (drop_bit 16 q)) s;
        s \<leftarrow> put_byte (ucast (drop_bit 8 q)) s;
        s \<leftarrow> put_byte (ucast q) s;
        Some (8, s)
      })"

definition stream_putc_at :: "stream \<Rightarrow> size_t \<Rightarrow> byte \<Rightarrow> (int \<times> stream) option" where
  "stream_putc_at s putp c =
     (if \<not> PUT_AT_VALID s (putp + 1) then Some (0, s)
      else do { d \<leftarrow> wr (s_data s) putp c; Some (1, s\<lparr>s_data := d\<rparr>) })"

definition stream_putw_at :: "stream \<Rightarrow> size_t \<Rightarrow> u16 \<Rightarrow> (int \<times> stream) option" where
  "stream_putw_at s putp w =
     (if \<not> PUT_AT_VALID s (putp + 2) then Some (0, s)
      else do {
        d \<leftarrow> wr (s_data s) putp (ucast (drop_bit 8 w));
        d \<leftarrow> wr d (putp + 1) (ucast w);
        Some (2, s\<lparr>s_data := d\<rparr>)
      })"

definition stream_putl_at :: "stream \<Rightarrow> size_t \<Rightarrow> u32 \<Rightarrow> (int \<times> stream) option" where
  "stream_putl_at s putp l =
     (if \<not> PUT_AT_VALID s (putp + 4) then Some (0, s)
      else do {
        d \<leftarrow> wr (s_data s) putp (ucast (drop_bit 24 l));
        d \<leftarrow> wr d (putp + 1) (ucast (drop_bit 16 l));
        d \<leftarrow> wr d (putp + 2) (ucast (drop_bit 8 l));
        d \<leftarrow> wr d (putp + 3) (ucast l);
        Some (4, s\<lparr>s_data := d\<rparr>)
      })"

definition stream_putq_at :: "stream \<Rightarrow> size_t \<Rightarrow> u64 \<Rightarrow> (int \<times> stream) option" where
  "stream_putq_at s putp q =
     (if \<not> PUT_AT_VALID s (putp + 8) then Some (0, s)
      else do {
        d \<leftarrow> wr (s_data s) putp (ucast (drop_bit 56 q));
        d \<leftarrow> wr d (putp + 1) (ucast (drop_bit 48 q));
        d \<leftarrow> wr d (putp + 2) (ucast (drop_bit 40 q));
        d \<leftarrow> wr d (putp + 3) (ucast (drop_bit 32 q));
        d \<leftarrow> wr d (putp + 4) (ucast (drop_bit 24 q));
        d \<leftarrow> wr d (putp + 5) (ucast (drop_bit 16 q));
        d \<leftarrow> wr d (putp + 6) (ucast (drop_bit 8 q));
        d \<leftarrow> wr d (putp + 7) (ucast q);
        Some (8, s\<lparr>s_data := d\<rparr>)
      })"

definition stream_put_ipv4 :: "stream \<Rightarrow> u32 \<Rightarrow> (int \<times> stream) option" where
  "stream_put_ipv4 s l =
     (if STREAM_WRITEABLE s < 4 then Some (0, s)
      else do {
        d \<leftarrow> wr_seg (s_data s) (s_endp s) (le32_bytes l);
        Some (4, s\<lparr>s_data := d, s_endp := s_endp s + 4\<rparr>)
      })"

text \<open>A \<open>struct in_addr\<close> is the four bytes of its \<open>s_addr\<close>.\<close>

definition stream_put_in_addr :: "stream \<Rightarrow> u32 \<Rightarrow> (int \<times> stream) option" where
  "stream_put_in_addr s addr =
     (if STREAM_WRITEABLE s < 4 then Some (0, s)
      else do {
        d \<leftarrow> wr_seg (s_data s) (s_endp s) (le32_bytes addr);
        Some (4, s\<lparr>s_data := d, s_endp := s_endp s + 4\<rparr>)
      })"

text \<open>The outer option of \<open>stream_write\<close> is undefined behaviour; it returns the size written.\<close>

definition stream_write :: "stream \<Rightarrow> byte list \<Rightarrow> size_t \<Rightarrow> (size_t \<times> stream) option" where
  "stream_write s ptr sz =
     (let n = CHECK_SIZE s sz in
      if STREAM_WRITEABLE s < n then Some (0, s)
      else do {
        bs \<leftarrow> rd_seg ptr 0 n;
        d \<leftarrow> wr_seg (s_data s) (s_endp s) bs;
        Some (n, s\<lparr>s_data := d, s_endp := s_endp s + n\<rparr>)
      })"

section \<open>Input and output\<close>

text \<open>Storing the bytes of a read at \<open>endp\<close>; the cursor moves when the call succeeded.\<close>

definition stream_store :: "stream \<Rightarrow> byte list \<Rightarrow> stream option" where
  "stream_store s bs = do {
     d \<leftarrow> wr_seg (s_data s) (s_endp s) bs;
     Some (s\<lparr>s_data := d\<rparr>)
   }"

definition stream_read :: "stream \<Rightarrow> size_t \<Rightarrow> sysread list \<Rightarrow> (int \<times> stream \<times> sysread list) option" where
  "stream_read s sz rs =
     (if STREAM_WRITEABLE s < sz then Some (0, s, rs)
      else do {
        (nbytes, bs, rs') \<leftarrow> readn (sint (ucast sz :: cint)) rs;
        s \<leftarrow> stream_store s bs;
        Some (nbytes, if nbytes > 0 then s\<lparr>s_endp := s_endp s + of_int nbytes\<rparr> else s, rs')
      })"

text \<open>\<open>flags\<close> are the descriptor flags; they are restored after the read.\<close>

definition stream_read_unblock ::
  "stream \<Rightarrow> size_t \<Rightarrow> u32 \<Rightarrow> sysread \<Rightarrow> (int \<times> stream \<times> u32) option" where
  "stream_read_unblock s sz flags r =
     (if STREAM_WRITEABLE s < sz then Some (0, s, flags)
      else let val = flags in
        case r of
          Fail e \<Rightarrow> Some (-1, s, val)
        | Got bs \<Rightarrow> do {
            s \<leftarrow> stream_store s bs;
            Some (int (length bs),
                  if bs \<noteq> [] then s\<lparr>s_endp := s_endp s + of_nat (length bs)\<rparr> else s, val)
          })"

definition stream_read_try :: "stream \<Rightarrow> size_t \<Rightarrow> sysread \<Rightarrow> (int \<times> stream) option" where
  "stream_read_try s sz r =
     (if STREAM_WRITEABLE s < sz then Some (-1, s)
      else case r of
          Got bs \<Rightarrow> do {
            s \<leftarrow> stream_store s bs;
            Some (int (length bs), s\<lparr>s_endp := s_endp s + of_nat (length bs)\<rparr>)
          }
        | Fail e \<Rightarrow> (if ERRNO_IO_RETRY e then Some (-2, s) else Some (-1, s)))"

definition stream_recvfrom :: "stream \<Rightarrow> size_t \<Rightarrow> sysread \<Rightarrow> (int \<times> stream) option" where
  "stream_recvfrom s sz r =
     (if STREAM_WRITEABLE s < sz then Some (-1, s)
      else case r of
          Got bs \<Rightarrow> do {
            s \<leftarrow> stream_store s bs;
            Some (int (length bs), s\<lparr>s_endp := s_endp s + of_nat (length bs)\<rparr>)
          }
        | Fail e \<Rightarrow> (if ERRNO_IO_RETRY e then Some (-2, s) else Some (-1, s)))"

definition stream_recvmsg :: "stream \<Rightarrow> size_t \<Rightarrow> sysread \<Rightarrow> (int \<times> stream) option" where
  "stream_recvmsg s sz r =
     (if STREAM_WRITEABLE s < sz then Some (-1, s)
      else case r of
          Got bs \<Rightarrow> do {
            s \<leftarrow> stream_store s bs;
            Some (int (length bs),
                  if bs \<noteq> [] then s\<lparr>s_endp := s_endp s + of_nat (length bs)\<rparr> else s)
          }
        | Fail e \<Rightarrow> Some (-1, s))"

text \<open>\<open>stream_pnt\<close> is the segment from the read cursor on; \<open>None\<close> for a cursor beyond the segment.\<close>

definition stream_pnt :: "stream \<Rightarrow> byte list option" where
  "stream_pnt s =
     (if unat (s_getp s) \<le> length (s_data s) then Some (drop (unat (s_getp s)) (s_data s)) else None)"

definition stream_empty :: "stream \<Rightarrow> bool" where
  "stream_empty s \<longleftrightarrow> s_endp s = 0"

definition stream_reset :: "stream \<Rightarrow> stream" where
  "stream_reset s = s\<lparr>s_getp := 0, s_endp := 0\<rparr>"

text \<open>\<open>stream_flush\<close> hands the unread bytes to \<open>write\<close> and returns its answer.\<close>

definition stream_flush :: "stream \<Rightarrow> syswrite \<Rightarrow> (int \<times> byte list) option" where
  "stream_flush s w = do {
     bs \<leftarrow> rd_seg (s_data s) (s_getp s) (s_endp s - s_getp s);
     Some (case w of Wrote k \<Rightarrow> (int k, take k bs) | WFail e \<Rightarrow> (-1, []))
   }"

section \<open>Cloning and colouring one packet\<close>

definition stream_color_one :: "stream \<Rightarrow> stream \<Rightarrow> stream" where
  "stream_color_one to frm =
     to\<lparr>s_type := s_type frm, s_src := s_src frm, s_dst := s_dst frm, s_mark := s_mark frm,
        s_su := s_su frm, s_dsu := s_dsu frm, s_stype := s_stype frm\<rparr>"

text \<open>The inner option is the NULL returned when the allocation fails.\<close>

definition stream_clone_one :: "allocator \<Rightarrow> stream option \<Rightarrow> stream \<Rightarrow> stream option option" where
  "stream_clone_one malloc mem frm =
     (case stream_new malloc mem MISAKA_MAX_PACKET_SIZE of
        None \<Rightarrow> Some None
      | Some to \<Rightarrow> do {
          p \<leftarrow> stream_pnt frm;
          to \<leftarrow> stream_put (stream_color_one to frm) (Some p) (stream_get_endp frm - stream_get_getp frm);
          Some (Some to)
        })"

definition stream_dir_exchange :: "stream \<Rightarrow> stream" where
  "stream_dir_exchange s =
     s\<lparr>s_src := s_dst s, s_dst := s_src s, s_su := s_dsu s, s_dsu := s_su s\<rparr>"

text \<open>The copying loop of \<open>reverse_stream\<close>: \<open>*to-- = *from--\<close>, \<open>n\<close> times. The cursors are offsets into
  the data segment.\<close>

fun reverse_loop :: "nat \<Rightarrow> size_t \<Rightarrow> size_t \<Rightarrow> byte list \<Rightarrow> byte list option" where
  "reverse_loop 0 to frm d = Some d"
| "reverse_loop (Suc n) to frm d = do {
     c \<leftarrow> rd d frm;
     d \<leftarrow> wr d to c;
     reverse_loop n (to - 1) (frm - 1) d
   }"

definition reverse_stream :: "stream \<Rightarrow> cint \<Rightarrow> stream option" where
  "reverse_stream s sz = do {
     s \<leftarrow> stream_put s (Some (replicate MISAKA_HEADER_SIZE 0)) (scast sz);
     let frm = s_getp s + stream_get_endp s;
     let to = frm + scast sz + stream_get_endp s;
     d \<leftarrow> reverse_loop (nat (sint sz)) to frm (s_data s);
     Some (s\<lparr>s_data := d\<rparr>)
   }"

section \<open>The byte-queue view\<close>

text \<open>The representation invariant: sane cursors over a segment of the recorded size.\<close>

definition stream_wf :: "stream \<Rightarrow> bool" where
  "stream_wf s \<longleftrightarrow> STREAM_SANE s \<and> length (s_data s) = unat (s_size s)"

definition contents :: "stream \<Rightarrow> byte list" where
  "contents s = take (unat (s_endp s) - unat (s_getp s)) (drop (unat (s_getp s)) (s_data s))"

definition room :: "stream \<Rightarrow> nat" where
  "room s = unat (s_size s) - unat (s_endp s)"

definition adv :: "nat \<Rightarrow> stream \<Rightarrow> stream" where
  "adv n s = s\<lparr>s_getp := s_getp s + of_nat n\<rparr>"

definition app :: "byte list \<Rightarrow> stream \<Rightarrow> stream" where
  "app bs s = s\<lparr>s_data := seg_upd (s_data s) (unat (s_endp s)) bs,
                s_endp := s_endp s + of_nat (length bs)\<rparr>"

lemma stream_wf_iff:
  "stream_wf s \<longleftrightarrow>
     unat (s_getp s) \<le> unat (s_endp s) \<and> unat (s_endp s) \<le> length (s_data s) \<and>
     length (s_data s) = unat (s_size s)"
  by (auto simp: stream_wf_def STREAM_SANE_def GETP_VALID_def ENDP_VALID_def word_le_nat_alt)

lemma stream_wf_bounds:
  assumes "stream_wf s"
  shows "unat (s_getp s) \<le> unat (s_endp s)" "unat (s_endp s) \<le> length (s_data s)"
    "length (s_data s) = unat (s_size s)" "length (s_data s) < 18446744073709551616"
  using assms unat_size_bound [of "s_size s"] by (auto simp: stream_wf_iff)

lemma length_contents: "stream_wf s \<Longrightarrow> length (contents s) = unat (s_endp s) - unat (s_getp s)"
  by (auto simp: contents_def stream_wf_iff)

lemma unat_READABLE: "stream_wf s \<Longrightarrow> unat (STREAM_READABLE s) = length (contents s)"
  by (auto simp: length_contents STREAM_READABLE_def stream_wf_iff unat_sub word_le_nat_alt)

lemma unat_WRITEABLE: "stream_wf s \<Longrightarrow> unat (STREAM_WRITEABLE s) = room s"
  by (auto simp: room_def STREAM_WRITEABLE_def stream_wf_iff unat_sub word_le_nat_alt)

lemma unat_getp_adv:
  "stream_wf s \<Longrightarrow> n \<le> length (contents s) \<Longrightarrow> unat (s_getp s + of_nat n) = unat (s_getp s) + n"
  using stream_wf_bounds [of s] by (simp add: length_contents unat_add_of_nat)

lemma unat_endp_app:
  "stream_wf s \<Longrightarrow> n \<le> room s \<Longrightarrow> unat (s_endp s + of_nat n) = unat (s_endp s) + n"
  using stream_wf_bounds [of s] by (simp add: room_def unat_add_of_nat)

lemma adv_wf: "stream_wf s \<Longrightarrow> n \<le> length (contents s) \<Longrightarrow> stream_wf (adv n s)"
  using unat_getp_adv [of s n] by (auto simp: adv_def stream_wf_iff length_contents)

lemma contents_adv:
  "stream_wf s \<Longrightarrow> n \<le> length (contents s) \<Longrightarrow> contents (adv n s) = drop n (contents s)"
  using unat_getp_adv [of s n] by (simp add: adv_def contents_def drop_take add.commute)

lemma room_adv [simp]: "room (adv n s) = room s"
  by (simp add: room_def adv_def)

lemma adv_0 [simp]: "adv 0 s = s"
  by (simp add: adv_def)

lemma adv_adv: "adv m (adv n s) = adv (n + m) s"
  by (simp add: adv_def add.assoc)

lemma app_wf: "stream_wf s \<Longrightarrow> length bs \<le> room s \<Longrightarrow> stream_wf (app bs s)"
  using unat_endp_app [of s "length bs"] by (auto simp: app_def stream_wf_iff room_def)

lemma room_app: "stream_wf s \<Longrightarrow> length bs \<le> room s \<Longrightarrow> room (app bs s) = room s - length bs"
  using unat_endp_app [of s "length bs"] by (auto simp: app_def room_def)

lemma contents_app:
  assumes wf: "stream_wf s" and fits: "length bs \<le> room s"
  shows "contents (app bs s) = contents s @ bs"
proof -
  let ?e = "unat (s_endp s)" and ?g = "unat (s_getp s)"
  have e: "?e + length bs \<le> length (s_data s)" and g: "?g \<le> ?e"
    using wf fits by (auto simp: stream_wf_iff room_def)
  have "take (?e + length bs - ?g) (drop ?g (seg_upd (s_data s) ?e bs)) =
        drop ?g (take (?e + length bs) (seg_upd (s_data s) ?e bs))"
    by (simp add: drop_take)
  also have "\<dots> = drop ?g (take ?e (s_data s) @ bs)"
    using e by (simp add: take_seg_upd_end)
  also have "\<dots> = take (?e - ?g) (drop ?g (s_data s)) @ bs"
    using e g by (simp add: drop_take)
  finally show ?thesis
    using unat_endp_app [OF wf fits] by (simp add: contents_def app_def)
qed

lemma app_Nil [simp]: "app [] s = s"
  by (simp add: app_def)

lemma app_append:
  "stream_wf s \<Longrightarrow> length xs + length ys \<le> room s \<Longrightarrow> app ys (app xs s) = app (xs @ ys) s"
  using unat_endp_app [of s "length xs"] stream_wf_bounds [of s]
    seg_upd_append [of "unat (s_endp s)" xs ys "s_data s"]
  by (simp add: app_def room_def add.assoc)

lemmas view_simps = contents_adv contents_app room_app adv_wf app_wf

lemma next_byte_eq:
  assumes "stream_wf s" "contents s = c # cs"
  shows "next_byte s = Some (c, adv 1 s)"
proof -
  have lt: "unat (s_getp s) < unat (s_endp s)"
    using length_contents [of s] assms by simp
  have "contents s ! 0 = s_data s ! unat (s_getp s)"
    using lt assms(1) by (simp add: contents_def stream_wf_iff)
  with lt assms show ?thesis
    using stream_wf_bounds [of s] by (simp add: next_byte_def adv_def rd_Some)
qed

lemma put_byte_eq:
  "stream_wf s \<Longrightarrow> 0 < room s \<Longrightarrow> put_byte c s = Some (app [c] s)"
  by (simp add: put_byte_def app_def wr_Some seg_upd_single stream_wf_iff room_def)

section \<open>Moving several bytes\<close>

fun get_all :: "('s \<Rightarrow> (byte \<times> 's) option) \<Rightarrow> nat \<Rightarrow> 's \<Rightarrow> (byte list \<times> 's) option" where
  "get_all g 0 s = Some ([], s)"
| "get_all g (Suc n) s = do { (c, s) \<leftarrow> g s; (cs, s) \<leftarrow> get_all g n s; Some (c # cs, s) }"

lemma get_all_numeral [simp]:
  "get_all g (numeral v) s =
     do { (c, s) \<leftarrow> g s; (cs, s) \<leftarrow> get_all g (pred_numeral v) s; Some (c # cs, s) }"
  by (simp add: numeral_eq_Suc)

fun put_all :: "(byte \<Rightarrow> 's \<Rightarrow> 's option) \<Rightarrow> byte list \<Rightarrow> 's \<Rightarrow> 's option" where
  "put_all p [] s = Some s"
| "put_all p (c # cs) s = do { s \<leftarrow> p c s; put_all p cs s }"

text \<open>The contract of a byte queue with single-byte access, and what it gives for runs of
  bytes. The multi-byte accessors of the stream are such runs.\<close>

locale byte_queue =
  fixes get1 :: "'s \<Rightarrow> (byte \<times> 's) option"
    and put1 :: "byte \<Rightarrow> 's \<Rightarrow> 's option"
    and view :: "'s \<Rightarrow> byte list"
    and free :: "'s \<Rightarrow> nat"
    and ok :: "'s \<Rightarrow> bool"
    and consume :: "nat \<Rightarrow> 's \<Rightarrow> 's"
    and append :: "byte list \<Rightarrow> 's \<Rightarrow> 's"
  assumes get1_law: "ok s \<Longrightarrow> view s = c # cs \<Longrightarrow> get1 s = Some (c, consume 1 s)"
    and put1_law: "ok s \<Longrightarrow> 0 < free s \<Longrightarrow> put1 c s = Some (append [c] s)"
    and consume_ok: "ok s \<Longrightarrow> n \<le> length (view s) \<Longrightarrow> ok (consume n s)"
    and consume_view: "ok s \<Longrightarrow> n \<le> length (view s) \<Longrightarrow> view (consume n s) = drop n (view s)"
    and consume_0: "consume 0 s = s"
    and consume_consume: "consume m (consume n s) = consume (n + m) s"
    and append_ok: "ok s \<Longrightarrow> length bs \<le> free s \<Longrightarrow> ok (append bs s)"
    and append_free: "ok s \<Longrightarrow> length bs \<le> free s \<Longrightarrow> free (append bs s) = free s - length bs"
    and append_Nil: "append [] s = s"
    and append_append: "ok s \<Longrightarrow> length xs + length ys \<le> free s \<Longrightarrow>
           append ys (append xs s) = append (xs @ ys) s"
begin

lemma get_all_eq:
  "ok s \<Longrightarrow> n \<le> length (view s) \<Longrightarrow> get_all get1 n s = Some (take n (view s), consume n s)"
proof (induction n arbitrary: s)
  case 0
  then show ?case by (simp add: consume_0)
next
  case (Suc n)
  then obtain c cs where v: "view s = c # cs"
    by (cases "view s") auto
  have "get_all get1 n (consume 1 s) = Some (take n cs, consume n (consume 1 s))"
    using Suc v consume_ok [of s 1] consume_view [of s 1] by simp
  then show ?case
    using get1_law [OF Suc.prems(1) v] v by (simp add: consume_consume)
qed

lemma put_all_eq:
  "ok s \<Longrightarrow> length bs \<le> free s \<Longrightarrow> put_all put1 bs s = Some (append bs s)"
proof (induction bs arbitrary: s)
  case Nil
  then show ?case by (simp add: append_Nil)
next
  case (Cons c cs)
  then have "put_all put1 cs (append [c] s) = Some (append cs (append [c] s))"
    using append_ok [of s "[c]"] append_free [of s "[c]"] by simp
  then show ?case
    using Cons.prems put1_law [of s c] append_append [of s "[c]" cs] by simp
qed

end

interpretation bq: byte_queue next_byte put_byte contents room stream_wf adv app
  by unfold_locales (simp_all add: next_byte_eq put_byte_eq view_simps adv_adv app_append)

lemma READABLE_less:
  "stream_wf s \<Longrightarrow> STREAM_READABLE s < n \<longleftrightarrow> length (contents s) < unat n"
  by (simp add: word_less_nat_alt unat_READABLE)

lemma WRITEABLE_less: "stream_wf s \<Longrightarrow> STREAM_WRITEABLE s < n \<longleftrightarrow> room s < unat n"
  by (simp add: word_less_nat_alt unat_WRITEABLE)

section \<open>Getters and putters as steps of the byte queue\<close>

lemma stream_getc_eq:
  "stream_wf s \<Longrightarrow> contents s = a # cs \<Longrightarrow> stream_getc s = Some (a, adv 1 s)"
  using READABLE_less [of s 1] by (simp add: stream_getc_def next_byte_eq)

lemma stream_getw_eq:
  "stream_wf s \<Longrightarrow> contents s = a # b # cs \<Longrightarrow> stream_getw s = Some (be16 a b, adv 2 s)"
  using bq.get_all_eq [of s 2]
  by (auto simp: stream_getw_def READABLE_less split: Option.bind_splits)

lemma stream_getl_eq:
  "stream_wf s \<Longrightarrow> contents s = a # b # c # d # cs \<Longrightarrow>
     stream_getl s = Some (be32 a b c d, adv 4 s)"
  using bq.get_all_eq [of s 4]
  by (auto simp: stream_getl_def READABLE_less split: Option.bind_splits)

lemma stream_getq_eq:
  "stream_wf s \<Longrightarrow> contents s = a # b # c # d # e # f # g # h # cs \<Longrightarrow>
     stream_getq s = Some (be64 a b c d e f g h, adv 8 s)"
  using bq.get_all_eq [of s 8]
  by (auto simp: stream_getq_def READABLE_less split: Option.bind_splits)

lemma stream_putc_eq:
  "stream_wf s \<Longrightarrow> 1 \<le> room s \<Longrightarrow> stream_putc s c = Some (1, app [c] s)"
  using WRITEABLE_less [of s 1] by (auto simp: stream_putc_def put_byte_eq)

lemma stream_putw_eq:
  "stream_wf s \<Longrightarrow> 2 \<le> room s \<Longrightarrow> stream_putw s w = Some (2, app (be16_bytes w) s)"
  using bq.put_all_eq [of s "be16_bytes w"]
  by (auto simp: stream_putw_def WRITEABLE_less be16_bytes_def split: Option.bind_splits)

lemma stream_putl_eq:
  "stream_wf s \<Longrightarrow> 4 \<le> room s \<Longrightarrow> stream_putl s l = Some (4, app (be32_bytes l) s)"
  using bq.put_all_eq [of s "be32_bytes l"]
  by (auto simp: stream_putl_def WRITEABLE_less be32_bytes_def split: Option.bind_splits)

lemma stream_putq_eq:
  "stream_wf s \<Longrightarrow> 8 \<le> room s \<Longrightarrow> stream_putq s q = Some (8, app (be64_bytes q) s)"
  using bq.put_all_eq [of s "be64_bytes q"]
  by (auto simp: stream_putq_def WRITEABLE_less be64_bytes_def split: Option.bind_splits)

section \<open>Short streams: the bounds-check branches\<close>

lemma getters_short:
  assumes "stream_wf s"
  shows "contents s = [] \<Longrightarrow> stream_getc s = Some (0, s)"
    and "length (contents s) < 2 \<Longrightarrow> stream_getw s = Some (0, s)"
    and "length (contents s) < 4 \<Longrightarrow> stream_getl s = Some (0, s)"
    and "length (contents s) < 8 \<Longrightarrow> stream_getq s = Some (0, s)"
    and "length (contents s) < 4 \<Longrightarrow> stream_get_ipv4 s = Some (0, s)"
    and "length (contents s) < unat n \<Longrightarrow> stream_get s n = Some (None, s)"
  using assms READABLE_less [of s 1]
  by (simp_all add: stream_getc_def stream_getw_def stream_getl_def stream_getq_def
      stream_get_ipv4_def stream_get_def READABLE_less)

lemma putters_full:
  assumes "stream_wf s"
  shows "room s = 0 \<Longrightarrow> stream_putc s c = Some (0, s)"
    and "room s < 2 \<Longrightarrow> stream_putw s w = Some (0, s)"
    and "room s < 4 \<Longrightarrow> stream_putl s l = Some (0, s)"
    and "room s < 8 \<Longrightarrow> stream_putq s q = Some (0, s)"
    and "room s < 4 \<Longrightarrow> stream_put_ipv4 s l = Some (0, s)"
    and "room s < 4 \<Longrightarrow> stream_put_in_addr s l = Some (0, s)"
  using assms WRITEABLE_less [of s 1]
  by (simp_all add: stream_putc_def stream_putw_def stream_putl_def stream_putq_def
      stream_put_ipv4_def stream_put_in_addr_def WRITEABLE_less)

lemma stream_get_eq:
  assumes "stream_wf s" "unat n \<le> length (contents s)"
  shows "stream_get s n = Some (Some (take (unat n) (contents s)), adv (unat n) s)"
proof -
  have "unat (s_getp s) + unat n \<le> unat (s_endp s)"
    using assms stream_wf_bounds [OF assms(1)] by (simp add: length_contents)
  with assms show ?thesis
    using stream_wf_bounds [of s]
    by (simp add: stream_get_def READABLE_less rd_seg_Some contents_def adv_def min_def)
qed

lemma CHECK_SIZE_fits:
  "stream_wf s \<Longrightarrow> unat z \<le> room s \<Longrightarrow> CHECK_SIZE s z = z"
  using stream_wf_bounds [of s]
  by (auto simp: CHECK_SIZE_def word_less_nat_alt unat_add_size room_def)

lemma CHECK_SIZE_truncates:
  assumes "stream_wf s" "room s < unat z" "unat (s_endp s) + unat z < 18446744073709551616"
  shows "CHECK_SIZE s z = s_size s - s_endp s"
  using assms stream_wf_bounds [of s]
  by (auto simp: CHECK_SIZE_def word_less_nat_alt unat_add_size room_def)

text \<open>A size so large that \<open>endp + size\<close> wraps around is not truncated; the next check refuses it.\<close>

lemma CHECK_SIZE_wraps:
  assumes "stream_wf s" "18446744073709551616 \<le> unat (s_endp s) + unat z"
  shows "CHECK_SIZE s z = z" and "STREAM_WRITEABLE s < z"
proof -
  have b: "unat (s_endp s) \<le> unat (s_size s)" "unat (s_size s) < 18446744073709551616"
    "unat z < 18446744073709551616"
    using stream_wf_bounds [OF assms(1)] unat_size_bound [of z] unat_size_bound [of "s_size s"]
    by simp_all
  then have "unat (s_endp s + z) = unat (s_endp s) + unat z - 18446744073709551616"
    using assms(2) by (simp add: unat_plus_if')
  then show "CHECK_SIZE s z = z"
    using b by (auto simp: CHECK_SIZE_def word_less_nat_alt)
  show "STREAM_WRITEABLE s < z"
    using assms b by (simp add: WRITEABLE_less room_def)
qed

lemma stream_put_eq:
  assumes wf: "stream_wf s" and src: "unat z \<le> length b"
    and nowrap: "unat (s_endp s) + unat z < 18446744073709551616"
  shows "stream_put s (Some b) z = Some (app (take (min (unat z) (room s)) b) s)"
proof -
  have w: "unat (s_size s - s_endp s) = room s"
    using unat_WRITEABLE [OF wf] by (simp add: STREAM_WRITEABLE_def)
  have n: "unat (CHECK_SIZE s z) = min (unat z) (room s)"
    using CHECK_SIZE_fits [OF wf, of z] CHECK_SIZE_truncates [OF wf _ nowrap] w
    by (cases "unat z \<le> room s") auto
  have e: "unat (s_endp s) + min (unat z) (room s) \<le> length (s_data s)"
    using stream_wf_bounds [OF wf] by (simp add: room_def)
  have "word_of_nat (min (unat z) (room s)) = CHECK_SIZE s z"
    by (metis n of_nat_unat ucast_id)
  moreover have "\<not> STREAM_WRITEABLE s < CHECK_SIZE s z"
    using wf n by (simp add: WRITEABLE_less)
  moreover have "rd_seg b 0 (CHECK_SIZE s z) = Some (take (min (unat z) (room s)) b)"
    using src n by (simp add: rd_seg_def)
  ultimately show ?thesis
    using e src by (simp add: stream_put_def Let_def wr_seg_Some app_def)
qed

text \<open>A stream made by \<open>stream_new\<close> is well formed and empty.\<close>

lemma stream_new_wf:
  assumes "stream_new malloc mem sz = Some s" "malloc_ok malloc" "unat sz \<le> 2147483647"
  shows "stream_wf s \<and> contents s = [] \<and> room s = unat sz"
  using assms misakamalloc_length [OF assms(2,3)]
  by (auto simp: stream_new_def stream_wf_iff contents_def room_def split: if_splits option.splits)

lemma stream_pnt_eq: "stream_wf s \<Longrightarrow> stream_pnt s = Some (drop (unat (s_getp s)) (s_data s))"
  using stream_wf_bounds [of s] by (simp add: stream_pnt_def)

section \<open>Positioned access\<close>

fun wr_all :: "byte list \<Rightarrow> size_t \<Rightarrow> byte list \<Rightarrow> byte list option" where
  "wr_all d i [] = Some d"
| "wr_all d i (c # cs) = do { d \<leftarrow> wr d i c; wr_all d (i + 1) cs }"

lemma wr_all_eq:
  "unat i + length cs \<le> length d \<Longrightarrow> length d < 18446744073709551616 \<Longrightarrow>
     wr_all d i cs = Some (seg_upd d (unat i) cs)"
proof (induction cs arbitrary: d i)
  case Nil
  then show ?case by simp
next
  case (Cons c cs)
  have i: "unat (i + 1) = unat i + 1"
    using Cons.prems unat_add_size [of i 1] by simp
  have "wr_all (d[unat i := c]) (i + 1) cs = Some (seg_upd (d[unat i := c]) (unat i + 1) cs)"
    using Cons i by simp
  moreover have "seg_upd (d[unat i := c]) (unat i + 1) cs = seg_upd d (unat i) (c # cs)"
    using Cons.prems seg_upd_append [of "unat i" "[c]" cs d] by (simp add: seg_upd_single)
  ultimately show ?case
    using Cons.prems by (simp add: wr_Some)
qed

lemma GETP_VALID_sum:
  "unat p + n < 18446744073709551616 \<Longrightarrow> n < 18446744073709551616 \<Longrightarrow>
     GETP_VALID s (p + of_nat n) \<longleftrightarrow> unat p + n \<le> unat (s_endp s)"
  by (simp add: GETP_VALID_def word_le_nat_alt unat_add_of_nat)

lemma putl_at_steps:
  "stream_putl_at s p l =
     (if \<not> GETP_VALID s (p + 4) then Some (0, s)
      else do { d \<leftarrow> wr_all (s_data s) p (be32_bytes l); Some (4, s\<lparr>s_data := d\<rparr>) })"
  by (simp add: stream_putl_at_def PUT_AT_VALID_def be32_bytes_def add.assoc
      split: Option.bind_splits)

lemma putq_at_steps:
  "stream_putq_at s p q =
     (if \<not> GETP_VALID s (p + 8) then Some (0, s)
      else do { d \<leftarrow> wr_all (s_data s) p (be64_bytes q); Some (8, s\<lparr>s_data := d\<rparr>) })"
  by (simp add: stream_putq_at_def PUT_AT_VALID_def be64_bytes_def add.assoc
      split: Option.bind_splits)

lemma putw_at_steps:
  "stream_putw_at s p w =
     (if \<not> GETP_VALID s (p + 2) then Some (0, s)
      else do { d \<leftarrow> wr_all (s_data s) p (be16_bytes w); Some (2, s\<lparr>s_data := d\<rparr>) })"
  by (simp add: stream_putw_at_def PUT_AT_VALID_def be16_bytes_def split: Option.bind_splits)

lemma putc_at_steps:
  "stream_putc_at s p c =
     (if \<not> GETP_VALID s (p + 1) then Some (0, s)
      else do { d \<leftarrow> wr_all (s_data s) p [c]; Some (1, s\<lparr>s_data := d\<rparr>) })"
  by (simp add: stream_putc_at_def PUT_AT_VALID_def)

lemma wr_all_at:
  assumes "stream_wf s" "unat p + length cs \<le> unat (s_endp s)"
  shows "wr_all (s_data s) p cs = Some (seg_upd (s_data s) (unat p) cs)"
  using assms stream_wf_bounds [of s] by (simp add: wr_all_eq)

lemma data_upd_wf:
  "stream_wf s \<Longrightarrow> i + length cs \<le> unat (s_endp s) \<Longrightarrow>
     stream_wf (s\<lparr>s_data := seg_upd (s_data s) i cs\<rparr>)"
  by (auto simp: stream_wf_iff)

lemma stream_putl_at_eq:
  assumes wf: "stream_wf s" and p: "unat p + 4 \<le> unat (s_endp s)"
  shows "stream_putl_at s p l = Some (4, s\<lparr>s_data := seg_upd (s_data s) (unat p) (be32_bytes l)\<rparr>)"
proof -
  have "GETP_VALID s (p + 4)"
    using p GETP_VALID_sum [of p 4 s] unat_size_bound [of "s_endp s"] by simp
  then show ?thesis
    using wr_all_at [OF wf, of p "be32_bytes l"] p by (simp add: putl_at_steps)
qed

lemma rd_at:
  "stream_wf s \<Longrightarrow> unat p + n < unat (s_endp s) \<Longrightarrow>
     rd (s_data s) (p + of_nat n) = Some (s_data s ! (unat p + n))"
  using stream_wf_bounds [of s] by (simp add: rd_def unat_add_of_nat)

lemma stream_getl_from_eq:
  assumes wf: "stream_wf s" and p: "unat p + 4 \<le> unat (s_endp s)"
  shows "stream_getl_from s p =
    Some (be32 (s_data s ! unat p) (s_data s ! (unat p + 1))
               (s_data s ! (unat p + 2)) (s_data s ! (unat p + 3)))"
proof -
  have "GETP_VALID s (p + 4)"
    using p GETP_VALID_sum [of p 4 s] unat_size_bound [of "s_endp s"] by simp
  then show ?thesis
    using p rd_at [OF wf, of p 0] rd_at [OF wf, of p 1] rd_at [OF wf, of p 2] rd_at [OF wf, of p 3]
    by (simp add: stream_getl_from_def)
qed

section \<open>Sequences of calls\<close>

text \<open>The calls a client can make on one stream. A read carries the answer of the system call.\<close>

datatype stream_call =
    CGet size_t | CGetc | CGetw | CGetl | CGetq | CGetIpv4
  | CGetcFrom size_t | CGetwFrom size_t | CGetlFrom size_t | CGetqFrom size_t
  | CPut "byte list" | CPutZero size_t | CPutc byte | CPutw u16 | CPutl u32 | CPutq u64
  | CPutIpv4 u32 | CPutInAddr u32 | CWrite "byte list"
  | CPutcAt size_t byte | CPutwAt size_t u16 | CPutlAt size_t u32 | CPutqAt size_t u64
  | CSetGetp size_t | CForwardGetp size_t | CReset
  | CReadTry size_t sysread | CRecvfrom size_t sysread | CRecvmsg size_t sysread

fun do_call :: "stream_call \<Rightarrow> stream \<Rightarrow> stream option" where
  "do_call (CGet n) s = map_option snd (stream_get s n)"
| "do_call CGetc s = map_option snd (stream_getc s)"
| "do_call CGetw s = map_option snd (stream_getw s)"
| "do_call CGetl s = map_option snd (stream_getl s)"
| "do_call CGetq s = map_option snd (stream_getq s)"
| "do_call CGetIpv4 s = map_option snd (stream_get_ipv4 s)"
| "do_call (CGetcFrom p) s = map_option (\<lambda>_. s) (stream_getc_from s p)"
| "do_call (CGetwFrom p) s = map_option (\<lambda>_. s) (stream_getw_from s p)"
| "do_call (CGetlFrom p) s = map_option (\<lambda>_. s) (stream_getl_from s p)"
| "do_call (CGetqFrom p) s = map_option (\<lambda>_. s) (stream_getq_from s p)"
| "do_call (CPut bs) s = stream_put s (Some bs) (of_nat (length bs))"
| "do_call (CPutZero n) s = stream_put s None n"
| "do_call (CPutc c) s = map_option snd (stream_putc s c)"
| "do_call (CPutw w) s = map_option snd (stream_putw s w)"
| "do_call (CPutl l) s = map_option snd (stream_putl s l)"
| "do_call (CPutq q) s = map_option snd (stream_putq s q)"
| "do_call (CPutIpv4 l) s = map_option snd (stream_put_ipv4 s l)"
| "do_call (CPutInAddr l) s = map_option snd (stream_put_in_addr s l)"
| "do_call (CWrite bs) s = map_option snd (stream_write s bs (of_nat (length bs)))"
| "do_call (CPutcAt p c) s = map_option snd (stream_putc_at s p c)"
| "do_call (CPutwAt p w) s = map_option snd (stream_putw_at s p w)"
| "do_call (CPutlAt p l) s = map_option snd (stream_putl_at s p l)"
| "do_call (CPutqAt p q) s = map_option snd (stream_putq_at s p q)"
| "do_call (CSetGetp p) s = Some (stream_set_getp s p)"
| "do_call (CForwardGetp n) s = Some (stream_forward_getp s n)"
| "do_call CReset s = Some (stream_reset s)"
| "do_call (CReadTry n r) s = map_option snd (stream_read_try s n r)"
| "do_call (CRecvfrom n r) s = map_option snd (stream_recvfrom s n r)"
| "do_call (CRecvmsg n r) s = map_option snd (stream_recvmsg s n r)"

fun do_calls :: "stream_call list \<Rightarrow> stream \<Rightarrow> stream option" where
  "do_calls [] s = Some s"
| "do_calls (c # cs) s = do { s \<leftarrow> do_call c s; do_calls cs s }"

text \<open>What the caller owes: positions that do not wrap when the width is added, buffers that
  fit a \<open>size_t\<close>, and an operating system that does not deliver more than was asked for.\<close>

fun read_fits :: "size_t \<Rightarrow> sysread \<Rightarrow> bool" where
  "read_fits n (Got bs) \<longleftrightarrow> length bs \<le> unat n"
| "read_fits n (Fail e) \<longleftrightarrow> True"

abbreviation nowrap_pos :: "size_t \<Rightarrow> nat \<Rightarrow> bool" where
  "nowrap_pos p n \<equiv> unat p + n < 18446744073709551616"

fun call_ok :: "stream_call \<Rightarrow> bool" where
  "call_ok (CGetcFrom p) = nowrap_pos p 1"
| "call_ok (CGetwFrom p) = nowrap_pos p 2"
| "call_ok (CGetlFrom p) = nowrap_pos p 4"
| "call_ok (CGetqFrom p) = nowrap_pos p 8"
| "call_ok (CPutcAt p c) = nowrap_pos p 1"
| "call_ok (CPutwAt p w) = nowrap_pos p 2"
| "call_ok (CPutlAt p l) = nowrap_pos p 4"
| "call_ok (CPutqAt p q) = nowrap_pos p 8"
| "call_ok (CPut bs) = (length bs < 18446744073709551616)"
| "call_ok (CWrite bs) = (length bs < 18446744073709551616)"
| "call_ok (CReadTry n r) = read_fits n r"
| "call_ok (CRecvfrom n r) = read_fits n r"
| "call_ok (CRecvmsg n r) = read_fits n r"
| "call_ok _ = True"

definition safe :: "stream option \<Rightarrow> bool" where
  "safe r \<longleftrightarrow> (\<exists>s. r = Some s \<and> stream_wf s)"

named_theorems safe_intros "calls that stay inside the segment"

lemma safe_Some [safe_intros]: "stream_wf s \<Longrightarrow> safe (Some s)"
  by (simp add: safe_def)

lemma get_all_safe:
  assumes "stream_wf s" "n \<le> length (contents s)"
  obtains s' where "get_all next_byte n s = Some (take n (contents s), s')" "stream_wf s'"
  using assms bq.get_all_eq [of s n] adv_wf [of s n] by blast

lemma put_all_safe:
  assumes "stream_wf s" "length bs \<le> room s"
  obtains s' where "put_all put_byte bs s = Some s'" "stream_wf s'"
  using assms bq.put_all_eq [of s bs] app_wf [of s bs] by blast

lemma long_list:
  "Suc 0 \<le> length xs \<Longrightarrow> \<exists>a ys. xs = a # ys"
  "2 \<le> length xs \<Longrightarrow> \<exists>a b ys. xs = a # b # ys"
  "4 \<le> length xs \<Longrightarrow> \<exists>a b c d ys. xs = a # b # c # d # ys"
  "8 \<le> length xs \<Longrightarrow> \<exists>a b c d e f g h ys. xs = a # b # c # d # e # f # g # h # ys"
  by (auto simp: Suc_le_length_iff numeral_eq_Suc)

lemma getters_safe [safe_intros]:
  assumes "stream_wf s"
  shows "safe (map_option snd (stream_getc s))"
    and "safe (map_option snd (stream_getw s))"
    and "safe (map_option snd (stream_getl s))"
    and "safe (map_option snd (stream_getq s))"
    and "safe (map_option snd (stream_get s n))"
proof -
  note short = getters_short [OF assms] and eq = stream_getc_eq [OF assms] stream_getw_eq [OF assms]
    stream_getl_eq [OF assms] stream_getq_eq [OF assms] stream_get_eq [OF assms]
  show "safe (map_option snd (stream_getc s))"
    using assms short(1) eq(1) by (cases "contents s") (auto simp: safe_def adv_wf)
  show "safe (map_option snd (stream_getw s))"
    using assms short(2) eq(2) long_list(2) [of "contents s"]
    by (cases "2 \<le> length (contents s)") (auto simp: safe_def adv_wf)
  show "safe (map_option snd (stream_getl s))"
    using assms short(3) eq(3) long_list(3) [of "contents s"]
    by (cases "4 \<le> length (contents s)") (auto simp: safe_def adv_wf)
  show "safe (map_option snd (stream_getq s))"
    using assms short(4) eq(4) long_list(4) [of "contents s"]
    by (cases "8 \<le> length (contents s)") (auto simp: safe_def adv_wf)
  show "safe (map_option snd (stream_get s n))"
    using assms short(6) [of n] eq(5) [of n]
    by (cases "unat n \<le> length (contents s)") (auto simp: safe_def adv_wf)
qed

lemma putters_safe [safe_intros]:
  assumes "stream_wf s"
  shows "safe (map_option snd (stream_putc s c))"
    and "safe (map_option snd (stream_putw s w))"
    and "safe (map_option snd (stream_putl s l))"
    and "safe (map_option snd (stream_putq s q))"
proof -
  note full = putters_full [OF assms] and eq = stream_putc_eq [OF assms] stream_putw_eq [OF assms]
    stream_putl_eq [OF assms] stream_putq_eq [OF assms]
  show "safe (map_option snd (stream_putc s c))"
    using assms full(1) eq(1) by (cases "room s = 0") (auto simp: safe_def app_wf)
  show "safe (map_option snd (stream_putw s w))"
    using assms full(2) eq(2) by (cases "room s < 2") (auto simp: safe_def app_wf)
  show "safe (map_option snd (stream_putl s l))"
    using assms full(3) eq(3) by (cases "room s < 4") (auto simp: safe_def app_wf)
  show "safe (map_option snd (stream_putq s q))"
    using assms full(4) eq(4) by (cases "room s < 8") (auto simp: safe_def app_wf)
qed

lemma ipv4_eq:
  assumes "stream_wf s"
  shows "4 \<le> room s \<Longrightarrow> stream_put_ipv4 s l = Some (4, app (le32_bytes l) s)"
    and "4 \<le> room s \<Longrightarrow> stream_put_in_addr s l = Some (4, app (le32_bytes l) s)"
    and "4 \<le> length (contents s) \<Longrightarrow>
           stream_get_ipv4 s = Some (le32 (take 4 (contents s)), adv 4 s)"
  using assms stream_wf_bounds [OF assms] stream_get_eq [OF assms, of 4]
  by (simp_all add: stream_put_ipv4_def stream_put_in_addr_def stream_get_ipv4_def WRITEABLE_less
      READABLE_less wr_seg_def app_def room_def stream_get_def split: Option.bind_splits)

lemma ipv4_safe [safe_intros]:
  assumes "stream_wf s"
  shows "safe (map_option snd (stream_put_ipv4 s l))"
    and "safe (map_option snd (stream_put_in_addr s l))"
    and "safe (map_option snd (stream_get_ipv4 s))"
  using assms ipv4_eq [OF assms] putters_full(5,6) [OF assms] getters_short(5) [OF assms]
  by (cases "4 \<le> room s"; cases "4 \<le> length (contents s)"; simp add: safe_def app_wf adv_wf)+

lemma put_safe [safe_intros]:
  assumes wf: "stream_wf s" and src: "unat z \<le> length b"
  shows "safe (stream_put s (Some b) z)"
proof (cases "unat (s_endp s) + unat z < 18446744073709551616")
  case True
  with wf src show ?thesis
    by (simp add: stream_put_eq safe_def app_wf)
next
  case False
  with wf CHECK_SIZE_wraps [OF wf, of z] show ?thesis
    by (simp add: stream_put_def safe_def)
qed

lemma CHECK_SIZE_le: "stream_wf s \<Longrightarrow> unat (CHECK_SIZE s z) \<le> unat z"
proof (cases "unat (s_endp s) + unat z < 18446744073709551616")
  case True
  moreover assume wf: "stream_wf s"
  moreover have "unat (s_size s - s_endp s) = room s"
    using unat_WRITEABLE [OF wf] by (simp add: STREAM_WRITEABLE_def)
  ultimately show ?thesis
    using CHECK_SIZE_fits [OF wf, of z] CHECK_SIZE_truncates [OF wf, of z]
    by (cases "unat z \<le> room s") auto
next
  case False
  moreover assume "stream_wf s"
  ultimately show ?thesis
    using CHECK_SIZE_wraps(1) [of s z] by simp
qed

text \<open>A null source is a source of zeroes.\<close>

lemma stream_put_null:
  "stream_wf s \<Longrightarrow> stream_put s None z = stream_put s (Some (replicate (unat z) 0)) z"
  using CHECK_SIZE_le [of s z]
  by (simp add: stream_put_def Let_def rd_seg_def min_def)

lemma put_null_safe [safe_intros]: "stream_wf s \<Longrightarrow> safe (stream_put s None z)"
  by (simp add: stream_put_null put_safe)

lemma stream_write_put:
  "map_option snd (stream_write s b z) = stream_put s (Some b) z"
  by (simp add: stream_write_def stream_put_def Let_def map_option_case split: Option.bind_splits)

lemma write_safe [safe_intros]:
  "stream_wf s \<Longrightarrow> unat z \<le> length b \<Longrightarrow> safe (map_option snd (stream_write s b z))"
  by (simp add: stream_write_put put_safe)

lemma stream_store_eq:
  "stream_wf s \<Longrightarrow> length bs \<le> room s \<Longrightarrow>
     stream_store s bs = Some (s\<lparr>s_data := seg_upd (s_data s) (unat (s_endp s)) bs\<rparr>)"
  using stream_wf_bounds [of s] by (simp add: stream_store_def wr_seg_Some room_def)

lemma stream_read_try_eq:
  "stream_wf s \<Longrightarrow> unat n \<le> room s \<Longrightarrow> length bs \<le> unat n \<Longrightarrow>
     stream_read_try s n (Got bs) = Some (int (length bs), app bs s)"
  by (simp add: stream_read_try_def WRITEABLE_less stream_store_eq app_def)

lemma store_app:
  "stream_wf s \<Longrightarrow> length bs \<le> room s \<Longrightarrow>
     stream_wf (s\<lparr>s_data := seg_upd (s_data s) (unat (s_endp s)) bs,
                 s_endp := s_endp s + of_nat (length bs)\<rparr>)"
  using app_wf [of s bs] by (simp add: app_def)

lemma reads_safe [safe_intros]:
  assumes "stream_wf s" "read_fits n r"
  shows "safe (map_option snd (stream_read_try s n r))"
    and "safe (map_option snd (stream_recvfrom s n r))"
    and "safe (map_option snd (stream_recvmsg s n r))"
  using assms store_app [OF assms(1)] WRITEABLE_less [OF assms(1), of n]
  by (cases r; cases "STREAM_WRITEABLE s < n";
      auto simp: stream_read_try_def stream_recvfrom_def stream_recvmsg_def stream_store_eq safe_def)+

lemma at_safe [safe_intros]:
  assumes "stream_wf s"
  shows "nowrap_pos p 1 \<Longrightarrow> safe (map_option snd (stream_putc_at s p c))"
    and "nowrap_pos p 2 \<Longrightarrow> safe (map_option snd (stream_putw_at s p w))"
    and "nowrap_pos p 4 \<Longrightarrow> safe (map_option snd (stream_putl_at s p l))"
    and "nowrap_pos p 8 \<Longrightarrow> safe (map_option snd (stream_putq_at s p q))"
proof -
  have *: "\<And>cs. unat p + length cs \<le> unat (s_endp s) \<Longrightarrow>
      stream_wf (s\<lparr>s_data := seg_upd (s_data s) (unat p) cs\<rparr>)"
    by (rule data_upd_wf [OF assms])
  note at = wr_all_at [OF assms] putc_at_steps putw_at_steps putl_at_steps putq_at_steps safe_def
  show "nowrap_pos p 1 \<Longrightarrow> safe (map_option snd (stream_putc_at s p c))"
    using assms * [of "[c]"] GETP_VALID_sum [of p 1 s] by (simp add: at del: wr_all.simps)
  show "nowrap_pos p 2 \<Longrightarrow> safe (map_option snd (stream_putw_at s p w))"
    using assms * [of "be16_bytes w"] GETP_VALID_sum [of p 2 s] by (simp add: at)
  show "nowrap_pos p 4 \<Longrightarrow> safe (map_option snd (stream_putl_at s p l))"
    using assms * [of "be32_bytes l"] GETP_VALID_sum [of p 4 s] by (simp add: at)
  show "nowrap_pos p 8 \<Longrightarrow> safe (map_option snd (stream_putq_at s p q))"
    using assms * [of "be64_bytes q"] GETP_VALID_sum [of p 8 s] by (simp add: at)
qed

lemma from_safe [safe_intros]:
  assumes "stream_wf s"
  shows "nowrap_pos p 1 \<Longrightarrow> safe (map_option (\<lambda>_. s) (stream_getc_from s p))"
    and "nowrap_pos p 2 \<Longrightarrow> safe (map_option (\<lambda>_. s) (stream_getw_from s p))"
    and "nowrap_pos p 4 \<Longrightarrow> safe (map_option (\<lambda>_. s) (stream_getl_from s p))"
    and "nowrap_pos p 8 \<Longrightarrow> safe (map_option (\<lambda>_. s) (stream_getq_from s p))"
  using assms GETP_VALID_sum [of p 1 s] GETP_VALID_sum [of p 2 s] GETP_VALID_sum [of p 4 s]
    GETP_VALID_sum [of p 8 s] rd_at [OF assms, of p 0] rd_at [OF assms, of p 1]
    rd_at [OF assms, of p 2] rd_at [OF assms, of p 3] rd_at [OF assms, of p 4]
    rd_at [OF assms, of p 5] rd_at [OF assms, of p 6] rd_at [OF assms, of p 7]
  by (simp_all add: stream_getc_from_def stream_getw_from_def stream_getl_from_def
      stream_getq_from_def safe_def)

lemma cursor_safe [safe_intros]:
  assumes "stream_wf s"
  shows "safe (Some (stream_set_getp s p))" "safe (Some (stream_forward_getp s n))"
    "safe (Some (stream_reset s))"
  using assms
  by (auto simp: safe_def stream_set_getp_def stream_forward_getp_def stream_reset_def
      GETP_VALID_def ENDP_VALID_def stream_wf_iff word_le_nat_alt not_le)

text \<open>Moving the end is safe only while the sum does not wrap: the check compares the wrapped
  sum with the size.\<close>

lemma forward_endp_wf:
  "stream_wf s \<Longrightarrow> unat (s_endp s) + unat n < 18446744073709551616 \<Longrightarrow>
     stream_wf (stream_forward_endp s n)"
  by (auto simp: stream_forward_endp_def ENDP_VALID_def stream_wf_iff word_le_nat_alt unat_add_size)

lemma do_call_safe: "stream_wf s \<Longrightarrow> call_ok c \<Longrightarrow> safe (do_call c s)"
  by (cases c) (auto intro: safe_intros)


definition blank_stream :: "nat \<Rightarrow> stream" where
  "blank_stream n =
     \<lparr>s_owner = 0, s_type = 0, s_stype = 0, s_su = zero_sockunion, s_dsu = zero_sockunion,
      s_plen = 0, s_rlen = 0, s_flag = 0, s_src = 0, s_dst = 0, s_mark = 0, s_interval = 0,
      s_repeat = 0, s_nid = 0, s_sid = 0, s_seq = 0, s_getp = 0, s_endp = 0,
      s_size = of_nat n, s_data = replicate n 0\<rparr>"

lemma blank_stream_wf: "n < 18446744073709551616 \<Longrightarrow> stream_wf (blank_stream n)"
  by (simp add: blank_stream_def stream_wf_iff)


section \<open>Round trips\<close>

lemma drained_contents:
  "stream_wf s \<Longrightarrow> length bs \<le> room s \<Longrightarrow>
     stream_wf (adv (length (contents s)) (app bs s)) \<and>
     contents (adv (length (contents s)) (app bs s)) = bs"
  by (simp add: view_simps)

text \<open>C14: an integer written with a putter comes back unchanged from the matching getter, at every
  width, once the bytes queued before it have been consumed.\<close>

theorem stream_integer_roundtrip:
  assumes wf: "stream_wf s" and fits: "8 \<le> room s"
  defines "k \<equiv> length (contents s)"
  shows "(\<exists>t. stream_putc s c = Some (1, t) \<and> stream_getc (adv k t) = Some (c, adv (k + 1) t)) \<and>
    (\<exists>t. stream_putw s w = Some (2, t) \<and> stream_getw (adv k t) = Some (w, adv (k + 2) t)) \<and>
    (\<exists>t. stream_putl s l = Some (4, t) \<and> stream_getl (adv k t) = Some (l, adv (k + 4) t)) \<and>
    (\<exists>t. stream_putq s q = Some (8, t) \<and> stream_getq (adv k t) = Some (q, adv (k + 8) t)) \<and>
    (\<exists>t. stream_put_ipv4 s a = Some (4, t) \<and> stream_get_ipv4 (adv k t) = Some (a, adv (k + 4) t))"
proof -
  have d: "stream_wf (adv k (app bs s)) \<and> contents (adv k (app bs s)) = bs" if "length bs \<le> 8" for bs
    using drained_contents [OF wf, of bs] that fits by (simp add: k_def)
  have "stream_getc (adv k (app [c] s)) = Some (c, adv (k + 1) (app [c] s))"
    using d [of "[c]"] by (auto simp: stream_getc_eq adv_adv)
  moreover have "stream_getw (adv k (app (be16_bytes w) s)) = Some (w, adv (k + 2) (app (be16_bytes w) s))"
    using d [of "be16_bytes w"] by (auto simp: be16_bytes_def stream_getw_eq adv_adv be16_roundtrip)
  moreover have "stream_getl (adv k (app (be32_bytes l) s)) = Some (l, adv (k + 4) (app (be32_bytes l) s))"
    using d [of "be32_bytes l"] by (auto simp: be32_bytes_def stream_getl_eq adv_adv be32_roundtrip)
  moreover have "stream_getq (adv k (app (be64_bytes q) s)) = Some (q, adv (k + 8) (app (be64_bytes q) s))"
    using d [of "be64_bytes q"] by (auto simp: be64_bytes_def stream_getq_eq adv_adv be64_roundtrip)
  moreover have "stream_get_ipv4 (adv k (app (le32_bytes a) s)) = Some (a, adv (k + 4) (app (le32_bytes a) s))"
    using d [of "le32_bytes a"] by (simp add: ipv4_eq(3) adv_adv)
  ultimately show ?thesis
    using wf fits
    by (simp add: stream_putc_eq stream_putw_eq stream_putl_eq stream_putq_eq ipv4_eq(1))
qed

theorem stream_integer_roundtrip_witness:
  "\<exists>t. stream_putq (blank_stream 16) 0x0102030405060708 = Some (8, t) \<and>
       stream_getq (adv 0 t) = Some (0x0102030405060708, adv 8 t)"
proof -
  have "stream_wf (blank_stream 16)" "8 \<le> room (blank_stream 16)" "length (contents (blank_stream 16)) = 0"
    by (simp_all add: blank_stream_wf) (simp_all add: blank_stream_def room_def contents_def)
  then show ?thesis
    using stream_integer_roundtrip [of "blank_stream 16" 0 0 0 "0x0102030405060708" 0] by simp
qed

text \<open>Writing a long word at a position inside the written part returns 4, reading that position
  gives it back, and every other byte of the segment and both cursors are untouched.\<close>

theorem stream_positioned_roundtrip:
  assumes "stream_wf s" "unat p + 4 \<le> unat (s_endp s)"
  shows "\<exists>d. stream_putl_at s p l = Some (4, s\<lparr>s_data := d\<rparr>) \<and>
    stream_getl_from (s\<lparr>s_data := d\<rparr>) p = Some l \<and> length d = length (s_data s) \<and>
    (\<forall>i. i < unat p \<or> unat p + 4 \<le> i \<longrightarrow> d ! i = s_data s ! i)"
proof -
  let ?d = "seg_upd (s_data s) (unat p) (be32_bytes l)"
  have len: "unat p + 4 \<le> length (s_data s)"
    using assms stream_wf_bounds [of s] by simp
  have "stream_getl_from (s\<lparr>s_data := ?d\<rparr>) p = Some l"
    using assms stream_getl_from_eq [OF data_upd_wf [of s "unat p" "be32_bytes l"], of p] len
    by (simp add: seg_upd_def nth_append be32_bytes_def be32_roundtrip)
  moreover have "\<forall>i. i < unat p \<or> unat p + 4 \<le> i \<longrightarrow> ?d ! i = s_data s ! i"
    using len by (simp add: nth_seg_upd_outside)
  ultimately show ?thesis
    using stream_putl_at_eq [OF assms, of l] len by (intro exI [of _ ?d]) simp
qed

theorem stream_positioned_roundtrip_witness:
  "\<exists>d. stream_putl_at (app [1, 2, 3, 4, 5, 6] (blank_stream 8)) 1 0xCAFE =
         Some (4, app [1, 2, 3, 4, 5, 6] (blank_stream 8)\<lparr>s_data := d\<rparr>) \<and>
       stream_getl_from (app [1, 2, 3, 4, 5, 6] (blank_stream 8)\<lparr>s_data := d\<rparr>) 1 = Some 0xCAFE"
proof -
  have "stream_wf (app [1, 2, 3, 4, 5, 6] (blank_stream 8))"
    by (rule app_wf) (simp_all add: blank_stream_wf, simp add: blank_stream_def room_def)
  moreover have "unat (1 :: size_t) + 4 \<le> unat (s_endp (app [1, 2, 3, 4, 5, 6] (blank_stream 8)))"
    by (simp add: app_def blank_stream_def)
  ultimately show ?thesis
    using stream_positioned_roundtrip [of "app [1, 2, 3, 4, 5, 6] (blank_stream 8)" 1 "0xCAFE"] by blast
qed

text \<open>\<open>stream_put\<close> appends the source bytes, cut to the free space, and changes nothing that was
  queued before; the free space shrinks by what was appended.\<close>

theorem stream_put_appends:
  assumes "stream_wf s" "unat n \<le> length b" "unat (s_endp s) + unat n < 18446744073709551616"
  shows "\<exists>s'. stream_put s (Some b) n = Some s' \<and> stream_wf s' \<and>
    contents s' = contents s @ take (min (unat n) (room s)) b \<and>
    room s' = room s - min (unat n) (room s) \<and> s_getp s' = s_getp s"
  using assms by (simp add: stream_put_eq view_simps min_def) (simp add: app_def)

theorem stream_put_appends_witness:
  "\<exists>s'. stream_put (blank_stream 4) (Some [1, 2, 3, 4, 5, 6]) 6 = Some s' \<and> contents s' = [1, 2, 3, 4]"
proof -
  have "stream_wf (blank_stream 4)" "contents (blank_stream 4) = []" "room (blank_stream 4) = 4"
    "s_endp (blank_stream 4) = 0"
    by (simp_all add: blank_stream_wf) (simp_all add: blank_stream_def room_def contents_def)
  then show ?thesis
    using stream_put_appends [of "blank_stream 4" 6 "[1, 2, 3, 4, 5, 6]"] by auto
qed

lemma clone_one_spec:
  assumes "stream_wf frm" "length (contents frm) \<le> 256" "malloc_ok malloc"
    and "malloc MISAKA_MAX_PACKET_SIZE \<noteq> None"
  shows "\<exists>to. stream_clone_one malloc (Some mem) frm = Some (Some to) \<and> stream_wf to \<and>
    contents to = contents frm \<and> s_type to = s_type frm \<and> s_stype to = s_stype frm \<and>
    s_src to = s_src frm \<and> s_dst to = s_dst frm \<and> s_mark to = s_mark frm \<and>
    s_su to = s_su frm \<and> s_dsu to = s_dsu frm \<and>
    s_nid to = s_nid mem \<and> s_sid to = s_sid mem \<and> s_seq to = s_seq mem"
proof -
  obtain t where t: "stream_new malloc (Some mem) MISAKA_MAX_PACKET_SIZE = Some t"
    using assms(4) scast_ucast_small [of MISAKA_MAX_PACKET_SIZE]
    by (auto simp: stream_new_def misakamalloc_def)
  let ?t = "stream_color_one t frm" and ?n = "s_endp frm - s_getp frm"
  have wf: "stream_wf ?t" "contents ?t = []" "room ?t = 256" "s_endp ?t = 0"
    using stream_new_wf [OF t assms(3)] t
    by (auto simp: stream_color_one_def stream_wf_iff contents_def room_def stream_new_def
        split: option.splits)
  have n: "unat ?n = length (contents frm)"
    using unat_READABLE [OF assms(1)] by (simp add: STREAM_READABLE_def)
  have p: "stream_pnt frm = Some (drop (unat (s_getp frm)) (s_data frm))"
    by (rule stream_pnt_eq [OF assms(1)])
  have len: "unat ?n \<le> length (drop (unat (s_getp frm)) (s_data frm))"
    using n assms(1) length_contents [OF assms(1)] stream_wf_bounds [OF assms(1)] by simp
  have "take (unat ?n) (drop (unat (s_getp frm)) (s_data frm)) = contents frm"
    using n length_contents [OF assms(1)] by (simp add: contents_def)
  moreover have "unat (s_endp ?t) + unat ?n < 18446744073709551616"
    using wf(4) unat_size_bound [of ?n] by simp
  ultimately have "stream_put ?t (Some (drop (unat (s_getp frm)) (s_data frm))) ?n =
      Some (app (contents frm) ?t)"
    using stream_put_eq [OF wf(1) len] n wf(3) assms(2) by (simp add: min_def)
  then have "stream_clone_one malloc (Some mem) frm = Some (Some (app (contents frm) ?t))"
    using t p by (simp add: stream_clone_one_def stream_get_endp_def stream_get_getp_def)
  moreover have "stream_wf (app (contents frm) ?t) \<and> contents (app (contents frm) ?t) = contents frm"
    using wf assms(2) by (simp add: view_simps)
  moreover have "s_nid t = s_nid mem" "s_sid t = s_sid mem" "s_seq t = s_seq mem"
    using t by (auto simp: stream_new_def split: option.splits)
  ultimately show ?thesis
    by (auto simp: app_def stream_color_one_def)
qed

text \<open>a clone holds the unread bytes of the packet it was made from, with the same type, source,
  destination, mark and addresses; its node, session and sequence numbers are whatever the
  fresh memory held.\<close>

theorem stream_clone_one_copies:
  assumes "stream_wf frm" "length (contents frm) \<le> 256" "malloc_ok malloc"
    and "malloc MISAKA_MAX_PACKET_SIZE \<noteq> None"
  shows "\<exists>to. stream_clone_one malloc (Some mem) frm = Some (Some to) \<and> stream_wf to \<and>
    contents to = contents frm \<and> s_type to = s_type frm \<and> s_stype to = s_stype frm \<and>
    s_src to = s_src frm \<and> s_dst to = s_dst frm \<and> s_mark to = s_mark frm \<and>
    s_su to = s_su frm \<and> s_dsu to = s_dsu frm \<and>
    s_nid to = s_nid mem \<and> s_sid to = s_sid mem \<and> s_seq to = s_seq mem"
  by (rule clone_one_spec [OF assms])

definition zero_malloc :: allocator where
  "zero_malloc n = (if unat n \<le> 4096 then Some (replicate (unat n) 0) else None)"

lemma zero_malloc_ok: "malloc_ok zero_malloc"
  by (simp add: malloc_ok_def zero_malloc_def)

theorem stream_clone_one_copies_witness:
  "\<exists>to. stream_clone_one zero_malloc (Some (blank_stream 0)) (app [7, 8, 9] (blank_stream 256)) =
          Some (Some to) \<and> contents to = [7, 8, 9]"
proof -
  have b: "stream_wf (blank_stream 256)" "room (blank_stream 256) = 256" "contents (blank_stream 256) = []"
    by (simp_all add: blank_stream_wf) (simp_all add: blank_stream_def room_def contents_def)
  then have "stream_wf (app [7, 8, 9] (blank_stream 256))"
    "contents (app [7, 8, 9] (blank_stream 256)) = [7, 8, 9]"
    by (simp_all add: view_simps)
  then show ?thesis
    using stream_clone_one_copies [of "app [7, 8, 9] (blank_stream 256)" zero_malloc "blank_stream 0"]
    by (auto simp: zero_malloc_ok zero_malloc_def)
qed

text \<open>The bounds check of the positioned getters adds the width to the position before it
  compares, and the sum wraps: reading a byte at the largest position passes the check and reads
  outside the segment, on every well-formed stream.\<close>

theorem stream_getc_from_wraps: "stream_wf s \<Longrightarrow> stream_getc_from s (-1) = None"
proof -
  assume "stream_wf s"
  moreover have "unat (-1 :: size_t) = 18446744073709551615"
    by (simp add: unsigned_minus_1_eq_mask mask_eq_exp_minus_1)
  ultimately show ?thesis
    using stream_wf_bounds [of s] by (simp add: stream_getc_from_def GETP_VALID_def rd_def)
qed

theorem stream_getc_from_wraps_witness: "stream_getc_from (blank_stream 4) (-1) = None"
  by (rule stream_getc_from_wraps) (simp add: blank_stream_wf)

end
