(* ===== verification/Fifo.thy ===== *)
theory Fifo
  imports Stream Queues
begin

text \<open>
  The packet fifos and packet chains of \<open>misaka/lib/stream.c\<close>: streams linked through their \<open>next\<close>
  field. The packets live in a store; a fifo is its header. \<open>None\<close> is a dereference of NULL or of an
  address that is not a live packet, or a chain that never ends.
\<close>

section \<open>State\<close>

record packet =
  pk_next :: ptr
  pk_s :: stream

type_synonym packets = "addr \<Rightarrow> packet option"

record stream_fifo =
  f_count :: size_t
  f_head :: ptr
  f_tail :: ptr

section \<open>Fifo operations\<close>

definition stream_fifo_new :: stream_fifo where
  "stream_fifo_new = \<lparr>f_count = 0, f_head = None, f_tail = None\<rparr>"

definition stream_fifo_push :: "stream_fifo \<Rightarrow> addr \<Rightarrow> packets \<Rightarrow> (stream_fifo \<times> packets) option" where
  "stream_fifo_push fifo s pk =
     do {
       (fifo, pk) \<leftarrow>
         (case f_tail fifo of
            Some t \<Rightarrow> do { p \<leftarrow> pk t; Some (fifo, pk(t \<mapsto> p\<lparr>pk_next := Some s\<rparr>)) }
          | None \<Rightarrow> Some (fifo\<lparr>f_head := Some s\<rparr>, pk));
       Some (fifo\<lparr>f_tail := Some s, f_count := f_count fifo + 1\<rparr>, pk)
     }"

definition stream_fifo_pop :: "stream_fifo \<Rightarrow> packets \<Rightarrow> (ptr \<times> stream_fifo) option" where
  "stream_fifo_pop fifo pk =
     do {
       let s = f_head fifo;
       fifo \<leftarrow>
         (case s of
            Some a \<Rightarrow> do {
              p \<leftarrow> pk a;
              Some (if pk_next p = None then fifo\<lparr>f_head := None, f_tail := None\<rparr> else fifo\<lparr>f_head := pk_next p\<rparr>)
            }
          | None \<Rightarrow> Some fifo);
       Some (s, fifo\<lparr>f_count := f_count fifo - 1\<rparr>)
     }"

definition stream_fifo_head :: "stream_fifo \<Rightarrow> ptr" where
  "stream_fifo_head fifo = f_head fifo"

definition stream_free :: "ptr \<Rightarrow> packets \<Rightarrow> packets" where
  "stream_free s pk = (case s of None \<Rightarrow> pk | Some a \<Rightarrow> pk(a := None))"

partial_function (option) clean_loop :: "ptr \<Rightarrow> packets \<Rightarrow> packets option" where
  "clean_loop s pk =
     (case s of
        None \<Rightarrow> Some pk
      | Some a \<Rightarrow> do {
          p \<leftarrow> pk a;
          clean_loop (pk_next p) (stream_free (Some a) pk)
        })"

definition stream_fifo_clean :: "stream_fifo \<Rightarrow> packets \<Rightarrow> (stream_fifo \<times> packets) option" where
  "stream_fifo_clean fifo pk =
     do {
       pk \<leftarrow> clean_loop (f_head fifo) pk;
       Some (fifo\<lparr>f_head := None, f_tail := None, f_count := 0\<rparr>, pk)
     }"

text \<open>\<open>stream_fifo_free\<close> frees the header too.\<close>

definition stream_fifo_free :: "stream_fifo \<Rightarrow> packets \<Rightarrow> packets option" where
  "stream_fifo_free fifo pk = map_option snd (stream_fifo_clean fifo pk)"

section \<open>Chains\<close>

partial_function (option) count_loop :: "int \<Rightarrow> ptr \<Rightarrow> packets \<Rightarrow> int option" where
  "count_loop count s pk =
     (case s of
        None \<Rightarrow> Some count
      | Some a \<Rightarrow> do {
          p \<leftarrow> pk a;
          (if count = INT_MAX then None else count_loop (count + 1) (pk_next p) pk)
        })"

definition stream_count :: "ptr \<Rightarrow> packets \<Rightarrow> int option" where
  "stream_count s pk = count_loop 0 s pk"

partial_function (option) color_loop :: "ptr \<Rightarrow> addr \<Rightarrow> packets \<Rightarrow> packets option" where
  "color_loop t frm pk =
     (case t of
        None \<Rightarrow> Some pk
      | Some a \<Rightarrow> do {
          p \<leftarrow> pk a;
          q \<leftarrow> pk frm;
          color_loop (pk_next p) frm (pk(a \<mapsto> p\<lparr>pk_s := stream_color_one (pk_s p) (pk_s q)\<rparr>))
        })"

definition stream_color :: "ptr \<Rightarrow> addr \<Rightarrow> packets \<Rightarrow> packets option" where
  "stream_color to frm pk = color_loop to frm pk"

text \<open>\<open>stream_clone\<close>: each round clones one packet into a block of \<open>mems\<close> (its address and the contents
  of the memory; \<open>None\<close> when the allocation fails). \<open>to\<close> is the last clone. After a failed
  allocation in the middle of the chain \<open>to\<close> is NULL, and the next round dereferences it; after a failed
  first one the loop starts over with the next packet as the head.\<close>

fun clone_loop :: "allocator \<Rightarrow> (addr \<times> stream) option list \<Rightarrow> ptr \<Rightarrow> ptr \<Rightarrow> ptr \<Rightarrow> packets \<Rightarrow> (ptr \<times> packets) option" where
  "clone_loop malloc mems head to None pk = Some (head, pk)"
| "clone_loop malloc [] head to (Some t) pk = None"
| "clone_loop malloc (mem # mems) head to (Some t) pk =
     do {
       p \<leftarrow> pk t;
       c \<leftarrow> stream_clone_one malloc (map_option snd mem) (pk_s p);
       (new, pk) \<leftarrow>
         (case (c, mem) of
            (Some s, Some (a, _)) \<Rightarrow> Some (Some a, pk(a \<mapsto> \<lparr>pk_next = None, pk_s = s\<rparr>))
          | _ \<Rightarrow> Some (None, pk));
       (if head = None then do {
          p \<leftarrow> pk t;
          clone_loop malloc mems new new (pk_next p) pk
        }
        else do {
          o' \<leftarrow> to;
          q \<leftarrow> pk o';
          let pk = pk(o' \<mapsto> q\<lparr>pk_next := new\<rparr>);
          p \<leftarrow> pk t;
          clone_loop malloc mems head new (pk_next p) pk
        })
     }"

definition stream_clone :: "allocator \<Rightarrow> (addr \<times> stream) option list \<Rightarrow> ptr \<Rightarrow> packets \<Rightarrow> (ptr \<times> packets) option" where
  "stream_clone malloc mems frm pk = clone_loop malloc mems None None frm pk"

section \<open>The fifo as a list\<close>

definition pk_nxt :: "packets \<Rightarrow> addr \<Rightarrow> ptr option" where
  "pk_nxt pk a = map_option pk_next (pk a)"

definition fifo_rep :: "stream_fifo \<Rightarrow> packets \<Rightarrow> addr list \<Rightarrow> bool" where
  "fifo_rep fifo pk as \<longleftrightarrow> path (pk_nxt pk) (f_head fifo) as \<and>
     f_tail fifo = (if as = [] then None else Some (last as)) \<and> f_count fifo = of_nat (length as)"

lemma fifo_new_rep: "fifo_rep stream_fifo_new pk []"
  by (simp add: fifo_rep_def stream_fifo_new_def)

lemma fifo_live: "fifo_rep fifo pk as \<Longrightarrow> a \<in> set as \<Longrightarrow> \<exists>p. pk a = Some p"
  by (fastforce simp: fifo_rep_def pk_nxt_def dest: path_live)

lemma fifo_push_rep:
  assumes rep: "fifo_rep fifo pk as" and s: "pk s = Some p" "pk_next p = None" "s \<notin> set as"
  shows "\<exists>fifo' pk'. stream_fifo_push fifo s pk = Some (fifo', pk') \<and> fifo_rep fifo' pk' (as @ [s]) \<and>
    (\<forall>a. map_option pk_s (pk' a) = map_option pk_s (pk a)) \<and> (\<forall>a. a \<notin> set as \<longrightarrow> pk' a = pk a)"
proof (cases "as = []")
  case True
  then show ?thesis
    using rep s by (auto simp: stream_fifo_push_def fifo_rep_def pk_nxt_def)
next
  case False
  then obtain q where q: "pk (last as) = Some q"
    using fifo_live [OF rep last_in_set] by blast
  let ?pk = "pk(last as \<mapsto> q\<lparr>pk_next := Some s\<rparr>)"
  have "path (pk_nxt ?pk) (f_head fifo) (as @ [s])"
    using path_snoc [of "pk_nxt pk" "f_head fifo" as s "pk_nxt ?pk"] rep s False
    by (simp add: fifo_rep_def pk_nxt_def)
  then show ?thesis
    using rep q False by (auto simp: stream_fifo_push_def fifo_rep_def)
qed

lemma fifo_pop_rep:
  assumes "fifo_rep fifo pk (a # as)"
  shows "\<exists>fifo'. stream_fifo_pop fifo pk = Some (Some a, fifo') \<and> fifo_rep fifo' pk as"
proof -
  from assms obtain p where p: "pk a = Some p" "path (pk_nxt pk) (pk_next p) as" "f_head fifo = Some a"
    by (auto simp: fifo_rep_def pk_nxt_def)
  have "pk_next p = None \<longleftrightarrow> as = []"
    using p(2) by (cases as) auto
  then show ?thesis
    using p assms by (auto simp: stream_fifo_pop_def fifo_rep_def)
qed

text \<open>As a queue: header and store together. The chain is what clients rely on; the count is kept apart,
  because popping an empty fifo decrements it.\<close>

definition fifo_chain :: "stream_fifo \<times> packets \<Rightarrow> addr list" where
  "fifo_chain x = (THE as. path (pk_nxt (snd x)) (f_head (fst x)) as)"

definition fifo_linked :: "stream_fifo \<times> packets \<Rightarrow> bool" where
  "fifo_linked x \<longleftrightarrow> path (pk_nxt (snd x)) (f_head (fst x)) (fifo_chain x) \<and>
     f_tail (fst x) = (if fifo_chain x = [] then None else Some (last (fifo_chain x)))"

definition fifo_ok :: "stream_fifo \<times> packets \<Rightarrow> addr \<Rightarrow> bool" where
  "fifo_ok x s \<longleftrightarrow> pk_nxt (snd x) s = Some None \<and> s \<notin> set (fifo_chain x)"

definition fifo_enq :: "stream_fifo \<times> packets \<Rightarrow> addr \<Rightarrow> (stream_fifo \<times> packets) option" where
  "fifo_enq x s = stream_fifo_push (fst x) s (snd x)"

definition fifo_deq :: "stream_fifo \<times> packets \<Rightarrow> (ptr \<times> stream_fifo \<times> packets) option" where
  "fifo_deq x = map_option (\<lambda>(s, fifo). (s, fifo, snd x)) (stream_fifo_pop (fst x) (snd x))"

lemma fifo_chain_eq: "path (pk_nxt pk) (f_head fifo) as \<Longrightarrow> fifo_chain (fifo, pk) = as"
  unfolding fifo_chain_def by (rule the_equality) (auto dest: path_det)

lemma fifo_linkedI:
  "path (pk_nxt pk) (f_head fifo) as \<Longrightarrow> f_tail fifo = (if as = [] then None else Some (last as)) \<Longrightarrow>
     fifo_linked (fifo, pk) \<and> fifo_chain (fifo, pk) = as"
  by (simp add: fifo_linked_def fifo_chain_eq)

text \<open>A linked header with the right count represents its chain.\<close>

lemma fifo_linked_rep:
  "fifo_linked (fifo, pk) \<Longrightarrow> fifo_rep (fifo\<lparr>f_count := of_nat (length (fifo_chain (fifo, pk)))\<rparr>) pk (fifo_chain (fifo, pk))"
  by (simp add: fifo_linked_def fifo_rep_def)

lemma fifo_rep_linked: "fifo_rep fifo pk as \<Longrightarrow> fifo_linked (fifo\<lparr>f_count := n\<rparr>, pk) \<and> fifo_chain (fifo\<lparr>f_count := n\<rparr>, pk) = as"
  by (rule fifo_linkedI) (simp_all add: fifo_rep_def)

lemma push_count:
  "stream_fifo_push (fifo\<lparr>f_count := n\<rparr>) s pk =
     map_option (\<lambda>(fifo, pk). (fifo\<lparr>f_count := n + 1\<rparr>, pk)) (stream_fifo_push fifo s pk)"
  by (cases "f_tail fifo"; cases "pk (the (f_tail fifo))") (auto simp: stream_fifo_push_def)

lemma pop_count:
  "stream_fifo_pop (fifo\<lparr>f_count := n\<rparr>) pk =
     map_option (\<lambda>(s, fifo). (s, fifo\<lparr>f_count := n - 1\<rparr>)) (stream_fifo_pop fifo pk)"
  by (cases "f_head fifo"; cases "pk (the (f_head fifo))") (auto simp: stream_fifo_pop_def Let_def)

interpretation pfifo: fifo_queue fifo_linked fifo_chain fifo_ok fifo_enq fifo_deq
proof
  fix x :: "stream_fifo \<times> packets" and s
  assume x: "fifo_linked x" "fifo_ok x s"
  obtain fifo pk where xp: "x = (fifo, pk)"
    by (cases x)
  let ?n = "of_nat (length (fifo_chain x))"
  from x(2) xp obtain p where p: "pk s = Some p" "pk_next p = None" "s \<notin> set (fifo_chain x)"
    by (auto simp: fifo_ok_def pk_nxt_def)
  from fifo_push_rep [OF fifo_linked_rep [OF x(1) [unfolded xp]] p(1,2) p(3) [unfolded xp]] obtain fifo' pk' where
    push: "stream_fifo_push (fifo\<lparr>f_count := of_nat (length (fifo_chain (fifo, pk)))\<rparr>) s pk = Some (fifo', pk')"
      "fifo_rep fifo' pk' (fifo_chain (fifo, pk) @ [s])"
    by blast
  from push(1) obtain fifo1 where f1: "stream_fifo_push fifo s pk = Some (fifo1, pk')"
    "fifo' = fifo1\<lparr>f_count := of_nat (length (fifo_chain (fifo, pk))) + 1\<rparr>"
    unfolding push_count by auto
  have "fifo1 = fifo'\<lparr>f_count := f_count fifo1\<rparr>"
    using f1(2) by simp
  then show "\<exists>q'. fifo_enq x s = Some q' \<and> fifo_linked q' \<and> fifo_chain q' = fifo_chain x @ [s]"
    using fifo_rep_linked [OF push(2), of "f_count fifo1"] f1(1) xp by (auto simp: fifo_enq_def)
next
  fix x :: "stream_fifo \<times> packets"
  assume x: "fifo_linked x" "fifo_chain x = []"
  obtain fifo pk where xp: "x = (fifo, pk)"
    by (cases x)
  then have "f_head fifo = None" "f_tail fifo = None"
    using x by (auto simp: fifo_linked_def)
  then show "\<exists>q'. fifo_deq x = Some (None, q') \<and> fifo_linked q' \<and> fifo_chain q' = []"
    using fifo_linkedI [of pk "fifo\<lparr>f_count := f_count fifo - 1\<rparr>" "[]"] xp
    by (auto simp: fifo_deq_def stream_fifo_pop_def)
next
  fix x :: "stream_fifo \<times> packets" and s as
  assume x: "fifo_linked x" "fifo_chain x = s # as"
  obtain fifo pk where xp: "x = (fifo, pk)"
    by (cases x)
  have "fifo_rep (fifo\<lparr>f_count := of_nat (length (s # as))\<rparr>) pk (s # as)"
    using fifo_linked_rep [of fifo pk] x xp by simp
  from fifo_pop_rep [OF this] obtain fifo' where
    pop: "stream_fifo_pop (fifo\<lparr>f_count := of_nat (length (s # as))\<rparr>) pk = Some (Some s, fifo')" "fifo_rep fifo' pk as"
    by blast
  from pop(1) obtain fifo1 where f1: "stream_fifo_pop fifo pk = Some (Some s, fifo1)"
    "fifo' = fifo1\<lparr>f_count := of_nat (length (s # as)) - 1\<rparr>"
    unfolding pop_count by auto
  have "fifo1 = fifo'\<lparr>f_count := f_count fifo1\<rparr>"
    using f1(2) by simp
  then show "\<exists>q'. fifo_deq x = Some (Some s, q') \<and> fifo_linked q' \<and> fifo_chain q' = as"
    using fifo_rep_linked [OF pop(2), of "f_count fifo1"] f1(1) xp by (auto simp: fifo_deq_def)
qed

lemma path_step:
  "path (pk_nxt pk) p (a # as) \<Longrightarrow> \<exists>q. p = Some a \<and> pk a = Some q \<and> path (pk_nxt pk) (pk_next q) as"
  by (cases "pk a") (auto simp: pk_nxt_def [of pk a])

lemma clean_loop_path:
  "path (pk_nxt pk) p as \<Longrightarrow> clean_loop p pk = Some (\<lambda>a. if a \<in> set as then None else pk a)"
proof (induction as arbitrary: p pk)
  case (Cons a as)
  from Cons.prems obtain q where q: "p = Some a" "pk a = Some q" "path (pk_nxt pk) (pk_next q) as"
    using path_step by blast
  have "a \<notin> set as"
    using path_distinct [OF Cons.prems] by simp
  then have "pk_nxt (pk(a := None)) b = pk_nxt pk b" if "b \<in> set as" for b
    using that by (auto simp: pk_nxt_def)
  from path_cong [OF this] q(3) have "path (pk_nxt (pk(a := None))) (pk_next q) as"
    by simp
  moreover have eq: "(\<lambda>b. if b \<in> set as then None else (pk(a := None)) b) = (\<lambda>b. if b \<in> set (a # as) then None else pk b)"
    by auto
  ultimately have "clean_loop (pk_next q) (pk(a := None)) = Some (\<lambda>b. if b \<in> set (a # as) then None else pk b)"
    by (subst eq [symmetric]) (rule Cons.IH)
  then show ?case
    using q(1,2) by (subst clean_loop.simps) (simp add: stream_free_def)
qed (simp add: clean_loop.simps)

lemma count_loop_path:
  "path (pk_nxt pk) p as \<Longrightarrow> n + int (length as) \<le> INT_MAX \<Longrightarrow> count_loop n p pk = Some (n + int (length as))"
proof (induction as arbitrary: p n)
  case (Cons a as)
  from Cons.prems obtain q where q: "p = Some a" "pk a = Some q" "path (pk_nxt pk) (pk_next q) as"
    using path_step by blast
  then show ?case
    using Cons.IH [of "pk_next q" "n + 1"] Cons.prems by (subst count_loop.simps) auto
qed (simp add: count_loop.simps)

section \<open>Properties\<close>

text \<open>C23: A packet fifo hands out the packets in the order they were added. For every sequence of pushes of
  live, unlinked packets and pops from a new fifo, the packets popped so far followed by the chain
  are the packets pushed.\<close>

theorem fifo_order_kept:
  "\<exists>out x. fifo_queue.run_queue fifo_ok fifo_enq fifo_deq cs (stream_fifo_new, pk) [] = Some (out, x) \<and>
     fifo_linked x \<and> out @ fifo_chain x = fifo_queue.added fifo_ok fifo_enq fifo_deq cs (stream_fifo_new, pk)"
proof -
  have "fifo_linked (stream_fifo_new, pk) \<and> fifo_chain (stream_fifo_new, pk) = []"
    by (rule fifo_linkedI) (simp_all add: stream_fifo_new_def)
  then show ?thesis
    using pfifo.fifo_order [of "(stream_fifo_new, pk)" cs "[]"] by auto
qed

text \<open>C24: \<open>stream_fifo_clean\<close> ends, frees exactly the packets of the fifo and leaves it empty.\<close>

theorem fifo_clean_frees:
  assumes "fifo_rep fifo pk as"
  shows "\<exists>fifo'. stream_fifo_clean fifo pk = Some (fifo', \<lambda>a. if a \<in> set as then None else pk a) \<and>
    fifo_rep fifo' (\<lambda>a. if a \<in> set as then None else pk a) []"
  using assms clean_loop_path [of pk "f_head fifo" as]
  by (auto simp: stream_fifo_clean_def fifo_rep_def)

theorem fifo_clean_frees_witness:
  "\<exists>fifo'. stream_fifo_clean \<lparr>f_count = 1, f_head = Some 3, f_tail = Some 3\<rparr>
       [3 \<mapsto> \<lparr>pk_next = None, pk_s = blank_stream 4\<rparr>] =
     Some (fifo', \<lambda>a. if a \<in> set [3] then None else [3 \<mapsto> \<lparr>pk_next = None, pk_s = blank_stream 4\<rparr>] a)"
  using fifo_clean_frees [of "\<lparr>f_count = 1, f_head = Some 3, f_tail = Some 3\<rparr>"
      "[3 \<mapsto> \<lparr>pk_next = None, pk_s = blank_stream 4\<rparr>]" "[3]"]
  by (auto simp: fifo_rep_def pk_nxt_def)

text \<open>Popping an empty fifo returns NULL but still decrements the count, which wraps to the largest
  \<open>size_t\<close>.\<close>

theorem fifo_pop_empty_wraps:
  "\<exists>fifo. stream_fifo_pop stream_fifo_new pk = Some (None, fifo) \<and> unat (f_count fifo) = 18446744073709551615"
  by (simp add: stream_fifo_pop_def stream_fifo_new_def unsigned_minus_1_eq_mask mask_eq_exp_minus_1)

end
