(* ===== verification/Hash.thy ===== *)
theory Hash
  imports Prelude "HOL-Library.Multiset"
begin

text \<open>
  The chained hash table of \<open>misaka/lib/hash.c\<close>. A bucket chain is the list of its entries in link
  order: \<open>hash_get\<close> pushes at the front, \<open>hash_release\<close> takes one entry out. The callbacks are fields of
  the table, as in \<open>struct hash\<close>. \<open>None\<close> is a division by a size of 0 or a failed allocation, which the
  code does not check; the result of the allocation of a new entry is the argument \<open>mem\<close>.
\<close>

section \<open>State and operations\<close>

record 'd hash_backet =
  hb_key :: u32
  hb_data :: 'd

record 'd hash =
  h_index :: "'d hash_backet list list"
  h_size :: u32
  h_hash_key :: "'d \<Rightarrow> u32"
  h_hash_cmp :: "'d \<Rightarrow> 'd \<Rightarrow> int"
  h_count :: u64

abbreviation (input) HASHTABSIZE :: u32 where "HASHTABSIZE \<equiv> 1024 * 10"

text \<open>The byte size of the index goes through an \<open>int\<close> parameter.\<close>

definition hash_create_size :: "u32 \<Rightarrow> ('d \<Rightarrow> u32) \<Rightarrow> ('d \<Rightarrow> 'd \<Rightarrow> int) \<Rightarrow> 'd hash option" where
  "hash_create_size sz hash_key hash_cmp =
     (if 8 * uint sz \<le> INT_MAX then
        Some \<lparr>h_index = replicate (unat sz) [], h_size = sz, h_hash_key = hash_key, h_hash_cmp = hash_cmp, h_count = 0\<rparr>
      else None)"

definition hash_create :: "('d \<Rightarrow> u32) \<Rightarrow> ('d \<Rightarrow> 'd \<Rightarrow> int) \<Rightarrow> 'd hash option" where
  "hash_create hash_key hash_cmp = hash_create_size HASHTABSIZE hash_key hash_cmp"

definition hash_alloc_intern :: "'d \<Rightarrow> 'd option" where
  "hash_alloc_intern arg = Some arg"

text \<open>The test of the search loops, and the chain of a key.\<close>

definition hit :: "'d hash \<Rightarrow> 'd \<Rightarrow> 'd hash_backet \<Rightarrow> bool" where
  "hit h d b \<longleftrightarrow> hb_key b = h_hash_key h d \<and> h_hash_cmp h (hb_data b) d \<noteq> 0"

definition bucket_index :: "'d hash \<Rightarrow> 'd \<Rightarrow> nat option" where
  "bucket_index h d =
     (if h_size h = 0 then None
      else (let index = unat (h_hash_key h d mod h_size h) in
            if index < length (h_index h) then Some index else None))"

definition hash_get :: "bool \<Rightarrow> 'd hash \<Rightarrow> 'd \<Rightarrow> ('d \<Rightarrow> 'd option) option \<Rightarrow> ('d option \<times> 'd hash) option" where
  "hash_get mem h d alloc_func =
     do {
       index \<leftarrow> bucket_index h d;
       (case List.find (hit h d) (h_index h ! index) of
          Some b \<Rightarrow> Some (Some (hb_data b), h)
        | None \<Rightarrow>
            (case alloc_func of
               None \<Rightarrow> Some (None, h)
             | Some f \<Rightarrow>
                 (case f d of
                    None \<Rightarrow> Some (None, h)
                  | Some newdata \<Rightarrow>
                      if mem then
                        Some (Some newdata,
                          h\<lparr>h_index := (h_index h)[index := \<lparr>hb_key = h_hash_key h d, hb_data = newdata\<rparr> # h_index h ! index],
                            h_count := h_count h + 1\<rparr>)
                      else None)))
     }"

definition hash_lookup :: "'d hash \<Rightarrow> 'd \<Rightarrow> 'd option option" where
  "hash_lookup h d = map_option fst (hash_get True h d None)"

text \<open>\<open>char\<close> is signed: a byte above 127 is sign-extended. A string ends at its first zero byte; running
  off the end of the buffer is undefined.\<close>

fun string_hash_loop :: "u32 \<Rightarrow> byte list \<Rightarrow> u32 option" where
  "string_hash_loop hsh [] = None"
| "string_hash_loop hsh (c # str) = (if c = 0 then Some hsh else string_hash_loop ((hsh * 33) XOR scast c) str)"

definition string_hash_make :: "byte list \<Rightarrow> u32 option" where
  "string_hash_make str = string_hash_loop 0 str"

text \<open>The loop of \<open>hash_release\<close> with its trailing pointer: the entry that is unlinked, and the chain
  without it.\<close>

fun unlink_first :: "('b \<Rightarrow> bool) \<Rightarrow> 'b list \<Rightarrow> ('b \<times> 'b list) option" where
  "unlink_first P [] = None"
| "unlink_first P (b # bs) =
     (if P b then Some (b, bs) else map_option (\<lambda>(r, bs'). (r, b # bs')) (unlink_first P bs))"

definition hash_release :: "'d hash \<Rightarrow> 'd \<Rightarrow> ('d option \<times> 'd hash) option" where
  "hash_release h d =
     do {
       index \<leftarrow> bucket_index h d;
       (case unlink_first (hit h d) (h_index h ! index) of
          None \<Rightarrow> Some (None, h)
        | Some (b, bs) \<Rightarrow> Some (Some (hb_data b), h\<lparr>h_index := (h_index h)[index := bs], h_count := h_count h - 1\<rparr>))
     }"

text \<open>\<open>hash_iterate\<close> calls the function on every entry, chain by chain; the callback's effect is on the
  state \<open>s\<close> of its caller.\<close>

definition hash_iterate :: "'d hash \<Rightarrow> ('d hash_backet \<Rightarrow> 's \<Rightarrow> 's) \<Rightarrow> 's \<Rightarrow> 's option" where
  "hash_iterate h func s =
     (if unat (h_size h) \<le> length (h_index h)
      then Some (fold func (concat (take (unat (h_size h)) (h_index h))) s) else None)"

text \<open>\<open>hash_clean\<close>: the data handed to the free function, if there is one, and the emptied table.\<close>

definition hash_clean :: "'d hash \<Rightarrow> bool \<Rightarrow> ('d list \<times> 'd hash) option" where
  "hash_clean h free_func =
     (if unat (h_size h) \<le> length (h_index h) then
        (let entries = concat (take (unat (h_size h)) (h_index h)) in
         Some (if free_func then map hb_data entries else [],
           h\<lparr>h_index := replicate (unat (h_size h)) [] @ drop (unat (h_size h)) (h_index h),
             h_count := h_count h - of_nat (length entries)\<rparr>))
      else None)"

section \<open>The table as a map\<close>

lemma mset_concat_update:
  "i < length xss \<Longrightarrow> mset (concat (xss[i := ys])) + mset (xss ! i) = mset (concat xss) + mset ys"
proof (induction xss arbitrary: i)
  case (Cons xs xss)
  then show ?case
    by (cases i) (auto simp: ac_simps)
qed simp

lemma mset_move_out:
  "X + Y = C + R \<Longrightarrow> Y = add_mset b R \<Longrightarrow> add_mset b X = (C :: 'a multiset)"
  by (metis add_right_cancel union_mset_add_mset_left union_mset_add_mset_right)

lemma map_ext_Some: "(\<And>k x. f k = Some x \<longleftrightarrow> g k = Some x) \<Longrightarrow> f = (g :: 'k \<Rightarrow> 'v option)"
  by (rule ext) (metis not_None_eq)

lemma find_SomeD: "List.find P bs = Some b \<Longrightarrow> P b \<and> b \<in> set bs"
  by (auto simp: find_Some_iff)

lemma find_unlink:
  "unlink_first P bs = (case List.find P bs of None \<Rightarrow> None | Some b \<Rightarrow> Some (b, remove1 b bs))"
  by (induction bs) (auto dest: find_SomeD split: option.split)

text \<open>What the table asks of its callbacks: they see only an identity of the data. Under this contract the
  table is a map from identities to data.\<close>

locale hash_client =
  fixes key :: "'d \<Rightarrow> u32" and cmp :: "'d \<Rightarrow> 'd \<Rightarrow> int" and ident :: "'d \<Rightarrow> 'k"
  assumes cmp_ident: "cmp x y \<noteq> 0 \<longleftrightarrow> ident x = ident y"
    and key_ident: "ident x = ident y \<Longrightarrow> key x = key y"
begin

definition entries :: "'d hash \<Rightarrow> 'd hash_backet list" where
  "entries h = concat (h_index h)"

definition abs_map :: "'d hash \<Rightarrow> 'k \<Rightarrow> 'd option" where
  "abs_map h = map_of (map (\<lambda>b. (ident (hb_data b), hb_data b)) (entries h))"

definition hash_wf :: "'d hash \<Rightarrow> bool" where
  "hash_wf h \<longleftrightarrow> h_hash_key h = key \<and> h_hash_cmp h = cmp \<and> h_size h \<noteq> 0 \<and>
     length (h_index h) = unat (h_size h) \<and>
     (\<forall>i<length (h_index h). \<forall>b\<in>set (h_index h ! i).
        hb_key b = key (hb_data b) \<and> unat (key (hb_data b) mod h_size h) = i) \<and>
     distinct (map (\<lambda>b. ident (hb_data b)) (entries h)) \<and>
     h_count h = of_nat (length (entries h))"

lemma wf_bucket:
  assumes "hash_wf h"
  shows "bucket_index h d = Some (unat (key d mod h_size h))" "unat (key d mod h_size h) < length (h_index h)"
proof -
  have "unat (key d mod h_size h) < unat (h_size h)"
    using assms by (simp add: hash_wf_def unat_mod_distrib unat_gt_0)
  then show "bucket_index h d = Some (unat (key d mod h_size h))" "unat (key d mod h_size h) < length (h_index h)"
    using assms by (simp_all add: hash_wf_def bucket_index_def)
qed

lemma in_entries: "b \<in> set (entries h) \<longleftrightarrow> (\<exists>i<length (h_index h). b \<in> set (h_index h ! i))"
  by (simp add: entries_def) (metis in_set_conv_nth)

lemma wf_entry:
  assumes "hash_wf h" "b \<in> set (entries h)"
  shows "hb_key b = key (hb_data b)" "b \<in> set (h_index h ! unat (key (hb_data b) mod h_size h))"
  using assms by (auto simp: hash_wf_def in_entries)

lemma wf_hit:
  assumes "hash_wf h" "b \<in> set (entries h)"
  shows "hit h d b \<longleftrightarrow> ident (hb_data b) = ident d"
  using assms(1) wf_entry(1) [OF assms] key_ident [of "hb_data b" d] cmp_ident [of "hb_data b" d]
  by (auto simp: hash_wf_def hit_def)

lemma wf_place:
  assumes "hash_wf h" "b \<in> set (entries h)" "ident (hb_data b) = ident d"
  shows "b \<in> set (h_index h ! unat (key d mod h_size h))"
  using wf_entry [OF assms(1,2)] key_ident [OF assms(3)] by simp

lemma bucket_entries: "i < length (h_index h) \<Longrightarrow> b \<in> set (h_index h ! i) \<Longrightarrow> b \<in> set (entries h)"
  by (auto simp: entries_def)

lemma abs_map_Some:
  assumes "hash_wf h"
  shows "abs_map h k = Some x \<longleftrightarrow> (\<exists>b\<in>set (entries h). ident (hb_data b) = k \<and> hb_data b = x)"
proof -
  have "distinct (map fst (map (\<lambda>b. (ident (hb_data b), hb_data b)) (entries h)))"
    using assms by (simp add: hash_wf_def comp_def)
  then have "abs_map h k = Some x \<longleftrightarrow> (k, x) \<in> set (map (\<lambda>b. (ident (hb_data b), hb_data b)) (entries h))"
    unfolding abs_map_def by (metis map_of_eq_Some_iff)
  then show ?thesis
    by auto
qed

lemma find_bucket:
  assumes "hash_wf h"
  shows "map_option hb_data (List.find (hit h d) (h_index h ! unat (key d mod h_size h))) = abs_map h (ident d)"
proof (cases "List.find (hit h d) (h_index h ! unat (key d mod h_size h))")
  case None
  then have "\<nexists>b. b \<in> set (entries h) \<and> ident (hb_data b) = ident d"
    using wf_hit [OF assms] wf_place [OF assms] by (metis find_None_iff)
  then show ?thesis
    using abs_map_Some [OF assms] None by (metis not_None_eq option.simps(8))
next
  case (Some b)
  then have "hit h d b" "b \<in> set (h_index h ! unat (key d mod h_size h))"
    by (auto simp: find_Some_iff)
  then show ?thesis
    using wf_hit [OF assms] bucket_entries [OF wf_bucket(2) [OF assms]] abs_map_Some [OF assms] Some
    by (metis option.simps(9))
qed

text \<open>\<open>hash_lookup\<close> reads the map.\<close>

lemma lookup_law: "hash_wf h \<Longrightarrow> hash_lookup h d = Some (abs_map h (ident d))"
  using find_bucket [of h d]
  by (auto simp: hash_lookup_def hash_get_def wf_bucket split: option.split)

lemma get_present_law:
  assumes "hash_wf h" "abs_map h (ident d) = Some x"
  shows "hash_get mem h d f = Some (Some x, h)"
  using find_bucket [OF assms(1), of d] assms
  by (auto simp: hash_get_def wf_bucket split: option.split)

lemma get_absent_law:
  assumes "hash_wf h" "abs_map h (ident d) = None" "f d = None"
  shows "hash_get mem h d (Some f) = Some (None, h)"
  using find_bucket [OF assms(1), of d] assms
  by (auto simp: hash_get_def wf_bucket split: option.split)

lemma wf_replace:
  assumes wf: "hash_wf h" and i: "i < length (h_index h)"
    and ys: "\<And>b. b \<in> set ys \<Longrightarrow> hb_key b = key (hb_data b) \<and> unat (key (hb_data b) mod h_size h) = i"
    and dist: "distinct (map (\<lambda>b. ident (hb_data b)) (concat ((h_index h)[i := ys])))"
    and n: "n = of_nat (length (concat ((h_index h)[i := ys])))"
  shows "hash_wf (h\<lparr>h_index := (h_index h)[i := ys], h_count := n\<rparr>)"
proof -
  have "hb_key b = key (hb_data b) \<and> unat (key (hb_data b) mod h_size h) = j"
    if "j < length (h_index h)" "b \<in> set ((h_index h)[i := ys] ! j)" for j b
    using that ys wf i by (cases "j = i") (auto simp: hash_wf_def)
  then show ?thesis
    using wf dist n by (simp add: hash_wf_def entries_def)
qed

lemma get_insert_law:
  assumes wf: "hash_wf h" and absent: "abs_map h (ident d) = None" and new: "f d = Some y" "ident y = ident d"
  shows "\<exists>h'. hash_get True h d (Some f) = Some (Some y, h') \<and> hash_wf h' \<and> abs_map h' = (abs_map h)(ident d \<mapsto> y)"
proof -
  let ?i = "unat (key d mod h_size h)" and ?b = "\<lparr>hb_key = key d, hb_data = y\<rparr>"
  let ?h = "h\<lparr>h_index := (h_index h)[?i := ?b # h_index h ! ?i], h_count := h_count h + 1\<rparr>"
  have i: "?i < length (h_index h)"
    by (rule wf_bucket(2) [OF wf])
  have "List.find (hit h d) (h_index h ! ?i) = None" "h_hash_key h = key"
    using find_bucket [OF wf, of d] absent wf by (simp_all add: hash_wf_def)
  then have get: "hash_get True h d (Some f) = Some (Some y, ?h)"
    using new by (simp add: hash_get_def wf_bucket [OF wf])
  have ms: "mset (entries ?h) = mset (?b # entries h)"
    using mset_concat_update [OF i, of "?b # h_index h ! ?i"] by (simp add: entries_def)
  then have set: "set (entries ?h) = insert ?b (set (entries h))"
    by (metis list.simps(15) set_mset_mset)
  have "abs_map h (ident (hb_data b)) \<noteq> None" if "b \<in> set (entries h)" for b
    using abs_map_Some [OF wf, of "ident (hb_data b)" "hb_data b"] that by auto
  then have ne: "ident (hb_data b) \<noteq> ident d" if "b \<in> set (entries h)" for b
    using absent that by metis
  then have "distinct (map (\<lambda>b. ident (hb_data b)) (?b # entries h))"
    using wf new(2) by (simp add: hash_wf_def) (metis (mono_tags, lifting) imageE)
  moreover have "mset (map (\<lambda>b. ident (hb_data b)) (entries ?h)) = mset (map (\<lambda>b. ident (hb_data b)) (?b # entries h))"
    using ms by (simp only: mset_map)
  ultimately have dist: "distinct (map (\<lambda>b. ident (hb_data b)) (entries ?h))"
    using mset_eq_imp_distinct_iff by blast
  have "length (entries ?h) = Suc (length (entries h))"
    using ms by (metis length_Cons mset_eq_length)
  then have "h_count h + 1 = of_nat (length (entries ?h))"
    using wf by (simp add: hash_wf_def)
  moreover have "hb_key b = key (hb_data b) \<and> unat (key (hb_data b) mod h_size h) = ?i"
    if "b \<in> set (?b # h_index h ! ?i)" for b
    using that wf i key_ident [OF new(2)] by (auto simp: hash_wf_def)
  ultimately have wf': "hash_wf ?h"
    using dist by (intro wf_replace [OF wf i]) (simp_all add: entries_def)
  have "abs_map ?h = (abs_map h)(ident d \<mapsto> y)"
    by (rule map_ext_Some)
      (use ne in \<open>auto simp: abs_map_Some [OF wf'] abs_map_Some [OF wf] set new(2) map_upd_Some_unfold\<close>)
  then show ?thesis
    using get wf' by blast
qed

text \<open>\<open>hash_release\<close> removes the entry and returns its data.\<close>

lemma release_law:
  assumes wf: "hash_wf h"
  shows "\<exists>h'. hash_release h d = Some (abs_map h (ident d), h') \<and> hash_wf h' \<and> abs_map h' = (abs_map h)(ident d := None)"
proof (cases "List.find (hit h d) (h_index h ! unat (key d mod h_size h))")
  case None
  then have "abs_map h (ident d) = None"
    using find_bucket [OF wf, of d] by simp
  then show ?thesis
    using None wf by (auto simp: hash_release_def wf_bucket find_unlink fun_upd_idem)
next
  case (Some b)
  let ?i = "unat (key d mod h_size h)"
  let ?h = "h\<lparr>h_index := (h_index h)[?i := remove1 b (h_index h ! ?i)], h_count := h_count h - 1\<rparr>"
  have i: "?i < length (h_index h)"
    by (rule wf_bucket(2) [OF wf])
  have b: "b \<in> set (h_index h ! ?i)" "ident (hb_data b) = ident d" "abs_map h (ident d) = Some (hb_data b)"
    using find_SomeD [OF Some] wf_hit [OF wf bucket_entries [OF i]] find_bucket [OF wf, of d] Some by auto
  have rel: "hash_release h d = Some (Some (hb_data b), ?h)"
    using Some by (simp add: hash_release_def wf_bucket [OF wf] find_unlink)
  have "mset (h_index h ! ?i) = add_mset b (mset (remove1 b (h_index h ! ?i)))"
    using b(1) by simp
  from mset_move_out [OF mset_concat_update [OF i] this]
  have ms: "mset (b # entries ?h) = mset (entries h)"
    by (simp add: entries_def)
  then have "mset (map (\<lambda>b. ident (hb_data b)) (b # entries ?h)) = mset (map (\<lambda>b. ident (hb_data b)) (entries h))"
    by (simp only: mset_map)
  from mset_eq_imp_distinct_iff [OF this] have dist: "distinct (map (\<lambda>b. ident (hb_data b)) (b # entries ?h))"
    using wf by (simp add: hash_wf_def)
  have set: "set (entries h) = insert b (set (entries ?h))"
    using ms by (metis list.simps(15) set_mset_mset)
  have "length (entries h) = Suc (length (entries ?h))"
    using ms by (metis length_Cons mset_eq_length)
  then have "h_count h - 1 = of_nat (length (entries ?h))"
    using wf by (simp add: hash_wf_def entries_def)
  moreover have "hb_key c = key (hb_data c) \<and> unat (key (hb_data c) mod h_size h) = ?i"
    if "c \<in> set (remove1 b (h_index h ! ?i))" for c
    using set_remove1_subset [of b "h_index h ! ?i"] that wf i unfolding hash_wf_def by blast
  ultimately have wf': "hash_wf ?h"
    using dist by (intro wf_replace [OF wf i]) (simp_all add: entries_def)
  have "ident (hb_data c) \<noteq> ident d" if "c \<in> set (entries ?h)" for c
    using dist that b(2) by (metis (no_types, lifting) distinct.simps(2) image_eqI list.set_map list.simps(9))
  then have "abs_map ?h = (abs_map h)(ident d := None)"
    by (intro map_ext_Some)
      (use b(2) in \<open>auto simp: abs_map_Some [OF wf'] abs_map_Some [OF wf] set\<close>)
  then show ?thesis
    using rel wf' b(3) by auto
qed

text \<open>A new table is the empty map, and \<open>hash_clean\<close> hands out every entry once and leaves the empty
  map.\<close>

lemma create_law:
  assumes "hash_create_size n key cmp = Some h" "n \<noteq> 0"
  shows "hash_wf h" "abs_map h = Map.empty"
proof -
  have e: "concat (replicate m []) = []" for m
    by (induction m) simp_all
  show "hash_wf h" "abs_map h = Map.empty"
    using assms e by (auto simp: hash_create_size_def hash_wf_def abs_map_def entries_def split: if_splits)
qed

lemma clean_law:
  assumes "hash_wf h"
  shows "\<exists>h'. hash_clean h True = Some (map hb_data (entries h), h') \<and> hash_wf h' \<and> abs_map h' = Map.empty"
proof -
  have e: "concat (replicate m []) = []" for m
    by (induction m) simp_all
  show ?thesis
    using assms e by (auto simp: hash_clean_def hash_wf_def abs_map_def entries_def Let_def)
qed

lemma count_law: "hash_wf h \<Longrightarrow> finite (dom (abs_map h)) \<and> card (dom (abs_map h)) = length (entries h)"
proof -
  assume wf: "hash_wf h"
  have "dom (abs_map h) = set (map (\<lambda>b. ident (hb_data b)) (entries h))"
    by (auto simp: abs_map_def dom_map_of_conv_image_fst image_iff)
  moreover have "distinct (map (\<lambda>b. ident (hb_data b)) (entries h))"
    using wf by (simp add: hash_wf_def)
  ultimately show ?thesis
    using distinct_card by fastforce
qed

end

end
