(* ===== verification/Peer.thy ===== *)
theory Peer
  imports Fifo Hash
begin

text \<open>
  Peers, the ends of the links: \<open>struct peer\<close> of \<open>misaka/include/misaka.h\<close> and the functions of
  \<open>misaka/lib/core.c\<close> that look at one peer only.

  The callbacks of a peer are enumerations of the functions the sources assign to them; NULL is
  \<open>None\<close>. The read buffer and the output fifo belong to their peer alone and are kept inside it; the
  packets of the fifo are in the packet store. Fields that no code reads (\<open>id\<close> and the like, which
  only \<open>peer_dump\<close> prints) are left out, and so is \<open>loop\<close>: there is one event loop.
\<close>

section \<open>Enumerations\<close>

datatype tat = TAT_IDLE | TAT_ESTA | TAT_MAX

datatype misaka_mode = MODE_NONE | MODE_CONNECT | MODE_LISTEN | MODE_PASSIVE | MODE_MAX

datatype misaka_type = TYPE_NONE | TYPE_TCP | TYPE_UDP | TYPE_LUDP | TYPE_SDIO | TYPE_UART | TYPE_MAX

datatype io_tat = IO_ERROR | IO_CLOSE | IO_PASSIVE_CLOSE | IO_CHECK | IO_PACKET | IO_ACCEPT | IO_PARTIAL | IO_FULL | IO_CLEAN

text \<open>The functions a peer's callbacks can point to.\<close>

datatype start_fn = Start_tcp_connect | Start_tcp_listen | Start_tcp_passive | Start_udp_connect | Start_ludp_connect | Start_sdio_connect
datatype read_fn = Read_tcp | Read_tcp_accept | Read_udp | Read_ludp | Read_sdio
datatype write_fn = Write_tcp | Write_udp | Write_ludp | Write_sdio
datatype unpack_fn = Unpack_default | Unpack_normal
datatype pack_fn = Pack_default | Pack_normal
datatype parser_fn = Parser_normal

text \<open>A libev watcher as the program sees it: the number \<open>ev_is_active\<close> reads, the callback, the
  descriptor and the user pointer.\<close>

datatype ev_callback = CB_misaka_read | CB_misaka_write | CB_misaka_start_thread

record watcher =
  ev_active :: cint
  ev_cb :: "ev_callback option"
  ev_fd :: cint
  ev_data :: ptr

record sockaddr_un =
  sun_family :: u16
  sun_path :: "byte list"

section \<open>The peer\<close>

abbreviation (input) MISAKA_PATH_SIZE :: nat where "MISAKA_PATH_SIZE \<equiv> 128"
abbreviation (input) MISAKA_DEFAULT_CONNECT_RETRY :: u32 where "MISAKA_DEFAULT_CONNECT_RETRY \<equiv> 30"
abbreviation (input) PEER_OLD_TIME :: int where "PEER_OLD_TIME \<equiv> 15"
abbreviation (input) AF_UNIX :: u16 where "AF_UNIX \<equiv> 1"

record peer =
  p_peer :: ptr
  p_header_size :: cint
  p_body_size :: cint
  p_fd :: cint
  p_su :: sockunion
  p_dsu :: sockunion
  p_lsu :: sockaddr_un
  p_ldsu :: sockaddr_un
  p_path :: "byte list"
  p_old :: cint
  p_type :: misaka_type
  p_status :: tat
  p_mode :: misaka_mode
  p_role :: cint
  p_drole :: cint
  p_quick :: cint
  p_reconnect :: cint
  p_sys :: cint
  p_listens :: cint
  p_t_read :: "watcher option"
  p_t_write :: "watcher option"
  p_t_connect :: "watcher option"
  p_v_connect :: u32
  p_ibuf :: "stream option"
  p_obuf :: "stream_fifo option"
  p_maxcount :: cint
  p_start :: "start_fn option"
  p_write :: "write_fn option"
  p_read :: "read_fn option"
  p_unpack :: "unpack_fn option"
  p_pack :: "pack_fn option"
  p_parser :: "parser_fn option"
  p_disparser :: "parser_fn option"
  p_on_connect :: cint
  p_on_disconnect :: cint
  p_packet_size :: u64
  p_uptime :: int
  p_readtime :: int
  p_resettime :: int
  p_rcount :: cint
  p_scount :: cint

text \<open>The structure after \<open>memset\<close> with 0.\<close>

definition zero_un :: sockaddr_un where
  "zero_un = \<lparr>sun_family = 0, sun_path = replicate 108 0\<rparr>"

definition zero_peer :: peer where
  "zero_peer =
     \<lparr>p_peer = None, p_header_size = 0, p_body_size = 0, p_fd = 0, p_su = zero_sockunion, p_dsu = zero_sockunion,
      p_lsu = zero_un, p_ldsu = zero_un, p_path = replicate MISAKA_PATH_SIZE 0, p_old = 0, p_type = TYPE_NONE,
      p_status = TAT_IDLE, p_mode = MODE_NONE, p_role = 0, p_drole = 0, p_quick = 0, p_reconnect = 0, p_sys = 0,
      p_listens = 0, p_t_read = None, p_t_write = None, p_t_connect = None, p_v_connect = 0, p_ibuf = None,
      p_obuf = None, p_maxcount = 0, p_start = None, p_write = None, p_read = None, p_unpack = None, p_pack = None,
      p_parser = None, p_disparser = None, p_on_connect = 0, p_on_disconnect = 0, p_packet_size = 0, p_uptime = 0,
      p_readtime = 0, p_resettime = 0, p_rcount = 0, p_scount = 0\<rparr>"

type_synonym peers = "addr \<Rightarrow> peer option"

section \<open>Strings\<close>

text \<open>A C string in its segment, without the terminating NUL; reading on past the segment is
  undefined.\<close>

definition cstr :: "byte list \<Rightarrow> byte list option" where
  "cstr bs = (if 0 \<in> set bs then Some (takeWhile (\<lambda>c. c \<noteq> 0) bs) else None)"

text \<open>\<open>snprintf (buf, n, "%s", str)\<close> of the C library: at most \<open>n - 1\<close> characters and a NUL.\<close>

definition snprintf_s :: "byte list \<Rightarrow> nat \<Rightarrow> byte list \<Rightarrow> byte list option" where
  "snprintf_s buf n str = do {
     bs \<leftarrow> cstr str;
     wr_seg buf 0 (take (n - 1) bs @ [0])
   }"

section \<open>Functions of one peer\<close>

definition peer_default_unpack :: "stream \<Rightarrow> peer \<Rightarrow> io_tat" where
  "peer_default_unpack s p = IO_PACKET"

definition peer_default_pack :: "stream \<Rightarrow> peer \<Rightarrow> io_tat" where
  "peer_default_pack s p = IO_PACKET"

text \<open>\<open>gmtime\<close> splits the age into fields; \<open>tm_sec\<close> is its seconds modulo a minute.\<close>

definition peer_old_time :: "int \<Rightarrow> int \<Rightarrow> bool" where
  "peer_old_time now uptime2 \<longleftrightarrow> (now - uptime2) mod 60 > PEER_OLD_TIME"

definition peer_uptime_reset :: "int \<Rightarrow> peer \<Rightarrow> peer" where
  "peer_uptime_reset now p = p\<lparr>p_uptime := now\<rparr>"

text \<open>The callbacks of the peer table read the \<open>drole\<close> of the peers they point to.\<close>

definition drole_at :: "peers \<Rightarrow> addr \<Rightarrow> cint" where
  "drole_at ps a = (case ps a of Some p \<Rightarrow> p_drole p | None \<Rightarrow> 0)"

definition peer_cmp :: "peers \<Rightarrow> addr \<Rightarrow> addr \<Rightarrow> int" where
  "peer_cmp ps p1 p2 = (if drole_at ps p1 = drole_at ps p2 then 1 else 0)"

definition peer_key :: "peers \<Rightarrow> addr \<Rightarrow> u32" where
  "peer_key ps p = drole_at ps p"

definition peer_hashalloc_func :: "addr \<Rightarrow> addr option" where
  "peer_hashalloc_func d = Some d"

text \<open>The table with its callbacks bound to the memory they read, and the entries of a chain they
  dereference: those with the key, up to the first match. Reaching a freed peer is undefined.\<close>

definition bind_hash :: "peers \<Rightarrow> addr hash \<Rightarrow> addr hash" where
  "bind_hash ps h = h\<lparr>h_hash_key := peer_key ps, h_hash_cmp := peer_cmp ps\<rparr>"

fun probe_ok :: "peers \<Rightarrow> u32 \<Rightarrow> addr hash_backet list \<Rightarrow> bool" where
  "probe_ok ps k [] = True"
| "probe_ok ps k (b # bs) =
     (if hb_key b = k
      then (case ps (hb_data b) of None \<Rightarrow> False | Some p \<Rightarrow> p_drole p = k \<or> probe_ok ps k bs)
      else probe_ok ps k bs)"

definition probe :: "peers \<Rightarrow> addr hash \<Rightarrow> addr \<Rightarrow> unit option" where
  "probe ps h a =
     (case bucket_index (bind_hash ps h) a of
        Some i \<Rightarrow> if ps a \<noteq> None \<and> probe_ok ps (drole_at ps a) (h_index h ! i) then Some () else None
      | None \<Rightarrow> None)"

section \<open>The peer table is a map\<close>

interpretation preg: hash_client "peer_key ps" "peer_cmp ps" "drole_at ps" for ps
  by unfold_locales (auto simp: peer_key_def peer_cmp_def)

text \<open>A table whose entries are live and filed under their current \<open>drole\<close>.\<close>

definition table_wf :: "peers \<Rightarrow> addr hash \<Rightarrow> bool" where
  "table_wf ps h \<longleftrightarrow> hash_client.hash_wf (peer_key ps) (peer_cmp ps) (drole_at ps) (bind_hash ps h) \<and>
     (\<forall>bs\<in>set (h_index h). \<forall>b\<in>set bs. ps (hb_data b) \<noteq> None)"

definition table_map :: "peers \<Rightarrow> addr hash \<Rightarrow> cint \<Rightarrow> addr option" where
  "table_map ps h = hash_client.abs_map (drole_at ps) (bind_hash ps h)"

lemma bind_hash_simps [simp]:
  "h_index (bind_hash ps h) = h_index h" "h_size (bind_hash ps h) = h_size h" "h_count (bind_hash ps h) = h_count h"
  "h_hash_key (bind_hash ps h) = peer_key ps" "h_hash_cmp (bind_hash ps h) = peer_cmp ps"
  "bind_hash ps (bind_hash ps' h) = bind_hash ps h"
  by (simp_all add: bind_hash_def)

lemma probe_ok_live: "(\<forall>b\<in>set bs. ps (hb_data b) \<noteq> None) \<Longrightarrow> probe_ok ps k bs"
  by (induction bs) (auto split: option.split)

lemma probe_wf:
  assumes "table_wf ps h" "ps a \<noteq> None"
  shows "probe ps h a = Some ()"
proof -
  have wf: "hash_client.hash_wf (peer_key ps) (peer_cmp ps) (drole_at ps) (bind_hash ps h)"
    and live: "\<forall>bs\<in>set (h_index h). \<forall>b\<in>set bs. ps (hb_data b) \<noteq> None"
    using assms by (simp_all add: table_wf_def)
  note b = preg.wf_bucket [OF wf, of a]
  have "probe_ok ps k (h_index h ! unat (peer_key ps a mod h_size h))" for k
    using live nth_mem [OF b(2)] by (intro probe_ok_live) auto
  then show ?thesis
    using b(1) assms(2) by (simp add: probe_def)
qed

text \<open>Changing a peer that is not in the table, or the stack copy a lookup works on, changes nothing of
  the table.\<close>

definition in_table :: "addr hash \<Rightarrow> addr \<Rightarrow> bool" where
  "in_table h a \<longleftrightarrow> (\<exists>bs\<in>set (h_index h). \<exists>b\<in>set bs. hb_data b = a)"

lemma table_frame:
  assumes "\<not> in_table h a"
  shows "table_wf (ps(a := x)) h = table_wf ps h" "table_map (ps(a := x)) h = table_map ps h"
proof -
  have d: "hb_data b \<noteq> a" if "bs \<in> set (h_index h)" "b \<in> set bs" for bs b
    using assms that by (auto simp: in_table_def)
  then have k: "drole_at (ps(a := x)) (hb_data b) = drole_at ps (hb_data b)" if "bs \<in> set (h_index h)" "b \<in> set bs" for bs b
    using that by (simp add: drole_at_def)
  have e: "map (\<lambda>b. f (drole_at (ps(a := x)) (hb_data b)) b) (concat (h_index h)) =
      map (\<lambda>b. f (drole_at ps (hb_data b)) b) (concat (h_index h))" for f :: "cint \<Rightarrow> addr hash_backet \<Rightarrow> 'z"
    using k by (intro map_cong) auto
  have live: "(\<forall>bs\<in>set (h_index h). \<forall>b\<in>set bs. (ps(a := x)) (hb_data b) \<noteq> None) =
      (\<forall>bs\<in>set (h_index h). \<forall>b\<in>set bs. ps (hb_data b) \<noteq> None)"
    using d by simp
  have keys: "(\<forall>i<length (h_index h). \<forall>b\<in>set (h_index h ! i). Q (drole_at (ps(a := x)) (hb_data b)) i b) =
      (\<forall>i<length (h_index h). \<forall>b\<in>set (h_index h ! i). Q (drole_at ps (hb_data b)) i b)" for Q
    using k nth_mem by (metis (no_types, lifting))
  have dist: "distinct (map (\<lambda>b. drole_at (ps(a := x)) (hb_data b)) (concat (h_index h))) =
      distinct (map (\<lambda>b. drole_at ps (hb_data b)) (concat (h_index h)))"
    by (simp only: e [of "\<lambda>k b. k"])
  show "table_wf (ps(a := x)) h = table_wf ps h"
    unfolding table_wf_def preg.hash_wf_def preg.entries_def peer_key_def
    using live keys [of "\<lambda>k i b. hb_key b = k \<and> unat (k mod h_size h) = i"] dist
    by (simp add: peer_key_def fun_eq_iff)
  show "table_map (ps(a := x)) h = table_map ps h"
    by (simp only: table_map_def preg.abs_map_def preg.entries_def bind_hash_simps e [of "\<lambda>k b. (k, hb_data b)"])
qed

lemma table_map_live:
  assumes "table_wf ps h" "table_map ps h k = Some a"
  shows "in_table h a" "drole_at ps a = k" "ps a \<noteq> None"
proof -
  have wf: "hash_client.hash_wf (peer_key ps) (peer_cmp ps) (drole_at ps) (bind_hash ps h)"
    using assms(1) by (simp add: table_wf_def)
  from preg.abs_map_Some [OF wf] assms(2) show "in_table h a" "drole_at ps a = k"
    by (auto simp: table_map_def in_table_def preg.entries_def)
  then show "ps a \<noteq> None"
    using assms(1) by (auto simp: table_wf_def in_table_def)
qed

lemma in_table_drole:
  assumes "table_wf ps h" "in_table h a"
  shows "table_map ps h (drole_at ps a) = Some a"
proof -
  have wf: "hash_client.hash_wf (peer_key ps) (peer_cmp ps) (drole_at ps) (bind_hash ps h)"
    using assms(1) by (simp add: table_wf_def)
  from preg.abs_map_Some [OF wf] assms(2) show ?thesis
    by (auto simp: table_map_def in_table_def preg.entries_def)
qed

end
