(* ===== verification/Parser.thy ===== *)
theory Parser
  imports Peer
begin

text \<open>
  The packet framing of \<open>misaka/parser/normal_parser.c\<close>: a header of magic, seven 32-bit big-endian
  numbers and the payload behind it. \<open>MAGIC_STR\<close> is the string literal with its NUL.
\<close>

section \<open>Operations\<close>

abbreviation (input) MAGIC_STR :: "byte list" where "MAGIC_STR \<equiv> [109, 105, 107, 117, 49, 0]"
abbreviation (input) MAGIC_STR_SIZE :: size_t where "MAGIC_STR_SIZE \<equiv> 4"
abbreviation (input) MAGIC_HEADER_SIZE :: cint where "MAGIC_HEADER_SIZE \<equiv> 32"

definition normal_parser_init :: "peer \<Rightarrow> peer" where
  "normal_parser_init p = p\<lparr>p_header_size := MAGIC_HEADER_SIZE, p_body_size := 0, p_packet_size := 32\<rparr>"

definition normal_parser_unpack :: "stream \<Rightarrow> peer \<Rightarrow> (io_tat \<times> stream \<times> peer) option" where
  "normal_parser_unpack s p =
     (if p_body_size p = 0 then
        let len = ucast (stream_get_endp s - stream_get_getp s) :: cint in
        if sint len < sint MAGIC_HEADER_SIZE then Some (IO_PARTIAL, s, p)
        else do {
          m \<leftarrow> rd_seg (s_data s) (s_getp s) MAGIC_STR_SIZE;
          if m \<noteq> take 4 MAGIC_STR then Some (IO_CLOSE, s, p)
          else do {
            let s = s\<lparr>s_getp := s_getp s + MAGIC_STR_SIZE\<rparr>;
            (v, s) \<leftarrow> stream_getl s; let s = s\<lparr>s_nid := v\<rparr>;
            (v, s) \<leftarrow> stream_getl s; let s = s\<lparr>s_src := v\<rparr>;
            (v, s) \<leftarrow> stream_getl s; let s = s\<lparr>s_dst := v\<rparr>;
            (v, s) \<leftarrow> stream_getl s; let s = s\<lparr>s_type := v\<rparr>;
            (v, s) \<leftarrow> stream_getl s; let s = s\<lparr>s_sid := v\<rparr>;
            (v, s) \<leftarrow> stream_getl s; let s = s\<lparr>s_seq := v\<rparr>;
            (len, s) \<leftarrow> stream_getl s;
            Some (IO_PARTIAL, s, p\<lparr>p_body_size := len, p_packet_size := scast len\<rparr>)
          }
        }
      else Some (IO_PACKET, s, p))"

definition normal_parser_reverse :: "stream \<Rightarrow> stream" where
  "normal_parser_reverse s = s\<lparr>s_getp := s_getp s + 32\<rparr>"

definition normal_parser_pack :: "stream \<Rightarrow> peer \<Rightarrow> (io_tat \<times> stream) option" where
  "normal_parser_pack s p =
     (let body_size = ucast (stream_get_endp s - stream_get_getp s) :: cint; s = s\<lparr>s_getp := 0\<rparr> in
      do {
        s \<leftarrow> stream_put s (Some MAGIC_STR) MAGIC_STR_SIZE;
        (_, s) \<leftarrow> stream_putl s (s_nid s);
        (_, s) \<leftarrow> stream_putl s (s_src s);
        (_, s) \<leftarrow> stream_putl s (s_dst s);
        (_, s) \<leftarrow> stream_putl s (s_type s);
        (_, s) \<leftarrow> stream_putl s (s_sid s);
        (_, s) \<leftarrow> stream_putl s (s_seq s);
        (_, s) \<leftarrow> stream_putl s body_size;
        Some (IO_PACKET, s\<lparr>s_getp := 0\<rparr>)
      })"

section \<open>The wire format\<close>

text \<open>The header as the comment at the top of the file draws it, with the magic as long as the code
  compares it.\<close>

record header =
  hd_nid :: u32
  hd_src :: u32
  hd_dst :: u32
  hd_type :: u32
  hd_sid :: u32
  hd_seq :: u32
  hd_len :: u32

definition header_bytes :: "header \<Rightarrow> byte list" where
  "header_bytes h = [109, 105, 107, 117] @ be32_bytes (hd_nid h) @ be32_bytes (hd_src h) @ be32_bytes (hd_dst h) @
     be32_bytes (hd_type h) @ be32_bytes (hd_sid h) @ be32_bytes (hd_seq h) @ be32_bytes (hd_len h)"

lemma length_header_bytes [simp]: "length (header_bytes h) = 32"
  by (simp add: header_bytes_def)

text \<open>Fields outside the buffer change neither its sanity nor its contents.\<close>

lemma field_views [simp]:
  "stream_wf (s\<lparr>s_nid := v\<rparr>) = stream_wf s" "contents (s\<lparr>s_nid := v\<rparr>) = contents s"
  "stream_wf (s\<lparr>s_src := v\<rparr>) = stream_wf s" "contents (s\<lparr>s_src := v\<rparr>) = contents s"
  "stream_wf (s\<lparr>s_dst := v\<rparr>) = stream_wf s" "contents (s\<lparr>s_dst := v\<rparr>) = contents s"
  "stream_wf (s\<lparr>s_type := v\<rparr>) = stream_wf s" "contents (s\<lparr>s_type := v\<rparr>) = contents s"
  "stream_wf (s\<lparr>s_sid := v\<rparr>) = stream_wf s" "contents (s\<lparr>s_sid := v\<rparr>) = contents s"
  "stream_wf (s\<lparr>s_seq := v\<rparr>) = stream_wf s" "contents (s\<lparr>s_seq := v\<rparr>) = contents s"
  "stream_wf (s\<lparr>s_flag := v\<rparr>) = stream_wf s" "contents (s\<lparr>s_flag := v\<rparr>) = contents s"
  "stream_wf (s\<lparr>s_stype := v\<rparr>) = stream_wf s" "contents (s\<lparr>s_stype := v\<rparr>) = contents s"
  "stream_wf (s\<lparr>s_rlen := v\<rparr>) = stream_wf s" "contents (s\<lparr>s_rlen := v\<rparr>) = contents s"
  "stream_wf (s\<lparr>s_su := u\<rparr>) = stream_wf s" "contents (s\<lparr>s_su := u\<rparr>) = contents s"
  by (simp_all add: stream_wf_iff contents_def)

lemma getl_word:
  assumes "stream_wf s" "contents s = be32_bytes l @ cs"
  shows "stream_getl s = Some (l, adv 4 s)" "stream_wf (adv 4 s)" "contents (adv 4 s) = cs"
proof -
  have n: "4 \<le> length (contents s)"
    using assms(2) by simp
  show "stream_getl s = Some (l, adv 4 s)"
    using assms be32_roundtrip [of l] by (simp add: be32_bytes_def stream_getl_eq)
  show "stream_wf (adv 4 s)" "contents (adv 4 s) = cs"
    using assms n by (simp_all add: adv_wf contents_adv)
qed

lemma contents_prefix:
  assumes "stream_wf s" "contents s = bs @ cs" "unat n = length bs"
  shows "rd_seg (s_data s) (s_getp s) n = Some bs"
proof -
  have c: "take (unat (s_endp s) - unat (s_getp s)) (drop (unat (s_getp s)) (s_data s)) = bs @ cs"
    using assms(2) by (simp add: contents_def)
  have l: "length (bs @ cs) = unat (s_endp s) - unat (s_getp s)"
    using length_contents [OF assms(1)] assms(2) by simp
  then have "unat (s_getp s) + length bs \<le> length (s_data s)"
    using stream_wf_bounds [OF assms(1)] by simp
  moreover have "take (length bs) (drop (unat (s_getp s)) (s_data s)) = bs"
    using arg_cong [OF c, of "take (length bs)"] l by (simp add: min_def split: if_splits)
  ultimately show ?thesis
    using assms(3) by (simp add: rd_seg_def)
qed

lemma wf_length_word:
  assumes "stream_wf s" "int (length (contents s)) \<le> INT_MAX"
  shows "sint (ucast (s_endp s - s_getp s) :: cint) = int (length (contents s))"
proof -
  have "(ucast (s_endp s - s_getp s) :: cint) = of_nat (unat (s_endp s - s_getp s))"
    by simp
  then have "(ucast (s_endp s - s_getp s) :: cint) = of_nat (length (contents s))"
    using unat_READABLE [OF assms(1)] by (simp only: STREAM_READABLE_def)
  then show ?thesis
    using assms(2) by (simp add: signed_of_nat signed_take_bit_int_eq_self)
qed

lemma adv_skips:
  assumes "stream_wf s" "contents s = bs @ cs" "length bs = n"
  shows "stream_wf (adv n s)" "contents (adv n s) = cs"
  using assms by (simp_all add: adv_wf contents_adv)

lemma cursor_fields [simp]:
  "s_nid (adv n s) = s_nid s" "s_src (adv n s) = s_src s" "s_dst (adv n s) = s_dst s"
  "s_type (adv n s) = s_type s" "s_sid (adv n s) = s_sid s" "s_seq (adv n s) = s_seq s"
  "s_nid (app bs s) = s_nid s" "s_src (app bs s) = s_src s" "s_dst (app bs s) = s_dst s"
  "s_type (app bs s) = s_type s" "s_sid (app bs s) = s_sid s" "s_seq (app bs s) = s_seq s"
  "s_getp (app bs s) = s_getp s"
  by (simp_all add: adv_def app_def)

lemma putl_word:
  assumes "stream_wf s" "4 \<le> room s"
  shows "stream_putl s l = Some (4, app (be32_bytes l) s)" "stream_wf (app (be32_bytes l) s)"
    "room (app (be32_bytes l) s) = room s - 4"
  using assms by (simp_all add: stream_putl_eq app_wf room_app)

text \<open>What \<open>normal_parser_pack\<close> appends.\<close>

definition packed_header :: "stream \<Rightarrow> header" where
  "packed_header s =
     \<lparr>hd_nid = s_nid s, hd_src = s_src s, hd_dst = s_dst s, hd_type = s_type s, hd_sid = s_sid s, hd_seq = s_seq s,
      hd_len = ucast (s_endp s - s_getp s)\<rparr>"

lemma pack_appends_header:
  assumes wf: "stream_wf s" and room: "32 \<le> room s"
  shows "normal_parser_pack s p = Some (IO_PACKET, app (header_bytes (packed_header s)) (s\<lparr>s_getp := 0\<rparr>))"
proof -
  let ?s = "s\<lparr>s_getp := 0\<rparr>"
  have wf0: "stream_wf ?s" and room0: "room ?s = room s"
    using wf by (simp_all add: stream_wf_iff room_def)
  have "unat (s_endp ?s) + unat (4 :: size_t) < 18446744073709551616"
    using room stream_wf_bounds [OF wf] by (simp add: room_def)
  with stream_put_eq [OF wf0, of 4 MAGIC_STR]
  have put: "stream_put ?s (Some MAGIC_STR) 4 = Some (app [109, 105, 107, 117] ?s)"
    using room room0 by (simp add: min_def)
  have s1: "stream_wf (app [109, 105, 107, 117] ?s)" "room (app [109, 105, 107, 117] ?s) = room s - 4"
    using wf0 room room0 by (simp_all add: app_wf room_app)
  have reset: "s'\<lparr>s_getp := 0\<rparr> = s'" if "s_getp s' = 0" for s'
    using that by simp
  have join: "app (header_bytes h) ?s = app (be32_bytes (hd_len h)) (app (be32_bytes (hd_seq h)) (app (be32_bytes (hd_sid h))
    (app (be32_bytes (hd_type h)) (app (be32_bytes (hd_dst h)) (app (be32_bytes (hd_src h)) (app (be32_bytes (hd_nid h))
      (app [109, 105, 107, 117] ?s)))))))" for h
    using wf0 room room0 by (simp add: header_bytes_def app_append app_wf room_app)
  show ?thesis
    using put s1 room
    by (simp add: normal_parser_pack_def Let_def stream_get_endp_def stream_get_getp_def putl_word join packed_header_def)
qed

section \<open>Properties\<close>

text \<open>C28: Unpacking decodes the header. On a stream that starts with a header of the wire format, a peer that
  waits for a header takes all seven fields from it, consumes exactly the header, and asks for as many
  bytes as the header announces.\<close>

theorem unpack_decodes_header:
  assumes wf: "stream_wf s" and c: "contents s = header_bytes h @ body" and small: "int (length (contents s)) \<le> INT_MAX"
    and p: "p_body_size p = 0"
  shows "\<exists>s'. normal_parser_unpack s p = Some (IO_PARTIAL, s', p\<lparr>p_body_size := hd_len h, p_packet_size := scast (hd_len h)\<rparr>) \<and>
    stream_wf s' \<and> contents s' = body \<and> s_nid s' = hd_nid h \<and> s_src s' = hd_src h \<and> s_dst s' = hd_dst h \<and>
    s_type s' = hd_type h \<and> s_sid s' = hd_sid h \<and> s_seq s' = hd_seq h"
proof -
  have "32 \<le> int (length (contents s))"
    using c by simp
  then have len: "\<not> sint (ucast (s_endp s - s_getp s) :: cint) < 32"
    using wf_length_word [OF wf small] by simp
  have c0: "contents s = [109, 105, 107, 117] @ drop 4 (header_bytes h) @ body"
    using c by (simp add: header_bytes_def)
  note m = contents_prefix [OF wf c0, of 4, simplified]
  note s0 = adv_skips [OF wf c0, of 4, simplified]
  have c1: "contents (adv 4 s) = be32_bytes (hd_nid h) @ be32_bytes (hd_src h) @ be32_bytes (hd_dst h) @
     be32_bytes (hd_type h) @ be32_bytes (hd_sid h) @ be32_bytes (hd_seq h) @ be32_bytes (hd_len h) @ body"
    using s0(2) by (simp add: header_bytes_def)
  have a: "s\<lparr>s_getp := s_getp s + 4\<rparr> = adv 4 s"
    by (simp add: adv_def)
  show ?thesis
    using p len m a s0(1) c1 by (simp add: normal_parser_unpack_def stream_get_endp_def stream_get_getp_def Let_def getl_word)
qed

lemma blank_room: "n < 18446744073709551616 \<Longrightarrow> room (blank_stream n) = n" "contents (blank_stream n) = []"
  by (simp_all add: blank_stream_def room_def contents_def)

theorem unpack_decodes_header_witness:
  "\<exists>s'. normal_parser_unpack (app (header_bytes \<lparr>hd_nid = 3, hd_src = 100, hd_dst = 3, hd_type = 1, hd_sid = 7, hd_seq = 9, hd_len = 2\<rparr> @ [104, 105])
       (blank_stream 256)) zero_peer = Some (IO_PARTIAL, s', zero_peer\<lparr>p_body_size := 2, p_packet_size := 2\<rparr>) \<and>
     contents s' = [104, 105] \<and> s_nid s' = 3 \<and> s_sid s' = 7"
proof -
  let ?b = "header_bytes \<lparr>hd_nid = 3, hd_src = 100, hd_dst = 3, hd_type = 1, hd_sid = 7, hd_seq = 9, hd_len = 2\<rparr> @ [104, 105]"
  have "stream_wf (app ?b (blank_stream 256))" "contents (app ?b (blank_stream 256)) = ?b"
    using blank_room [of 256] by (simp_all add: app_wf contents_app blank_stream_wf)
  then show ?thesis
    using unpack_decodes_header [of "app ?b (blank_stream 256)"
        "\<lparr>hd_nid = 3, hd_src = 100, hd_dst = 3, hd_type = 1, hd_sid = 7, hd_seq = 9, hd_len = 2\<rparr>" "[104, 105]" zero_peer]
    by (auto simp: zero_peer_def)
qed

text \<open>C33: Packing puts the header behind the payload. The packed stream starts with the bytes of the packet,
  and the peer at the other end, which unpacks a header first, closes the connection on every payload of at
  least four bytes that does not itself start with the magic.\<close>

theorem pack_not_unpacked:
  assumes wf: "stream_wf s" and room: "32 \<le> room s" and small: "unat (s_size s) \<le> 2147483647"
    and payload: "4 \<le> unat (s_endp s)" "take 4 (s_data s) \<noteq> [109, 105, 107, 117]" and p: "p_body_size q = 0"
  shows "\<exists>s'. normal_parser_pack s p = Some (IO_PACKET, s') \<and>
    contents s' = take (unat (s_endp s)) (s_data s) @ header_bytes (packed_header s) \<and>
    normal_parser_unpack s' q = Some (IO_CLOSE, s', q)"
proof -
  let ?s = "s\<lparr>s_getp := 0\<rparr>" and ?h = "header_bytes (packed_header s)"
  have wf0: "stream_wf ?s" and fits: "length ?h \<le> room ?s"
    using wf room by (simp_all add: stream_wf_iff room_def)
  have c0: "contents ?s = take (unat (s_endp s)) (s_data s)"
    by (simp add: contents_def)
  have wf1: "stream_wf (app ?h ?s)" and c1: "contents (app ?h ?s) = take (unat (s_endp s)) (s_data s) @ ?h"
    using app_wf [OF wf0 fits] contents_app [OF wf0 fits] c0 by simp_all
  have l0: "length (take (unat (s_endp s)) (s_data s)) = unat (s_endp s)"
    using stream_wf_bounds [OF wf] by simp
  have n: "int (length (contents (app ?h ?s))) = int (unat (s_endp s)) + 32"
    using c1 l0 by simp
  moreover have "unat (s_endp s) + 32 \<le> unat (s_size s)"
    using room payload by (simp add: room_def)
  ultimately have "int (length (contents (app ?h ?s))) \<le> INT_MAX" "32 \<le> int (length (contents (app ?h ?s)))"
    using small by linarith+
  then have "\<not> sint (ucast (s_endp (app ?h ?s) - s_getp (app ?h ?s)) :: cint) < 32"
    using wf_length_word [OF wf1] by linarith
  moreover have "contents (app ?h ?s) = take 4 (s_data s) @ drop 4 (take (unat (s_endp s)) (s_data s)) @ ?h"
    using c1 payload(1) append_take_drop_id [of 4 "take (unat (s_endp s)) (s_data s)"] by (simp add: min_def)
  note magic = contents_prefix [OF wf1 this, of 4]
  have "length (take 4 (s_data s)) = 4"
    using l0 payload(1) by simp
  with magic have "rd_seg (s_data (app ?h ?s)) (s_getp (app ?h ?s)) 4 = Some (take 4 (s_data s))"
    by simp
  ultimately have "normal_parser_unpack (app ?h ?s) q = Some (IO_CLOSE, app ?h ?s, q)"
    using payload(2) p by (simp add: normal_parser_unpack_def stream_get_endp_def stream_get_getp_def Let_def)
  then show ?thesis
    using pack_appends_header [OF wf room, of p] c1 by simp
qed

theorem pack_not_unpacked_witness:
  "\<exists>s'. normal_parser_pack (app [104, 101, 108, 108, 111] (blank_stream 256)) zero_peer = Some (IO_PACKET, s') \<and>
     normal_parser_unpack s' zero_peer = Some (IO_CLOSE, s', zero_peer)"
proof -
  let ?s = "app [104, 101, 108, 108, 111] (blank_stream 256)"
  have "stream_wf ?s" "room ?s = 251"
    using blank_room [of 256] by (simp_all add: app_wf room_app blank_stream_wf)
  moreover have "unat (s_size ?s) \<le> 2147483647" "4 \<le> unat (s_endp ?s)" "take 4 (s_data ?s) \<noteq> [109, 105, 107, 117]"
    by (simp_all add: app_def blank_stream_def seg_upd_def)
  ultimately show ?thesis
    using pack_not_unpacked [of ?s zero_peer zero_peer] by (auto simp: zero_peer_def)
qed

end
