(* ===== verification/Linklist.thy ===== *)
theory Linklist
  imports Queues
begin

text \<open>
  The doubly linked lists of \<open>misaka/lib/linklist.c\<close> and \<open>misaka/include/linklist.h\<close>.

  The nodes live in a heap; an operation takes the list header and the heap and returns them
  updated. \<open>None\<close> is a dereference of NULL or of an address that is not a live node, or a traversal
  that never ends. \<open>listnode_new\<close> is \<open>XCALLOC\<close>: its result, NULL or the address of a fresh node, is the
  argument \<open>new\<close> of the operations that allocate; the operations write every field of the node or rely
  on it being zero. \<open>assert\<close> is the no-op of \<open>zebra.h\<close>.
\<close>

section \<open>State\<close>

record 'v listnode =
  ln_next :: ptr
  ln_prev :: ptr
  ln_data :: 'v

type_synonym 'v node_heap = "addr \<Rightarrow> 'v listnode option"

text \<open>The comparison callback, if set, and whether a delete callback is set.\<close>

record 'v llist =
  l_head :: ptr
  l_tail :: ptr
  l_count :: u32
  l_cmp :: "('v \<Rightarrow> 'v \<Rightarrow> int) option"
  l_del :: bool

definition set_next :: "addr \<Rightarrow> ptr \<Rightarrow> 'v node_heap \<Rightarrow> 'v node_heap option" where
  "set_next a p h = map_option (\<lambda>n. h(a \<mapsto> n\<lparr>ln_next := p\<rparr>)) (h a)"

definition set_prev :: "addr \<Rightarrow> ptr \<Rightarrow> 'v node_heap \<Rightarrow> 'v node_heap option" where
  "set_prev a p h = map_option (\<lambda>n. h(a \<mapsto> n\<lparr>ln_prev := p\<rparr>)) (h a)"

section \<open>Operations\<close>

definition list_new :: "'v llist" where
  "list_new = \<lparr>l_head = None, l_tail = None, l_count = 0, l_cmp = None, l_del = False\<rparr>"

definition listnode_free :: "addr \<Rightarrow> 'v node_heap \<Rightarrow> 'v node_heap" where
  "listnode_free a h = h(a := None)"

definition listnode_add :: "ptr \<Rightarrow> 'v \<Rightarrow> 'v llist \<Rightarrow> 'v node_heap \<Rightarrow> ('v llist \<times> 'v node_heap) option" where
  "listnode_add new val l h =
     do {
       node \<leftarrow> new;
       let h = h(node \<mapsto> \<lparr>ln_next = None, ln_prev = l_tail l, ln_data = val\<rparr>);
       (l, h) \<leftarrow> (if l_head l = None then Some (l\<lparr>l_head := Some node\<rparr>, h)
                  else do { t \<leftarrow> l_tail l; h \<leftarrow> set_next t (Some node) h; Some (l, h) });
       Some (l\<lparr>l_tail := Some node, l_count := l_count l + 1\<rparr>, h)
     }"

text \<open>The macro \<open>LISTNODE_ATTACH\<close>, on a node that already exists.\<close>

definition LISTNODE_ATTACH :: "addr \<Rightarrow> 'v llist \<Rightarrow> 'v node_heap \<Rightarrow> ('v llist \<times> 'v node_heap) option" where
  "LISTNODE_ATTACH node l h =
     do {
       h \<leftarrow> set_prev node (l_tail l) h;
       (l, h) \<leftarrow> (if l_head l = None then Some (l\<lparr>l_head := Some node\<rparr>, h)
                  else do { t \<leftarrow> l_tail l; h \<leftarrow> set_next t (Some node) h; Some (l, h) });
       Some (l\<lparr>l_tail := Some node, l_count := l_count l + 1\<rparr>, h)
     }"

text \<open>Unlinking, as the macro \<open>LISTNODE_DETACH\<close> and three of the functions do it.\<close>

definition LISTNODE_DETACH :: "addr \<Rightarrow> 'v llist \<Rightarrow> 'v node_heap \<Rightarrow> ('v llist \<times> 'v node_heap) option" where
  "LISTNODE_DETACH node l h =
     do {
       n \<leftarrow> h node;
       (l, h) \<leftarrow> (case ln_prev n of
                    Some p \<Rightarrow> do { h \<leftarrow> set_next p (ln_next n) h; Some (l, h) }
                  | None \<Rightarrow> Some (l\<lparr>l_head := ln_next n\<rparr>, h));
       n \<leftarrow> h node;
       (l, h) \<leftarrow> (case ln_next n of
                    Some x \<Rightarrow> do { h \<leftarrow> set_prev x (ln_prev n) h; Some (l, h) }
                  | None \<Rightarrow> Some (l\<lparr>l_tail := ln_prev n\<rparr>, h));
       Some (l\<lparr>l_count := l_count l - 1\<rparr>, h)
     }"

definition list_delete_node :: "addr \<Rightarrow> 'v llist \<Rightarrow> 'v node_heap \<Rightarrow> ('v llist \<times> 'v node_heap) option" where
  "list_delete_node node l h =
     do {
       (l, h) \<leftarrow> LISTNODE_DETACH node l h;
       Some (l, listnode_free node h)
     }"

text \<open>The search loop of \<open>listnode_add_sort\<close>: the first node the new value is less than.\<close>

partial_function (option) sort_position :: "('v \<Rightarrow> 'v \<Rightarrow> int) \<Rightarrow> 'v \<Rightarrow> ptr \<Rightarrow> 'v node_heap \<Rightarrow> ptr option" where
  "sort_position cmp val n h =
     (case n of
        None \<Rightarrow> Some None
      | Some a \<Rightarrow> do {
          nd \<leftarrow> h a;
          (if cmp val (ln_data nd) < 0 then Some (Some a) else sort_position cmp val (ln_next nd) h)
        })"

definition listnode_add_sort :: "ptr \<Rightarrow> 'v \<Rightarrow> 'v llist \<Rightarrow> 'v node_heap \<Rightarrow> ('v llist \<times> 'v node_heap) option" where
  "listnode_add_sort new val l h =
     do {
       new \<leftarrow> new;
       let h = h(new \<mapsto> \<lparr>ln_next = None, ln_prev = None, ln_data = val\<rparr>);
       pos \<leftarrow> (case l_cmp l of None \<Rightarrow> Some None | Some cmp \<Rightarrow> sort_position cmp val (l_head l) h);
       (case pos of
          Some n \<Rightarrow> do {
            nd \<leftarrow> h n;
            h \<leftarrow> set_next new (Some n) h;
            h \<leftarrow> set_prev new (ln_prev nd) h;
            (l, h) \<leftarrow> (case ln_prev nd of
                         Some p \<Rightarrow> do { h \<leftarrow> set_next p (Some new) h; Some (l, h) }
                       | None \<Rightarrow> Some (l\<lparr>l_head := Some new\<rparr>, h));
            h \<leftarrow> set_prev n (Some new) h;
            Some (l\<lparr>l_count := l_count l + 1\<rparr>, h)
          }
        | None \<Rightarrow> do {
            h \<leftarrow> set_prev new (l_tail l) h;
            (l, h) \<leftarrow> (case l_tail l of
                         Some t \<Rightarrow> do { h \<leftarrow> set_next t (Some new) h; Some (l, h) }
                       | None \<Rightarrow> Some (l\<lparr>l_head := Some new\<rparr>, h));
            Some (l\<lparr>l_tail := Some new, l_count := l_count l + 1\<rparr>, h)
          })
     }"

definition listnode_add_after ::
    "ptr \<Rightarrow> ptr \<Rightarrow> 'v \<Rightarrow> 'v llist \<Rightarrow> 'v node_heap \<Rightarrow> ('v llist \<times> 'v node_heap) option" where
  "listnode_add_after new pp val l h =
     do {
       nn \<leftarrow> new;
       let h = h(nn \<mapsto> \<lparr>ln_next = None, ln_prev = None, ln_data = val\<rparr>);
       (l, h) \<leftarrow>
         (case pp of
            None \<Rightarrow> do {
              (l, h) \<leftarrow> (case l_head l of
                           Some x \<Rightarrow> do { h \<leftarrow> set_prev x (Some nn) h; Some (l, h) }
                         | None \<Rightarrow> Some (l\<lparr>l_tail := Some nn\<rparr>, h));
              h \<leftarrow> set_next nn (l_head l) h;
              h \<leftarrow> set_prev nn None h;
              Some (l\<lparr>l_head := Some nn\<rparr>, h)
            }
          | Some p \<Rightarrow> do {
              pn \<leftarrow> h p;
              (l, h) \<leftarrow> (case ln_next pn of
                           Some x \<Rightarrow> do { h \<leftarrow> set_prev x (Some nn) h; Some (l, h) }
                         | None \<Rightarrow> Some (l\<lparr>l_tail := Some nn\<rparr>, h));
              pn \<leftarrow> h p;
              h \<leftarrow> set_next nn (ln_next pn) h;
              h \<leftarrow> set_prev nn (Some p) h;
              h \<leftarrow> set_next p (Some nn) h;
              Some (l, h)
            });
       Some (l\<lparr>l_count := l_count l + 1\<rparr>, h)
     }"

text \<open>The search loop of \<open>listnode_delete\<close> and \<open>listnode_lookup\<close>.\<close>

partial_function (option) find_node :: "'v \<Rightarrow> ptr \<Rightarrow> 'v node_heap \<Rightarrow> ptr option" where
  "find_node val n h =
     (case n of
        None \<Rightarrow> Some None
      | Some a \<Rightarrow> do {
          nd \<leftarrow> h a;
          (if ln_data nd = val then Some (Some a) else find_node val (ln_next nd) h)
        })"

definition listnode_delete :: "'v \<Rightarrow> 'v llist \<Rightarrow> 'v node_heap \<Rightarrow> ('v llist \<times> 'v node_heap) option" where
  "listnode_delete val l h =
     do {
       node \<leftarrow> find_node val (l_head l) h;
       (case node of None \<Rightarrow> Some (l, h) | Some a \<Rightarrow> list_delete_node a l h)
     }"

definition listnode_lookup :: "'v \<Rightarrow> 'v llist \<Rightarrow> 'v node_heap \<Rightarrow> ptr option" where
  "listnode_lookup val l h = find_node val (l_head l) h"

definition listnode_head :: "'v llist \<Rightarrow> 'v node_heap \<Rightarrow> 'v option option" where
  "listnode_head l h =
     (case l_head l of None \<Rightarrow> Some None | Some a \<Rightarrow> do { n \<leftarrow> h a; Some (Some (ln_data n)) })"

definition listnode_get :: "'v llist \<Rightarrow> ptr" where
  "listnode_get l = l_head l"

text \<open>The loop of \<open>list_delete_all_node\<close>: the values handed to the delete callback.\<close>

partial_function (option) delete_loop :: "bool \<Rightarrow> ptr \<Rightarrow> 'v list \<Rightarrow> 'v node_heap \<Rightarrow> ('v list \<times> 'v node_heap) option" where
  "delete_loop del n out h =
     (case n of
        None \<Rightarrow> Some (out, h)
      | Some a \<Rightarrow> do {
          nd \<leftarrow> h a;
          delete_loop del (ln_next nd) (if del then out @ [ln_data nd] else out) (listnode_free a h)
        })"

definition list_delete_all_node :: "'v llist \<Rightarrow> 'v node_heap \<Rightarrow> ('v list \<times> 'v llist \<times> 'v node_heap) option" where
  "list_delete_all_node l h =
     do {
       (out, h) \<leftarrow> delete_loop (l_del l) (l_head l) [] h;
       Some (out, l\<lparr>l_head := None, l_tail := None, l_count := 0\<rparr>, h)
     }"

text \<open>\<open>list_delete\<close> frees the header as well: only the heap is left.\<close>

definition list_delete :: "'v llist \<Rightarrow> 'v node_heap \<Rightarrow> ('v list \<times> 'v node_heap) option" where
  "list_delete l h =
     do {
       (out, l, h) \<leftarrow> list_delete_all_node l h;
       Some (out, h)
     }"

definition list_add_node_prev ::
    "ptr \<Rightarrow> addr \<Rightarrow> 'v \<Rightarrow> 'v llist \<Rightarrow> 'v node_heap \<Rightarrow> ('v llist \<times> 'v node_heap) option" where
  "list_add_node_prev new current val l h =
     do {
       node \<leftarrow> new;
       let h = h(node \<mapsto> \<lparr>ln_next = Some current, ln_prev = None, ln_data = val\<rparr>);
       c \<leftarrow> h current;
       (l, h) \<leftarrow> (case ln_prev c of
                    None \<Rightarrow> Some (l\<lparr>l_head := Some node\<rparr>, h)
                  | Some p \<Rightarrow> do { h \<leftarrow> set_next p (Some node) h; Some (l, h) });
       c \<leftarrow> h current;
       h \<leftarrow> set_prev node (ln_prev c) h;
       h \<leftarrow> set_prev current (Some node) h;
       Some (l\<lparr>l_count := l_count l + 1\<rparr>, h)
     }"

definition list_add_node_next ::
    "ptr \<Rightarrow> addr \<Rightarrow> 'v \<Rightarrow> 'v llist \<Rightarrow> 'v node_heap \<Rightarrow> ('v llist \<times> 'v node_heap) option" where
  "list_add_node_next new current val l h =
     do {
       node \<leftarrow> new;
       let h = h(node \<mapsto> \<lparr>ln_next = None, ln_prev = Some current, ln_data = val\<rparr>);
       c \<leftarrow> h current;
       (l, h) \<leftarrow> (case ln_next c of
                    None \<Rightarrow> Some (l\<lparr>l_tail := Some node\<rparr>, h)
                  | Some x \<Rightarrow> do { h \<leftarrow> set_prev x (Some node) h; Some (l, h) });
       c \<leftarrow> h current;
       h \<leftarrow> set_next node (ln_next c) h;
       h \<leftarrow> set_next current (Some node) h;
       Some (l\<lparr>l_count := l_count l + 1\<rparr>, h)
     }"

text \<open>\<open>list_add_list\<close>: the loop over the nodes of the second list; \<open>news\<close> are the successive results of
  the allocator.\<close>

fun add_list_loop :: "ptr list \<Rightarrow> ptr \<Rightarrow> 'v llist \<Rightarrow> 'v node_heap \<Rightarrow> ('v llist \<times> 'v node_heap) option" where
  "add_list_loop news None l h = Some (l, h)"
| "add_list_loop [] (Some n) l h = None"
| "add_list_loop (new # news) (Some n) l h =
     do {
       nd \<leftarrow> h n;
       (l, h) \<leftarrow> listnode_add new (ln_data nd) l h;
       nd \<leftarrow> h n;
       add_list_loop news (ln_next nd) l h
     }"

definition list_add_list :: "ptr list \<Rightarrow> 'v llist \<Rightarrow> 'v llist \<Rightarrow> 'v node_heap \<Rightarrow> ('v llist \<times> 'v node_heap) option" where
  "list_add_list news l m h = add_list_loop news (l_head m) l h"

section \<open>Lists in the heap\<close>

text \<open>\<open>seg h pv xs nx\<close>: the nodes of \<open>xs\<close> (address and value) are linked in both directions, the first
  one back to \<open>pv\<close> and the last one on to \<open>nx\<close>.\<close>

definition first :: "(addr \<times> 'v) list \<Rightarrow> ptr \<Rightarrow> ptr" where
  "first xs nx = (case xs of [] \<Rightarrow> nx | x # _ \<Rightarrow> Some (fst x))"

definition final :: "ptr \<Rightarrow> (addr \<times> 'v) list \<Rightarrow> ptr" where
  "final pv xs = (if xs = [] then pv else Some (fst (last xs)))"

fun seg :: "'v node_heap \<Rightarrow> ptr \<Rightarrow> (addr \<times> 'v) list \<Rightarrow> ptr \<Rightarrow> bool" where
  "seg h pv [] nx \<longleftrightarrow> True"
| "seg h pv ((a, v) # xs) nx \<longleftrightarrow>
     h a = Some \<lparr>ln_next = first xs nx, ln_prev = pv, ln_data = v\<rparr> \<and> seg h (Some a) xs nx"

text \<open>A header represents the list of its nodes.\<close>

definition list_rep :: "'v llist \<Rightarrow> 'v node_heap \<Rightarrow> (addr \<times> 'v) list \<Rightarrow> bool" where
  "list_rep l h xs \<longleftrightarrow> l_head l = first xs None \<and> l_tail l = final None xs \<and>
     l_count l = of_nat (length xs) \<and> distinct (map fst xs) \<and> seg h None xs None"

lemma first_simps [simp]:
  "first [] nx = nx" "first ((a, v) # xs) nx = Some a" "first (xs @ ys) nx = first xs (first ys nx)"
  by (auto simp: first_def split: list.split)

lemma final_simps [simp]:
  "final pv [] = pv" "final pv (xs @ [(a, v)]) = Some a" "final pv ((a, v) # xs) = final (Some a) xs"
  by (auto simp: final_def)

lemma first_Some_cases: "first xs None = None \<longleftrightarrow> xs = []" "first xs (Some b) \<noteq> None"
  by (auto simp: first_def split: list.split)

lemma final_None: "final None xs = None \<longleftrightarrow> xs = []"
  by (auto simp: final_def)

lemma seg_append [simp]: "seg h pv (xs @ ys) nx \<longleftrightarrow> seg h pv xs (first ys nx) \<and> seg h (final pv xs) ys nx"
  by (induction xs arbitrary: pv) auto

lemma seg_cong:
  "(\<And>a. a \<in> fst ` set xs \<Longrightarrow> h a = h' a) \<Longrightarrow> seg h pv xs nx = seg h' pv xs nx"
  by (induction xs arbitrary: pv) auto

lemma seg_frame [simp]: "a \<notin> fst ` set xs \<Longrightarrow> seg (h(a := n)) pv xs nx = seg h pv xs nx"
  by (rule seg_cong) auto

lemma seg_live: "seg h pv xs nx \<Longrightarrow> a \<in> fst ` set xs \<Longrightarrow> h a \<noteq> None"
  by (induction xs arbitrary: pv) force+

text \<open>Redirecting the two ends of a segment.\<close>

definition relink_next :: "ptr \<Rightarrow> ptr \<Rightarrow> 'v node_heap \<Rightarrow> 'v node_heap" where
  "relink_next p n h = (case p of None \<Rightarrow> h | Some a \<Rightarrow> h(a := map_option (\<lambda>nd. nd\<lparr>ln_next := n\<rparr>) (h a)))"

definition relink_prev :: "ptr \<Rightarrow> ptr \<Rightarrow> 'v node_heap \<Rightarrow> 'v node_heap" where
  "relink_prev n p h = (case n of None \<Rightarrow> h | Some a \<Rightarrow> h(a := map_option (\<lambda>nd. nd\<lparr>ln_prev := p\<rparr>) (h a)))"

lemma seg_relink_next:
  assumes "seg h pv xs nx" "distinct (map fst xs)"
  shows "seg (relink_next (final None xs) nx' h) pv xs nx'"
proof (cases xs rule: rev_cases)
  case (snoc ys y)
  then show ?thesis
    using assms by (cases y) (auto simp: relink_next_def)
qed simp

lemma seg_relink_prev:
  assumes "seg h pv xs nx" "distinct (map fst xs)"
  shows "seg (relink_prev (first xs None) pv' h) pv' xs nx"
proof (cases xs)
  case (Cons y ys)
  then show ?thesis
    using assms by (cases y) (auto simp: relink_prev_def)
qed simp

lemma seg_relink_other:
  "(\<And>b. a = Some b \<Longrightarrow> b \<notin> fst ` set xs) \<Longrightarrow> seg (relink_next a n h) pv xs nx = seg h pv xs nx"
  "(\<And>b. a = Some b \<Longrightarrow> b \<notin> fst ` set xs) \<Longrightarrow> seg (relink_prev a p h) pv xs nx = seg h pv xs nx"
  by (cases a; simp add: relink_next_def relink_prev_def)+

lemma ends_in:
  "final None xs = Some a \<Longrightarrow> a \<in> fst ` set xs" "first xs None = Some a \<Longrightarrow> a \<in> fst ` set xs"
  by (auto simp: final_def first_def split: if_splits list.splits)

text \<open>Linking a new node between two neighbours, and taking a node out: the specification of the
  writes of all insertions and deletions.\<close>

definition link_heap :: "ptr \<Rightarrow> ptr \<Rightarrow> addr \<Rightarrow> 'v \<Rightarrow> 'v node_heap \<Rightarrow> 'v node_heap" where
  "link_heap p n a v h =
     (relink_prev n (Some a) (relink_next p (Some a) h))(a \<mapsto> \<lparr>ln_next = n, ln_prev = p, ln_data = v\<rparr>)"

definition unlink_heap :: "ptr \<Rightarrow> ptr \<Rightarrow> addr \<Rightarrow> 'v node_heap \<Rightarrow> 'v node_heap" where
  "unlink_heap p n a h = (relink_prev n p (relink_next p n h))(a := None)"

lemma link_rep:
  assumes rep: "list_rep l h (xs @ ys)" and new: "a \<notin> fst ` set (xs @ ys)"
    and l': "l_head l' = (if xs = [] then Some a else l_head l)" "l_tail l' = (if ys = [] then Some a else l_tail l)"
      "l_count l' = l_count l + 1"
  shows "list_rep l' (link_heap (final None xs) (first ys None) a v h) (xs @ (a, v) # ys)"
proof -
  let ?h1 = "relink_next (final None xs) (Some a) h"
  let ?h2 = "relink_prev (first ys None) (Some a) ?h1"
  have segs: "seg h None xs (first ys None)" "seg h (final None xs) ys None"
    and dist: "distinct (map fst xs)" "distinct (map fst ys)" "fst ` set xs \<inter> fst ` set ys = {}"
    using rep by (auto simp: list_rep_def)
  have "seg ?h1 None xs (Some a)"
    using seg_relink_next [OF segs(1) dist(1)] .
  moreover have "b \<notin> fst ` set xs" if "first ys None = Some b" for b
    using ends_in(2) [OF that] dist(3) by blast
  ultimately have xs: "seg ?h2 None xs (Some a)"
    by (simp add: seg_relink_other)
  have "b \<notin> fst ` set ys" if "final None xs = Some b" for b
    using ends_in(1) [OF that] dist(3) by blast
  then have "seg ?h1 (final None xs) ys None"
    using segs(2) by (simp add: seg_relink_other)
  from seg_relink_prev [OF this dist(2)] have ys: "seg ?h2 (Some a) ys None" .
  have "seg (link_heap (final None xs) (first ys None) a v h) None (xs @ (a, v) # ys) None"
    using xs ys new by (simp add: link_heap_def image_Un)
  moreover have "l_head l' = first (xs @ (a, v) # ys) None"
    using l'(1) rep by (cases xs) (auto simp: list_rep_def first_def)
  moreover have "l_tail l' = final None (xs @ (a, v) # ys)"
    using l'(2) rep by (auto simp: list_rep_def final_def)
  ultimately show ?thesis
    using rep new l'(3) by (simp add: list_rep_def image_Un)
qed

lemma unlink_rep:
  assumes rep: "list_rep l h (xs @ (a, v) # ys)"
    and l': "l_head l' = first (xs @ ys) None" "l_tail l' = final None (xs @ ys)" "l_count l' = l_count l - 1"
  shows "list_rep l' (unlink_heap (final None xs) (first ys None) a h) (xs @ ys)"
proof -
  let ?h1 = "relink_next (final None xs) (first ys None) h"
  let ?h2 = "relink_prev (first ys None) (final None xs) ?h1"
  have segs: "seg h None xs (Some a)" "seg h (Some a) ys None"
    and dist: "distinct (map fst xs)" "distinct (map fst ys)" "fst ` set xs \<inter> fst ` set ys = {}"
    and a: "a \<notin> fst ` set xs" "a \<notin> fst ` set ys"
    using rep by (auto simp: list_rep_def)
  have "seg ?h1 None xs (first ys None)"
    using seg_relink_next [OF segs(1) dist(1)] .
  moreover have "b \<notin> fst ` set xs" if "first ys None = Some b" for b
    using ends_in(2) [OF that] dist(3) by blast
  ultimately have xs: "seg ?h2 None xs (first ys None)"
    by (simp add: seg_relink_other)
  have "b \<notin> fst ` set ys" if "final None xs = Some b" for b
    using ends_in(1) [OF that] dist(3) by blast
  then have "seg ?h1 (Some a) ys None"
    using segs(2) by (simp add: seg_relink_other)
  from seg_relink_prev [OF this dist(2)] have ys: "seg ?h2 (final None xs) ys None" .
  have "seg (unlink_heap (final None xs) (first ys None) a h) None (xs @ ys) None"
    using xs ys a by (simp add: unlink_heap_def)
  then show ?thesis
    using rep l' by (simp add: list_rep_def)
qed

section \<open>The operations on represented lists\<close>

lemma rep_node:
  assumes "list_rep l h (xs @ (a, v) # ys)"
  shows "h a = Some \<lparr>ln_next = first ys None, ln_prev = final None xs, ln_data = v\<rparr>"
  using assms by (simp add: list_rep_def)

lemma rep_live: "list_rep l h xs \<Longrightarrow> a \<in> fst ` set xs \<Longrightarrow> \<exists>n. h a = Some n"
  using seg_live by (fastforce simp: list_rep_def)

lemma rep_fresh: "list_rep l h xs \<Longrightarrow> h a = None \<Longrightarrow> a \<notin> fst ` set xs"
  using rep_live by fastforce

lemma listnode_add_rep:
  assumes rep: "list_rep l h xs" and new: "h a = None"
  shows "\<exists>l'. listnode_add (Some a) v l h = Some (l', link_heap (final None xs) None a v h) \<and>
    list_rep l' (link_heap (final None xs) None a v h) (xs @ [(a, v)]) \<and> l_cmp l' = l_cmp l \<and> l_del l' = l_del l"
proof -
  let ?l = "l\<lparr>l_head := if xs = [] then Some a else l_head l, l_tail := Some a, l_count := l_count l + 1\<rparr>"
  have "listnode_add (Some a) v l h = Some (?l, link_heap (final None xs) None a v h)"
  proof (cases xs rule: rev_cases)
    case Nil
    then show ?thesis
      using rep by (simp add: listnode_add_def list_rep_def link_heap_def relink_next_def relink_prev_def)
  next
    case (snoc ys y)
    obtain b w where y: "y = (b, w)"
      by (cases y)
    have "b \<noteq> a" "l_head l \<noteq> None" "l_tail l = Some b"
      using rep_fresh [OF rep new] rep snoc y by (auto simp: list_rep_def first_Some_cases)
    moreover obtain n where "h b = Some n"
      using rep_live [OF rep, of b] snoc y by auto
    ultimately show ?thesis
      using snoc y
      by (auto simp: listnode_add_def link_heap_def relink_next_def relink_prev_def set_next_def fun_upd_twist Let_def)
  qed
  then show ?thesis
    using link_rep [of l h xs "[]" a ?l v] rep rep_fresh [OF rep new] by simp
qed

lemma detach_eq:
  assumes rep: "list_rep l h (xs @ (a, v) # ys)"
  shows "\<exists>l'. list_delete_node a l h = Some (l', unlink_heap (final None xs) (first ys None) a h) \<and>
    list_rep l' (unlink_heap (final None xs) (first ys None) a h) (xs @ ys) \<and> l_cmp l' = l_cmp l \<and> l_del l' = l_del l"
proof -
  let ?l = "l\<lparr>l_head := (if xs = [] then first ys None else l_head l),
    l_tail := (if ys = [] then final None xs else l_tail l), l_count := l_count l - 1\<rparr>"
  note node = rep_node [OF rep]
  have p: "\<exists>n. h b = Some n \<and> b \<noteq> a" if "final None xs = Some b" for b
    using rep_live [OF rep, of b] ends_in(1) [OF that] rep by (auto simp: list_rep_def)
  have n: "\<exists>n. h b = Some n \<and> b \<noteq> a" if "first ys None = Some b" for b
    using rep_live [OF rep, of b] ends_in(2) [OF that] rep by (auto simp: list_rep_def)
  have "fst ` set xs \<inter> fst ` set ys = {}"
    using rep by (auto simp: list_rep_def)
  then have "first ys None \<noteq> Some b" if "final None xs = Some b" for b
    using ends_in(1) [OF that] ends_in(2) [of ys b] by blast
  then have "list_delete_node a l h = Some (?l, unlink_heap (final None xs) (first ys None) a h)"
    using p n node final_None [of xs] first_Some_cases(1) [of ys]
    by (cases "final None xs"; cases "first ys None")
      (auto simp: list_delete_node_def LISTNODE_DETACH_def listnode_free_def unlink_heap_def relink_next_def
        relink_prev_def set_next_def set_prev_def)
  moreover have "l_head ?l = first (xs @ ys) None" "l_tail ?l = final None (xs @ ys)"
    using rep by (cases xs; auto simp: list_rep_def final_def)+
  ultimately show ?thesis
    using unlink_rep [OF rep, of ?l] by simp
qed

lemmas link_defs = link_heap_def relink_next_def relink_prev_def set_next_def set_prev_def Let_def

text \<open>The neighbours of an insertion point are live, differ from a fresh node and from each other.\<close>

lemma neighbours:
  assumes rep: "list_rep l h (xs @ ys)" and new: "h a = None"
  shows "final None xs = Some p \<Longrightarrow> \<exists>n. h p = Some n \<and> ln_next n = first ys None \<and> p \<noteq> a"
    and "first ys None = Some p \<Longrightarrow> \<exists>n. h p = Some n \<and> ln_prev n = final None xs \<and> p \<noteq> a"
    and "final None xs = Some p \<Longrightarrow> first ys None \<noteq> Some p"
proof -
  show p: "\<exists>n. h p = Some n \<and> ln_next n = first ys None \<and> p \<noteq> a" if "final None xs = Some p"
  proof (cases xs rule: rev_cases)
    case (snoc zs z)
    then show ?thesis
      using that rep new by (cases z) (auto simp: list_rep_def)
  qed (use that in simp)
  show "\<exists>n. h p = Some n \<and> ln_prev n = final None xs \<and> p \<noteq> a" if "first ys None = Some p"
    using that rep new by (cases ys) (auto simp: list_rep_def)
  have "fst ` set xs \<inter> fst ` set ys = {}"
    using rep by (auto simp: list_rep_def)
  then show "first ys None \<noteq> Some p" if "final None xs = Some p"
    using ends_in(1) [OF that] ends_in(2) [of ys p] by blast
qed

lemma link_heap_fresh: "h b = None \<Longrightarrow> b \<noteq> a \<Longrightarrow> link_heap p n a v h b = None"
  by (auto simp: link_heap_def relink_next_def relink_prev_def split: option.split)

lemma insert_eq:
  assumes rep: "list_rep l h (xs @ ys)" and new: "h a = None"
    and eq: "r = Some (l\<lparr>l_head := (if xs = [] then Some a else l_head l),
      l_tail := (if ys = [] then Some a else l_tail l), l_count := l_count l + 1\<rparr>,
      link_heap (final None xs) (first ys None) a v h)"
  shows "\<exists>l' h'. r = Some (l', h') \<and> list_rep l' h' (xs @ (a, v) # ys) \<and> l_cmp l' = l_cmp l \<and> l_del l' = l_del l \<and>
    (\<forall>b. b \<noteq> a \<longrightarrow> h b = None \<longrightarrow> h' b = None)"
  using link_rep [OF rep rep_fresh [OF rep new]] eq by (simp add: link_heap_fresh)

lemma add_after_rep:
  assumes rep: "list_rep l h (xs @ ys)" and new: "h a = None"
  shows "\<exists>l' h'. listnode_add_after (Some a) (final None xs) v l h = Some (l', h') \<and>
    list_rep l' h' (xs @ (a, v) # ys) \<and> l_cmp l' = l_cmp l \<and> l_del l' = l_del l \<and>
    (\<forall>b. b \<noteq> a \<longrightarrow> h b = None \<longrightarrow> h' b = None)"
proof (rule insert_eq [OF rep new])
  note nb = neighbours [OF rep new]
  have hd: "xs = [] \<Longrightarrow> l_head l = first ys None"
    using rep by (simp add: list_rep_def)
  show "listnode_add_after (Some a) (final None xs) v l h =
    Some (l\<lparr>l_head := (if xs = [] then Some a else l_head l),
      l_tail := (if ys = [] then Some a else l_tail l), l_count := l_count l + 1\<rparr>,
      link_heap (final None xs) (first ys None) a v h)"
    using nb hd final_None [of xs] first_Some_cases(1) [of ys]
    by (cases "final None xs"; cases "first ys None")
      (auto simp: listnode_add_after_def link_defs fun_upd_twist)
qed

lemma add_prev_rep:
  assumes rep: "list_rep l h (xs @ (c, w) # ys)" and new: "h a = None"
  shows "\<exists>l' h'. list_add_node_prev (Some a) c v l h = Some (l', h') \<and>
    list_rep l' h' (xs @ (a, v) # (c, w) # ys) \<and> l_cmp l' = l_cmp l \<and> l_del l' = l_del l \<and>
    (\<forall>b. b \<noteq> a \<longrightarrow> h b = None \<longrightarrow> h' b = None)"
proof (rule insert_eq [OF rep new])
  note nb = neighbours [OF rep new]
  show "list_add_node_prev (Some a) c v l h =
    Some (l\<lparr>l_head := (if xs = [] then Some a else l_head l),
      l_tail := (if (c, w) # ys = [] then Some a else l_tail l), l_count := l_count l + 1\<rparr>,
      link_heap (final None xs) (first ((c, w) # ys) None) a v h)"
    using nb final_None [of xs]
    by (cases "final None xs") (auto simp: list_add_node_prev_def link_defs fun_upd_twist)
qed

lemma add_next_rep:
  assumes rep: "list_rep l h ((xs @ [(c, w)]) @ ys)" and new: "h a = None"
  shows "\<exists>l' h'. list_add_node_next (Some a) c v l h = Some (l', h') \<and>
    list_rep l' h' ((xs @ [(c, w)]) @ (a, v) # ys) \<and> l_cmp l' = l_cmp l \<and> l_del l' = l_del l \<and>
    (\<forall>b. b \<noteq> a \<longrightarrow> h b = None \<longrightarrow> h' b = None)"
proof (rule insert_eq [OF rep new])
  note nb = neighbours [OF rep new]
  show "list_add_node_next (Some a) c v l h =
    Some (l\<lparr>l_head := (if xs @ [(c, w)] = [] then Some a else l_head l),
      l_tail := (if ys = [] then Some a else l_tail l), l_count := l_count l + 1\<rparr>,
      link_heap (final None (xs @ [(c, w)])) (first ys None) a v h)"
    using nb first_Some_cases(1) [of ys]
    by (cases "first ys None") (auto simp: list_add_node_next_def link_defs fun_upd_twist)
qed

lemma dropWhile_const_True: "dropWhile (\<lambda>x. True) xs = []"
  by (induction xs) simp_all

text \<open>The traversals end on a represented list and stop where the list functions say.\<close>

lemma sort_position_seg:
  "seg h pv xs None \<Longrightarrow> sort_position cmp v (first xs None) h =
     Some (first (dropWhile (\<lambda>x. \<not> cmp v (snd x) < 0) xs) None)"
  by (induction xs arbitrary: pv) (auto simp: sort_position.simps)

lemma find_node_seg:
  "seg h pv xs None \<Longrightarrow> find_node v (first xs None) h = Some (first (dropWhile (\<lambda>x. snd x \<noteq> v) xs) None)"
  by (induction xs arbitrary: pv) (auto simp: find_node.simps)

definition sort_before :: "('v \<Rightarrow> 'v \<Rightarrow> int) option \<Rightarrow> 'v \<Rightarrow> 'v \<Rightarrow> bool" where
  "sort_before cmp v w = (case cmp of None \<Rightarrow> True | Some c \<Rightarrow> \<not> c v w < 0)"

lemma add_sort_rep:
  fixes v :: 'v
  assumes rep: "list_rep l h zs" and new: "h a = None"
  defines "P \<equiv> \<lambda>x. sort_before (l_cmp l) v (snd x)"
  shows "\<exists>l' h'. listnode_add_sort (Some a) v l h = Some (l', h') \<and>
    list_rep l' h' (takeWhile P zs @ (a, v) # dropWhile P zs) \<and> l_cmp l' = l_cmp l \<and> l_del l' = l_del l \<and>
    (\<forall>b. b \<noteq> a \<longrightarrow> h b = None \<longrightarrow> h' b = None)"
proof -
  let ?xs = "takeWhile P zs" and ?ys = "dropWhile P zs"
  let ?h = "h(a \<mapsto> \<lparr>ln_next = None, ln_prev = None, ln_data = v\<rparr>)"
  have rep': "list_rep l h (?xs @ ?ys)"
    using rep by simp
  note nb = neighbours [OF rep' new]
  have "seg ?h None zs None"
    using rep rep_fresh [OF rep new] by (simp add: list_rep_def)
  then have pos: "(case l_cmp l of None \<Rightarrow> Some None | Some cmp \<Rightarrow> sort_position cmp v (l_head l) ?h) = Some (first ?ys None)"
    using rep sort_position_seg [of ?h None zs] unfolding P_def sort_before_def
    by (auto simp: list_rep_def dropWhile_const_True split: option.split)
  have tl: "?ys = [] \<Longrightarrow> l_tail l = final None ?xs"
    using rep by (metis append_Nil2 list_rep_def takeWhile_dropWhile_id)
  show ?thesis
  proof (rule insert_eq [OF rep' new])
    show "listnode_add_sort (Some a) v l h =
      Some (l\<lparr>l_head := (if ?xs = [] then Some a else l_head l),
        l_tail := (if ?ys = [] then Some a else l_tail l), l_count := l_count l + 1\<rparr>,
        link_heap (final None ?xs) (first ?ys None) a v h)"
      using nb tl pos final_None [of ?xs] first_Some_cases(1) [of ?ys]
      by (cases "final None ?xs"; cases "first ?ys None")
        (auto simp: listnode_add_sort_def link_defs fun_upd_twist)
  qed
qed

lemma delete_rep:
  assumes rep: "list_rep l h zs"
  shows "\<exists>l' h' zs'. listnode_delete v l h = Some (l', h') \<and> list_rep l' h' zs' \<and>
    map snd zs' = remove1 v (map snd zs) \<and> set zs' \<subseteq> set zs \<and> l_cmp l' = l_cmp l \<and> l_del l' = l_del l \<and>
    (\<forall>b. h b = None \<longrightarrow> h' b = None)"
proof -
  let ?xs = "takeWhile (\<lambda>x. snd x \<noteq> v) zs" and ?ys = "dropWhile (\<lambda>x. snd x \<noteq> v) zs"
  have find: "find_node v (l_head l) h = Some (first ?ys None)"
    using rep find_node_seg [of h None zs v] by (simp add: list_rep_def)
  show ?thesis
  proof (cases ?ys)
    case Nil
    then have "v \<notin> snd ` set zs"
      by (auto simp: dropWhile_eq_Nil_conv)
    then have "remove1 v (map snd zs) = map snd zs"
      by (simp add: remove1_idem)
    then show ?thesis
      using find Nil rep by (auto simp: listnode_delete_def)
  next
    case (Cons y ys)
    obtain a where y: "y = (a, v)"
      using Cons hd_dropWhile [of "\<lambda>x. snd x \<noteq> v" zs] by (cases y) auto
    have zs: "zs = ?xs @ (a, v) # ys"
      using Cons y by (metis takeWhile_dropWhile_id)
    then have "list_rep l h (?xs @ (a, v) # ys)"
      using rep by simp
    from detach_eq [OF this] obtain l' where
      "list_delete_node a l h = Some (l', unlink_heap (final None ?xs) (first ys None) a h)"
      "list_rep l' (unlink_heap (final None ?xs) (first ys None) a h) (?xs @ ys)" "l_cmp l' = l_cmp l" "l_del l' = l_del l"
      by blast
    moreover have "v \<notin> snd ` set ?xs"
      by (auto dest: set_takeWhileD)
    then have "map snd (?xs @ ys) = remove1 v (map snd zs)"
      by (subst zs) (simp add: remove1_append)
    moreover have "set (?xs @ ys) \<subseteq> set zs"
      by (subst (2) zs) auto
    moreover have "\<forall>b. h b = None \<longrightarrow> unlink_heap (final None ?xs) (first ys None) a h b = None"
      by (auto simp: unlink_heap_def relink_next_def relink_prev_def split: option.split)
    ultimately show ?thesis
      using find Cons y
      by (intro exI [of _ l'] exI [of _ "unlink_heap (final None ?xs) (first ys None) a h"] exI [of _ "?xs @ ys"])
        (simp add: listnode_delete_def)
  qed
qed

lemma delete_loop_seg:
  "seg h pv xs None \<Longrightarrow> distinct (map fst xs) \<Longrightarrow>
     delete_loop del (first xs None) out h =
       Some (out @ (if del then map snd xs else []), (\<lambda>a. if a \<in> fst ` set xs then None else h a))"
proof (induction xs arbitrary: pv out h)
  case (Cons x xs)
  obtain a v where x: "x = (a, v)"
    by (cases x)
  have eq: "(\<lambda>b. if b \<in> fst ` set xs then None else (h(a := None)) b) =
    (\<lambda>b. if b \<in> fst ` set (x # xs) then None else h b)"
    using x by auto
  have "seg (h(a := None)) (Some a) xs None" "distinct (map fst xs)"
    using Cons.prems x by auto
  then have "delete_loop del (first xs None) out' (h(a := None)) =
    Some (out' @ (if del then map snd xs else []), (\<lambda>b. if b \<in> fst ` set (x # xs) then None else h b))" for out'
    unfolding eq [symmetric] by (rule Cons.IH)
  then show ?case
    using Cons.prems x by (subst delete_loop.simps) (simp add: listnode_free_def)
qed (simp add: delete_loop.simps)

lemma delete_all_rep:
  assumes "list_rep l h xs"
  shows "\<exists>l' h'. list_delete_all_node l h = Some (if l_del l then map snd xs else [], l', h') \<and>
    list_rep l' h' [] \<and> l_cmp l' = l_cmp l \<and> h' = (\<lambda>a. if a \<in> fst ` set xs then None else h a)"
  using assms delete_loop_seg [of h None xs "l_del l" "[]"] by (auto simp: list_delete_all_node_def list_rep_def)

text \<open>A header and heap represent the values of a list.\<close>

definition vals :: "'v llist \<Rightarrow> 'v node_heap \<Rightarrow> 'v list \<Rightarrow> bool" where
  "vals l h vs \<longleftrightarrow> (\<exists>xs. list_rep l h xs \<and> map snd xs = vs)"

datatype 'v list_call = Add 'v | AddSort 'v | AddFirst 'v | Delete 'v | Clear

fun run_list :: "'v list_call list \<Rightarrow> addr list \<Rightarrow> 'v llist \<Rightarrow> 'v node_heap \<Rightarrow> ('v llist \<times> 'v node_heap) option" where
  "run_list [] news l h = Some (l, h)"
| "run_list (Delete v # cs) news l h =
     do { (l, h) \<leftarrow> listnode_delete v l h; run_list cs news l h }"
| "run_list (Clear # cs) news l h =
     do { (out, l, h) \<leftarrow> list_delete_all_node l h; run_list cs news l h }"
| "run_list (c # cs) [] l h = None"
| "run_list (Add v # cs) (a # news) l h =
     do { (l, h) \<leftarrow> listnode_add (Some a) v l h; run_list cs news l h }"
| "run_list (AddSort v # cs) (a # news) l h =
     do { (l, h) \<leftarrow> listnode_add_sort (Some a) v l h; run_list cs news l h }"
| "run_list (AddFirst v # cs) (a # news) l h =
     do { (l, h) \<leftarrow> listnode_add_after (Some a) None v l h; run_list cs news l h }"

fun spec_call :: "('v \<Rightarrow> 'v \<Rightarrow> int) option \<Rightarrow> 'v list_call \<Rightarrow> 'v list \<Rightarrow> 'v list" where
  "spec_call cmp (Add v) vs = vs @ [v]"
| "spec_call cmp (AddSort v) vs =
     takeWhile (sort_before cmp v) vs @ v # dropWhile (sort_before cmp v) vs"
| "spec_call cmp (AddFirst v) vs = v # vs"
| "spec_call cmp (Delete v) vs = remove1 v vs"
| "spec_call cmp Clear vs = []"

lemma takeWhile_map_snd:
  "map snd (takeWhile (\<lambda>x. P (snd x)) zs) = takeWhile P (map snd zs)"
  "map snd (dropWhile (\<lambda>x. P (snd x)) zs) = dropWhile P (map snd zs)"
  by (simp_all add: takeWhile_map dropWhile_map comp_def)

text \<open>One call on a represented list.\<close>

lemma add_frame:
  assumes "list_rep l h xs" "h a = None"
  shows "\<exists>l' h'. listnode_add (Some a) v l h = Some (l', h') \<and> list_rep l' h' (xs @ [(a, v)]) \<and>
    l_cmp l' = l_cmp l \<and> (\<forall>b. b \<noteq> a \<longrightarrow> h b = None \<longrightarrow> h' b = None)"
  using listnode_add_rep [OF assms] link_heap_fresh by (metis (no_types, lifting))

lemma call_refines:
  assumes rep: "vals l h vs" and news: "distinct news" "\<And>a. a \<in> set news \<Longrightarrow> h a = None" "news \<noteq> []"
  shows "\<exists>l' h' news'. (\<forall>cs. run_list (c # cs) news l h = run_list cs news' l' h') \<and>
    vals l' h' (spec_call (l_cmp l) c vs) \<and> l_cmp l' = l_cmp l \<and>
    distinct news' \<and> (\<forall>a\<in>set news'. h' a = None) \<and> length news \<le> Suc (length news')"
proof -
  from rep obtain xs where xs: "list_rep l h xs" "map snd xs = vs"
    by (auto simp: vals_def)
  from news obtain a ns where n: "news = a # ns" "h a = None" "a \<notin> set ns" "distinct ns"
    by (cases news) auto
  have fresh: "\<And>b. b \<in> set ns \<Longrightarrow> h b = None \<and> b \<noteq> a"
    using news n by auto
  have ns: "\<forall>b\<in>set ns. h' b = None" if "\<forall>b. b \<noteq> a \<longrightarrow> h b = None \<longrightarrow> h' b = None" for h' :: "'a node_heap"
    using that fresh by auto
  show ?thesis
  proof (cases c)
    case (Add v)
    from add_frame [OF xs(1) n(2), of v] obtain l' h' where
      "listnode_add (Some a) v l h = Some (l', h')" "list_rep l' h' (xs @ [(a, v)])" "l_cmp l' = l_cmp l"
      "\<forall>b. b \<noteq> a \<longrightarrow> h b = None \<longrightarrow> h' b = None"
      by blast
    then show ?thesis
      using Add n xs(2) ns
      by (intro exI [of _ l'] exI [of _ h'] exI [of _ ns]) (force simp: vals_def)
  next
    case (AddSort v)
    from add_sort_rep [OF xs(1) n(2), of v] obtain l' h' where
      "listnode_add_sort (Some a) v l h = Some (l', h')"
      "list_rep l' h' (takeWhile (\<lambda>x. sort_before (l_cmp l) v (snd x)) xs @ (a, v) #
         dropWhile (\<lambda>x. sort_before (l_cmp l) v (snd x)) xs)" "l_cmp l' = l_cmp l"
      "\<forall>b. b \<noteq> a \<longrightarrow> h b = None \<longrightarrow> h' b = None"
      by blast
    moreover from this(2) have "vals l' h' (spec_call (l_cmp l) c vs)"
      using AddSort xs(2) takeWhile_map_snd [of "sort_before (l_cmp l) v" xs] by (auto simp: vals_def intro!: exI)
    ultimately show ?thesis
      using AddSort n ns by (intro exI [of _ l'] exI [of _ h'] exI [of _ ns]) force
  next
    case (AddFirst v)
    from add_after_rep [of l h "[]" xs a v] xs(1) n(2) obtain l' h' where
      "listnode_add_after (Some a) None v l h = Some (l', h')" "list_rep l' h' ((a, v) # xs)" "l_cmp l' = l_cmp l"
      "\<forall>b. b \<noteq> a \<longrightarrow> h b = None \<longrightarrow> h' b = None"
      by auto
    then show ?thesis
      using AddFirst n xs(2) ns
      by (intro exI [of _ l'] exI [of _ h'] exI [of _ ns]) (force simp: vals_def)
  next
    case (Delete v)
    from delete_rep [OF xs(1), of v] obtain l' h' zs where
      "listnode_delete v l h = Some (l', h')" "list_rep l' h' zs" "map snd zs = remove1 v (map snd xs)"
      "l_cmp l' = l_cmp l" "\<forall>b. h b = None \<longrightarrow> h' b = None"
      by blast
    then show ?thesis
      using Delete news xs(2)
      by (intro exI [of _ l'] exI [of _ h'] exI [of _ news]) (auto simp: vals_def)
  next
    case Clear
    from delete_all_rep [OF xs(1)] obtain l' h' where
      "list_delete_all_node l h = Some (if l_del l then map snd xs else [], l', h')" "list_rep l' h' []"
      "l_cmp l' = l_cmp l" "h' = (\<lambda>a. if a \<in> fst ` set xs then None else h a)"
      by blast
    then show ?thesis
      using Clear news
      by (intro exI [of _ l'] exI [of _ h'] exI [of _ news]) (auto simp: vals_def)
  qed
qed

lemma run_list_refines:
  assumes "vals l h vs" "distinct news" "\<And>a. a \<in> set news \<Longrightarrow> h a = None" "length cs \<le> length news"
  shows "\<exists>l' h'. run_list cs news l h = Some (l', h') \<and> vals l' h' (fold (spec_call (l_cmp l)) cs vs)"
  using assms
proof (induction cs arbitrary: news l h vs)
  case (Cons c cs)
  have "news \<noteq> []"
    using Cons.prems(4) by auto
  from call_refines [OF Cons.prems(1-3) this, of c] obtain l' h' news' where
    c: "\<And>cs. run_list (c # cs) news l h = run_list cs news' l' h'" "vals l' h' (spec_call (l_cmp l) c vs)"
      "l_cmp l' = l_cmp l" "distinct news'" "\<And>a. a \<in> set news' \<Longrightarrow> h' a = None" "length news \<le> Suc (length news')"
    by metis
  show ?case
    using Cons.IH [OF c(2,4,5)] c(1,3,6) Cons.prems(4) by simp
qed auto

section \<open>Properties\<close>



lemma sorted_insert_position:
  fixes key :: "'v \<Rightarrow> 'k :: linorder"
  assumes "sorted (map key vs)" "\<And>w. P w \<longleftrightarrow> key w \<le> key v"
  shows "sorted (map key (takeWhile P vs @ v # dropWhile P vs))"
proof -
  have "sorted (map key (takeWhile P vs @ dropWhile P vs))"
    using assms(1) by (simp only: takeWhile_dropWhile_id)
  then have parts: "sorted (map key (takeWhile P vs))" "sorted (map key (dropWhile P vs))"
    unfolding map_append by (auto simp: sorted_append)
  have "\<forall>w\<in>set (dropWhile P vs). key v \<le> key w"
  proof (cases "dropWhile P vs")
    case (Cons w ws)
    then have "\<not> P w"
      using hd_dropWhile [of P vs] by simp
    then show ?thesis
      using Cons assms(2) parts(2) by force
  qed (metis empty_iff empty_set)
  moreover have "\<forall>w\<in>set (takeWhile P vs). key w \<le> key v"
    using assms(2) by (auto dest: set_takeWhileD)
  moreover note parts
  ultimately show ?thesis
    by (fastforce simp: sorted_append)
qed

text \<open>\<open>listnode_add_sort\<close> keeps a sorted list sorted: when the comparison callback orders the values
  by a key and the list is sorted by it, so is the list afterwards, with the new value added.\<close>

theorem add_sort_sorted:
  fixes key :: "'v \<Rightarrow> 'k :: linorder"
  assumes "list_rep l h zs" "h a = None" "l_cmp l = Some cmp" "\<And>x y. cmp x y < 0 \<longleftrightarrow> key x < key y"
    and "sorted (map (key \<circ> snd) zs)"
  shows "\<exists>l' h' zs'. listnode_add_sort (Some a) v l h = Some (l', h') \<and> list_rep l' h' zs' \<and>
    sorted (map (key \<circ> snd) zs') \<and> set zs' = insert (a, v) (set zs) \<and> length zs' = Suc (length zs)"
proof -
  let ?P = "\<lambda>x. sort_before (l_cmp l) v (snd x)"
  let ?zs = "takeWhile ?P zs @ (a, v) # dropWhile ?P zs"
  from add_sort_rep [OF assms(1,2), of v] obtain l' h' where
    "listnode_add_sort (Some a) v l h = Some (l', h')" "list_rep l' h' ?zs"
    by blast
  moreover have "sorted (map (key \<circ> snd) ?zs)"
    using assms(3-5) sorted_insert_position [of "key \<circ> snd" zs ?P "(a, v)"]
    by (simp add: sort_before_def not_less)
  moreover have "set ?zs = insert (a, v) (set zs)"
    by (metis Un_insert_right list.simps(15) set_append takeWhile_dropWhile_id)
  moreover have "length ?zs = Suc (length zs)"
    by (metis add_Suc_right length_Cons length_append takeWhile_dropWhile_id)
  ultimately show ?thesis
    by blast
qed

theorem add_sort_sorted_witness:
  "\<exists>l' h' zs'. listnode_add_sort (Some 7) (4 :: int)
       \<lparr>l_head = Some 5, l_tail = Some 5, l_count = 1, l_cmp = Some (\<lambda>x y. x - y), l_del = False\<rparr>
       [5 \<mapsto> \<lparr>ln_next = None, ln_prev = None, ln_data = 6\<rparr>] = Some (l', h') \<and> list_rep l' h' zs' \<and>
     sorted (map snd zs') \<and> length zs' = 2"
proof -
  let ?l = "\<lparr>l_head = Some 5, l_tail = Some 5, l_count = 1, l_cmp = Some (\<lambda>x y. x - y), l_del = False\<rparr>"
  let ?h = "[5 \<mapsto> \<lparr>ln_next = None, ln_prev = None, ln_data = 6 :: int\<rparr>]"
  have "list_rep ?l ?h [(5, 6)]"
    by (simp add: list_rep_def)
  from add_sort_sorted [OF this, of 7 "\<lambda>x y. x - y" id 4] show ?thesis
    by (auto simp: numeral_2_eq_2)
qed

end
