(* ===== verification/Idmaker.thy ===== *)
theory Idmaker
  imports Linklist
begin

text \<open>
  The identifier pool of \<open>misaka/lib/idmaker.c\<close>: a counter that runs up to a limit, and a list of
  returned identifiers to use after that. The list holds pointers to \<open>malloc\<close>ed integers; these blocks
  live in a store of their own. What \<open>malloc\<close> returns is a parameter: an address, if the call
  succeeds, and the value the fresh memory holds.
\<close>

section \<open>State and operations\<close>

record idmaker =
  im_start :: cint
  im_stop :: cint
  im_store :: "addr llist"
  im_nodes :: "addr node_heap"
  im_ints :: "addr \<Rightarrow> cint option"
  im_curr :: cint

text \<open>\<open>idmaker_new\<close> sets every field but \<open>curr\<close>, which keeps what the memory held.\<close>

definition idmaker_new :: "cint \<Rightarrow> cint \<Rightarrow> cint \<Rightarrow> idmaker" where
  "idmaker_new garbage start stop =
     \<lparr>im_start = start, im_stop = stop, im_store = list_new, im_nodes = Map.empty, im_ints = Map.empty, im_curr = garbage\<rparr>"

text \<open>The result: the identifier and the flag. \<open>curr++\<close> on \<open>INT_MAX\<close> overflows.\<close>

definition idmaker_get :: "idmaker \<Rightarrow> ((cint \<times> int) \<times> idmaker) option" where
  "idmaker_get m =
     (if im_curr m \<noteq> im_stop m then
        (if sint (im_curr m) = INT_MAX then None
         else Some ((im_curr m, 1), m\<lparr>im_curr := im_curr m + 1\<rparr>))
      else
        (case l_head (im_store m) of
           None \<Rightarrow> Some ((0, 0), m)
         | Some node \<Rightarrow> do {
             n \<leftarrow> im_nodes m node;
             ret \<leftarrow> im_ints m (ln_data n);
             (l, h) \<leftarrow> list_delete_node node (im_store m) (im_nodes m);
             Some ((ret, 1), m\<lparr>im_store := l, im_nodes := h, im_ints := (im_ints m)(ln_data n := None)\<rparr>)
           }))"

text \<open>\<open>idmaker_put\<close>: the block it allocates is linked into the list; \<open>i\<close> is never stored into it.\<close>

definition idmaker_put :: "ptr \<Rightarrow> cint \<Rightarrow> ptr \<Rightarrow> idmaker \<Rightarrow> cint \<Rightarrow> (int \<times> idmaker) option" where
  "idmaker_put block garbage node m i =
     (case block of
        None \<Rightarrow> Some (-1, m)
      | Some b \<Rightarrow> do {
          (l, h) \<leftarrow> listnode_add node b (im_store m) (im_nodes m);
          Some (0, m\<lparr>im_store := l, im_nodes := h, im_ints := (im_ints m)(b \<mapsto> garbage)\<rparr>)
        })"

section \<open>Handing out the counter\<close>

fun idmaker_gets :: "nat \<Rightarrow> idmaker \<Rightarrow> ((cint \<times> int) list \<times> idmaker) option" where
  "idmaker_gets 0 m = Some ([], m)"
| "idmaker_gets (Suc n) m = do {
     (r, m) \<leftarrow> idmaker_get m;
     (rs, m) \<leftarrow> idmaker_gets n m;
     Some (r # rs, m)
   }"

lemma sint_succ: "sint (c :: cint) < INT_MAX \<Longrightarrow> sint (c + 1) = sint c + 1"
proof -
  assume "sint c < INT_MAX"
  moreover have "- 2147483648 \<le> sint c"
    using sint_ge [of c] by simp
  ultimately show ?thesis
    using signed_take_bit_int_eq_self [of 31 "sint c + 1"] sint_sbintrunc' [of "sint c + 1", where ?'a = 32]
    by (simp del: sint_sbintrunc')
qed

lemma gets_count:
  assumes "sint (im_curr m) + int n \<le> sint (im_stop m)"
  shows "\<exists>m'. idmaker_gets n m = Some (map (\<lambda>k. (im_curr m + of_nat k, 1)) [0..<n], m') \<and>
    im_curr m' = im_curr m + of_nat n \<and> im_stop m' = im_stop m"
  using assms
proof (induction n arbitrary: m)
  case (Suc n)
  have lt: "sint (im_curr m) < sint (im_stop m)" "sint (im_stop m) \<le> INT_MAX"
    using Suc.prems sint_lt [of "im_stop m"] by auto
  then have get: "idmaker_get m = Some ((im_curr m, 1), m\<lparr>im_curr := im_curr m + 1\<rparr>)"
    by (auto simp: idmaker_get_def)
  have "sint (im_curr (m\<lparr>im_curr := im_curr m + 1\<rparr>)) + int n \<le> sint (im_stop (m\<lparr>im_curr := im_curr m + 1\<rparr>))"
    using Suc.prems lt sint_succ [of "im_curr m"] by simp
  from Suc.IH [OF this] obtain m' where
    "idmaker_gets n (m\<lparr>im_curr := im_curr m + 1\<rparr>) = Some (map (\<lambda>k. (im_curr m + 1 + of_nat k, 1)) [0..<n], m')"
    "im_curr m' = im_curr m + 1 + of_nat n" "im_stop m' = im_stop m"
    by auto
  moreover have "map (\<lambda>k. (im_curr m + of_nat k, 1 :: int)) [0..<Suc n] =
    (im_curr m, 1) # map (\<lambda>k. (im_curr m + 1 + of_nat k, 1)) [0..<n]"
    by (simp add: upt_conv_Cons map_Suc_upt [symmetric] comp_def add.assoc del: upt_Suc)
  ultimately show ?case
    using get by simp
qed simp

lemma idmaker_put_defined:
  assumes "list_rep (im_store m) (im_nodes m) xs" "im_nodes m a = None"
  shows "\<exists>r m'. idmaker_put block garbage (Some a) m i = Some (r, m')"
proof (cases block)
  case (Some b)
  from listnode_add_rep [OF assms, of b] show ?thesis
    using Some by (auto simp: idmaker_put_def)
qed (simp add: idmaker_put_def)

section \<open>Properties\<close>

text \<open>Once the counter has reached the limit, an identifier that was returned is not handed out
  again: \<open>idmaker_put\<close> never writes it into the block it links, so the next \<open>idmaker_get\<close> returns
  whatever the freshly allocated memory held.\<close>

theorem idmaker_put_forgets:
  assumes "list_rep (im_store m) (im_nodes m) []" "im_curr m = im_stop m" "im_nodes m a = None"
  shows "\<exists>m' m''. idmaker_put (Some b) garbage (Some a) m i = Some (0, m') \<and>
    idmaker_get m' = Some ((garbage, 1), m'')"
proof -
  from listnode_add_rep [OF assms(1,3), of b] obtain l where
    l: "listnode_add (Some a) b (im_store m) (im_nodes m) = Some (l, link_heap None None a b (im_nodes m))"
      "list_rep l (link_heap None None a b (im_nodes m)) ([] @ [(a, b)])"
    by auto
  from detach_eq [OF l(2)] obtain l2 h2 where
    "list_delete_node a l (link_heap None None a b (im_nodes m)) = Some (l2, h2)"
    by auto
  then show ?thesis
    using l assms(2) rep_node [OF l(2)] by (auto simp: idmaker_put_def idmaker_get_def list_rep_def)
qed

theorem idmaker_put_forgets_witness:
  "\<exists>m' m''. idmaker_put (Some 8) 42 (Some 4) (idmaker_new 99 1 99) 7 = Some (0, m') \<and>
     idmaker_get m' = Some ((42, 1), m'')"
  using idmaker_put_forgets [of "idmaker_new 99 1 99" 4 8 42 7]
  by (simp add: idmaker_new_def list_new_def list_rep_def)

text \<open>Below the limit the pool counts: \<open>n\<close> calls return the \<open>n\<close> consecutive identifiers from the counter
  on, all different, each with its flag set.\<close>

theorem idmaker_counts:
  assumes "sint (im_curr m) + int n \<le> sint (im_stop m)"
  shows "\<exists>m'. idmaker_gets n m = Some (map (\<lambda>k. (im_curr m + of_nat k, 1)) [0..<n], m') \<and>
    distinct (map (\<lambda>k. im_curr m + of_nat k) [0..<n])"
proof -
  have "int n < 4294967296"
    using assms sint_lt [of "im_stop m"] sint_ge [of "im_curr m"] by simp
  then have "inj_on (\<lambda>k. im_curr m + of_nat k) {0..<n}"
    by (intro inj_onI) (simp add: word_of_nat_eq_iff take_bit_nat_eq_self)
  then show ?thesis
    using gets_count [OF assms] by (auto simp: distinct_map)
qed

theorem idmaker_counts_witness:
  "\<exists>m'. idmaker_gets 3 (idmaker_new 100 100 99999) =
     Some (map (\<lambda>k. (im_curr (idmaker_new 100 100 99999) + of_nat k, 1)) [0..<3], m')"
  using idmaker_counts [of "idmaker_new 100 100 99999" 3] by (auto simp: idmaker_new_def)

end
