(* ===== verification/Mq.thy ===== *)
theory Mq
  imports Queues
begin

text \<open>
  The message queues of \<open>misaka/lib/skynet_mq.c\<close>: a growing ring buffer per queue, and the global
  queue that links the queues with work for the worker threads.

  The queue structures live in a store of addresses, because the global queue links them through
  their \<open>next\<close> field. A ring slot is \<open>None\<close> as long as nothing was stored there (\<open>malloc\<close> leaves it
  indeterminate); popping such a slot is undefined. \<open>int\<close> fields are integers, with the overflow of
  the capacity and of the threshold checked where the code multiplies them. The file includes
  \<open>assert.h\<close>, so a failing assertion aborts; an abort is \<open>None\<close> too. The spin locks make each
  operation a critical section; the model runs them one at a time. \<open>malloc\<close> is the parameter \<open>alloc\<close>,
  which says whether an allocation of that many bytes succeeds; the code never checks.
\<close>

section \<open>State\<close>

abbreviation (input) DEFAULT_QUEUE_SIZE :: int where "DEFAULT_QUEUE_SIZE \<equiv> 64"
abbreviation (input) MQ_IN_GLOBAL :: int where "MQ_IN_GLOBAL \<equiv> 1"
abbreviation (input) MQ_OVERLOAD :: int where "MQ_OVERLOAD \<equiv> 1024"

record 'm message_queue =
  mq_handle :: u32
  mq_cap :: int
  mq_head :: int
  mq_tail :: int
  mq_release :: int
  mq_in_global :: int
  mq_overload :: int
  mq_overload_threshold :: int
  mq_queue :: "'m option list"
  mq_next :: ptr

record global_queue =
  gq_head :: ptr
  gq_tail :: ptr

text \<open>The live queues and the variable \<open>Q\<close>, NULL before \<open>skynet_mq_init\<close>.\<close>

record 'm mq_state =
  st_mq :: "addr \<Rightarrow> 'm message_queue option"
  st_Q :: "global_queue option"

definition upd_mq :: "addr \<Rightarrow> 'm message_queue \<Rightarrow> 'm mq_state \<Rightarrow> 'm mq_state" where
  "upd_mq a q st = st\<lparr>st_mq := (st_mq st)(a := Some q)\<rparr>"

section \<open>The global queue\<close>

definition skynet_globalmq_push :: "addr \<Rightarrow> 'm mq_state \<Rightarrow> 'm mq_state option" where
  "skynet_globalmq_push queue st =
     do {
       q \<leftarrow> st_Q st;
       (case gq_tail q of
          Some t \<Rightarrow> do {
            mt \<leftarrow> st_mq st t;
            Some ((upd_mq t (mt\<lparr>mq_next := Some queue\<rparr>) st)\<lparr>st_Q := Some (q\<lparr>gq_tail := Some queue\<rparr>)\<rparr>)
          }
        | None \<Rightarrow> Some (st\<lparr>st_Q := Some (q\<lparr>gq_head := Some queue, gq_tail := Some queue\<rparr>)\<rparr>))
     }"

definition skynet_globalmq_pop :: "'m mq_state \<Rightarrow> (ptr \<times> 'm mq_state) option" where
  "skynet_globalmq_pop st =
     do {
       q \<leftarrow> st_Q st;
       (case gq_head q of
          Some mq \<Rightarrow> do {
            m \<leftarrow> st_mq st mq;
            (if mq_next m = None then
               (if Some mq = gq_tail q then
                  Some (Some mq, (upd_mq mq (m\<lparr>mq_next := None\<rparr>) st)\<lparr>st_Q := Some (q\<lparr>gq_head := None, gq_tail := None\<rparr>)\<rparr>)
                else None)
             else Some (Some mq, (upd_mq mq (m\<lparr>mq_next := None\<rparr>) st)\<lparr>st_Q := Some (q\<lparr>gq_head := mq_next m\<rparr>)\<rparr>))
          }
        | None \<Rightarrow> Some (None, st))
     }"

definition skynet_mq_init :: "'m mq_state \<Rightarrow> 'm mq_state" where
  "skynet_mq_init st = st\<lparr>st_Q := Some \<lparr>gq_head = None, gq_tail = None\<rparr>\<rparr>"

section \<open>One queue\<close>

text \<open>\<open>skynet_mq_create\<close>: the structure it fills; the ring is 64 indeterminate slots.\<close>

definition skynet_mq_create :: "u32 \<Rightarrow> 'm message_queue" where
  "skynet_mq_create handle =
     \<lparr>mq_handle = handle, mq_cap = DEFAULT_QUEUE_SIZE, mq_head = 0, mq_tail = 0, mq_release = 0,
      mq_in_global = 0, mq_overload = 0, mq_overload_threshold = MQ_OVERLOAD,
      mq_queue = replicate (nat DEFAULT_QUEUE_SIZE) None, mq_next = None\<rparr>"

definition skynet_mq_handle :: "'m message_queue \<Rightarrow> u32" where
  "skynet_mq_handle q = mq_handle q"

definition skynet_mq_length :: "'m message_queue \<Rightarrow> int" where
  "skynet_mq_length q =
     (let head = mq_head q; tail = mq_tail q; cap = mq_cap q in
      if head \<le> tail then tail - head else tail + cap - head)"

definition skynet_mq_overload :: "'m message_queue \<Rightarrow> int \<times> 'm message_queue" where
  "skynet_mq_overload q = (if mq_overload q \<noteq> 0 then (mq_overload q, q\<lparr>mq_overload := 0\<rparr>) else (0, q))"

text \<open>The loop that doubles the threshold. It may not end (a threshold of 0) or overflow: both are
  \<open>None\<close>.\<close>

partial_function (option) overload_loop :: "int \<Rightarrow> int \<Rightarrow> int \<Rightarrow> (int \<times> int) option" where
  "overload_loop len overload threshold =
     (if threshold < len then
        (if INT_MAX < threshold * 2 then None else overload_loop len len (threshold * 2))
      else Some (overload, threshold))"

declare overload_loop.simps [code]

text \<open>An access to the ring: outside the allocation it is undefined.\<close>

definition ring_get :: "'m option list \<Rightarrow> int \<Rightarrow> 'm option" where
  "ring_get xs i = (if 0 \<le> i \<and> nat i < length xs then xs ! nat i else None)"

definition skynet_mq_pop :: "'m message_queue \<Rightarrow> (int \<times> 'm option \<times> 'm message_queue) option" where
  "skynet_mq_pop q =
     (if mq_head q \<noteq> mq_tail q then
        do {
          message \<leftarrow> ring_get (mq_queue q) (mq_head q);
          let head = mq_head q + 1;
          let tail = mq_tail q;
          let cap = mq_cap q;
          let head = (if cap \<le> head then 0 else head);
          let len = tail - head;
          let len = (if len < 0 then len + cap else len);
          (overload, threshold) \<leftarrow> overload_loop len (mq_overload q) (mq_overload_threshold q);
          Some (0, Some message,
            q\<lparr>mq_head := head, mq_overload := overload, mq_overload_threshold := threshold\<rparr>)
        }
      else Some (1, None, q\<lparr>mq_overload_threshold := MQ_OVERLOAD, mq_in_global := 0\<rparr>))"

text \<open>\<open>expand_queue\<close>: the slots are copied in ring order into a block of twice the size. The
  multiplication of the size by \<open>sizeof\<close> is in \<open>size_t\<close>, the doubling of \<open>cap\<close> in \<open>int\<close>.\<close>

definition expand_queue :: "(size_t \<Rightarrow> bool) \<Rightarrow> 'm message_queue \<Rightarrow> 'm message_queue option" where
  "expand_queue alloc q =
     (let cap = mq_cap q in
      if alloc (8 * word_of_int cap * 2) \<and> length (mq_queue q) = nat cap \<and> cap * 2 \<le> INT_MAX then
        Some (q\<lparr>mq_queue := map (\<lambda>i. mq_queue q ! nat ((mq_head q + int i) mod cap)) [0..<nat cap] @ replicate (nat cap) None,
                mq_head := 0, mq_tail := cap, mq_cap := cap * 2\<rparr>)
      else None)"

text \<open>The ring part of \<open>skynet_mq_push\<close>, and the whole operation on the store.\<close>

definition ring_push :: "(size_t \<Rightarrow> bool) \<Rightarrow> 'm message_queue \<Rightarrow> 'm \<Rightarrow> 'm message_queue option" where
  "ring_push alloc q message =
     (if 0 \<le> mq_tail q \<and> nat (mq_tail q) < length (mq_queue q) then
        (let q = q\<lparr>mq_queue := (mq_queue q)[nat (mq_tail q) := Some message]\<rparr>;
             tail = mq_tail q + 1;
             q = q\<lparr>mq_tail := (if mq_cap q \<le> tail then 0 else tail)\<rparr> in
         if mq_head q = mq_tail q then expand_queue alloc q else Some q)
      else None)"

definition skynet_mq_push :: "(size_t \<Rightarrow> bool) \<Rightarrow> addr \<Rightarrow> 'm \<Rightarrow> 'm mq_state \<Rightarrow> 'm mq_state option" where
  "skynet_mq_push alloc a message st =
     do {
       q \<leftarrow> st_mq st a;
       q \<leftarrow> ring_push alloc q message;
       (if mq_in_global q = 0
        then skynet_globalmq_push a (upd_mq a (q\<lparr>mq_in_global := MQ_IN_GLOBAL\<rparr>) st)
        else Some (upd_mq a q st))
     }"

definition skynet_mq_global :: "'m message_queue \<Rightarrow> int \<Rightarrow> 'm message_queue" where
  "skynet_mq_global q val = q\<lparr>mq_in_global := val\<rparr>"

section \<open>Releasing a queue\<close>

definition skynet_mq_mark_release :: "addr \<Rightarrow> 'm mq_state \<Rightarrow> 'm mq_state option" where
  "skynet_mq_mark_release a st =
     do {
       q \<leftarrow> st_mq st a;
       (if mq_release q = 0 then
          (let st = upd_mq a (q\<lparr>mq_release := 1\<rparr>) st in
           if mq_in_global q \<noteq> MQ_IN_GLOBAL then skynet_globalmq_push a st else Some st)
        else None)
     }"

text \<open>\<open>_release\<close> frees the structure.\<close>

definition release_mq :: "addr \<Rightarrow> 'm mq_state \<Rightarrow> 'm mq_state option" where
  "release_mq a st =
     do {
       q \<leftarrow> st_mq st a;
       (if mq_next q = None then Some (st\<lparr>st_mq := (st_mq st)(a := None)\<rparr>) else None)
     }"

text \<open>The loop of \<open>_drop_queue\<close>: the messages handed to the drop function, and the drained
  queue.\<close>

partial_function (option) drop_loop :: "'m message_queue \<Rightarrow> 'm list \<Rightarrow> ('m list \<times> 'm message_queue) option" where
  "drop_loop q dropped =
     do {
       (ret, msg, q) \<leftarrow> skynet_mq_pop q;
       (if ret = 0 then do { m \<leftarrow> msg; drop_loop q (dropped @ [m]) } else Some (dropped, q))
     }"

declare drop_loop.simps [code]

definition drop_queue :: "addr \<Rightarrow> 'm mq_state \<Rightarrow> ('m list \<times> 'm mq_state) option" where
  "drop_queue a st =
     do {
       q \<leftarrow> st_mq st a;
       (dropped, q) \<leftarrow> drop_loop q [];
       st \<leftarrow> release_mq a (upd_mq a q st);
       Some (dropped, st)
     }"

definition skynet_mq_release :: "addr \<Rightarrow> 'm mq_state \<Rightarrow> ('m list \<times> 'm mq_state) option" where
  "skynet_mq_release a st =
     do {
       q \<leftarrow> st_mq st a;
       (if mq_release q \<noteq> 0 then drop_queue a st
        else do {
          st \<leftarrow> skynet_globalmq_push a st;
          Some ([], st)
        })
     }"

section \<open>The ring as a list\<close>

definition mq_len :: "'m message_queue \<Rightarrow> nat" where
  "mq_len q = nat (skynet_mq_length q)"

definition slot_ix :: "'m message_queue \<Rightarrow> nat \<Rightarrow> nat" where
  "slot_ix q i = nat ((mq_head q + int i) mod mq_cap q)"

definition mq_list :: "'m message_queue \<Rightarrow> 'm list" where
  "mq_list q = map (\<lambda>i. the (mq_queue q ! slot_ix q i)) [0..<mq_len q]"

definition ring_ok :: "'m message_queue \<Rightarrow> bool" where
  "ring_ok q \<longleftrightarrow> 0 \<le> mq_head q \<and> mq_head q < mq_cap q \<and> 0 \<le> mq_tail q \<and> mq_tail q < mq_cap q \<and>
     length (mq_queue q) = nat (mq_cap q) \<and> (\<forall>i<mq_len q. mq_queue q ! slot_ix q i \<noteq> None)"

definition mq_wf :: "'m message_queue \<Rightarrow> bool" where
  "mq_wf q \<longleftrightarrow> ring_ok q \<and> (\<exists>k\<le>24. mq_cap q = 64 * 2 ^ k) \<and>
     (\<exists>j\<le>20. mq_overload_threshold q = 1024 * 2 ^ j)"

lemma length_mq_list [simp]: "length (mq_list q) = mq_len q"
  by (simp add: mq_list_def)

lemma nth_mq_list: "i < mq_len q \<Longrightarrow> mq_list q ! i = the (mq_queue q ! slot_ix q i)"
  by (simp add: mq_list_def)

lemma mod_wrap: "0 \<le> x \<Longrightarrow> x < 2 * c \<Longrightarrow> x mod c = (if x < c then x else x - c)" for x c :: int
proof -
  assume "0 \<le> x" "x < 2 * c"
  then show ?thesis
    using minus_mod_self2 [of x c] mod_pos_pos_trivial [of "x - c" c] by (auto simp: mod_pos_pos_trivial)
qed

lemma ring_len:
  assumes "ring_ok q"
  shows "int (mq_len q) = skynet_mq_length q" "mq_len q < nat (mq_cap q)"
    "mq_tail q = (mq_head q + int (mq_len q)) mod mq_cap q" "mq_len q = 0 \<longleftrightarrow> mq_head q = mq_tail q"
  using assms mod_wrap [of "mq_head q + skynet_mq_length q" "mq_cap q"]
  by (auto simp: mq_len_def skynet_mq_length_def ring_ok_def Let_def)

lemma slot_ix_less: "ring_ok q \<Longrightarrow> slot_ix q i < nat (mq_cap q)"
  by (simp add: slot_ix_def ring_ok_def nat_less_iff)

lemma slot_ix_inj:
  assumes "ring_ok q" "i < nat (mq_cap q)" "j < nat (mq_cap q)" "slot_ix q i = slot_ix q j"
  shows "i = j"
  using assms mod_wrap [of "mq_head q + int i" "mq_cap q"] mod_wrap [of "mq_head q + int j" "mq_cap q"]
  by (auto simp: slot_ix_def ring_ok_def split: if_splits)

lemma slot_ix_tail: "ring_ok q \<Longrightarrow> slot_ix q (mq_len q) = nat (mq_tail q)"
  using ring_len(3) [of q] by (simp add: slot_ix_def)

text \<open>The threshold loop ends, leaves the threshold a power of two times the initial one, and
  reports the length when it was over the threshold.\<close>

lemma overload_loop_ok:
  assumes "len \<le> 1024 * 2 ^ 20" "j \<le> 20" "thr = 1024 * 2 ^ j"
  shows "\<exists>ov' j'. overload_loop len ov thr = Some (ov', 1024 * 2 ^ j') \<and> j' \<le> 20 \<and>
    ov' = (if thr < len then len else ov) \<and> len \<le> 1024 * 2 ^ j'"
  using assms
proof (induction "20 - j" arbitrary: j ov thr)
  case 0
  then have "j = 20"
    by simp
  then have "thr = 1024 * 2 ^ 20" "len \<le> 1024 * 2 ^ 20"
    using 0 by simp_all
  then show ?case
    by (subst overload_loop.simps) (intro exI [of _ ov] exI [of _ 20], simp)
next
  case (Suc d)
  have "(2 :: int) ^ Suc j \<le> 2 ^ 20"
    using Suc.hyps(2) by (intro power_increasing) auto
  then have le: "\<not> 2147483647 < thr * 2"
    using Suc.prems(3) by simp
  have double: "thr * 2 = 1024 * 2 ^ Suc j"
    using Suc.prems(3) by simp
  have "d = 20 - Suc j" "Suc j \<le> 20"
    using Suc.hyps(2) by simp_all
  from Suc.hyps(1) [OF this(1) Suc.prems(1) this(2) double, of len]
  obtain j' where ih: "overload_loop len len (thr * 2) = Some (len, 1024 * 2 ^ j')" "j' \<le> 20"
    "len \<le> 1024 * 2 ^ j'"
    by auto
  show ?case
  proof (cases "thr < len")
    case True
    then show ?thesis
      using ih le by (subst overload_loop.simps) auto
  next
    case False
    then show ?thesis
      using Suc.prems by (subst overload_loop.simps) (intro exI [of _ ov] exI [of _ j], simp)
  qed
qed

section \<open>Push and pop implement a list queue\<close>

lemma pop_empty:
  assumes "mq_wf q" "mq_list q = []"
  shows "\<exists>q'. skynet_mq_pop q = Some (1, None, q') \<and> mq_wf q' \<and> mq_list q' = [] \<and> mq_in_global q' = 0 \<and>
    mq_next q' = mq_next q"
proof -
  let ?q = "q\<lparr>mq_overload_threshold := 1024, mq_in_global := 0\<rparr>"
  have "mq_len q = 0"
    using assms(2) by (metis length_mq_list list.size(3))
  then have "mq_head q = mq_tail q"
    using assms(1) ring_len(4) by (auto simp: mq_wf_def)
  then have "skynet_mq_pop q = Some (1, None, ?q)"
    by (simp add: skynet_mq_pop_def)
  moreover have len: "mq_len ?q = 0"
    using \<open>mq_len q = 0\<close> by (simp add: mq_len_def skynet_mq_length_def)
  then have "mq_list ?q = []"
    by (simp add: mq_list_def)
  moreover have "mq_wf ?q"
    using assms(1) len by (auto simp: mq_wf_def ring_ok_def intro: exI [of _ 0])
  ultimately show ?thesis
    by simp
qed

lemma pop_next:
  assumes "mq_wf q" "mq_list q = m # ms"
  shows "\<exists>q'. skynet_mq_pop q = Some (0, Some m, q') \<and> mq_wf q' \<and> mq_list q' = ms \<and>
    mq_in_global q' = mq_in_global q \<and> mq_next q' = mq_next q \<and>
    (mq_overload_threshold q < int (length ms) \<longrightarrow> mq_overload q' = int (length ms))"
proof -
  have ok: "ring_ok q"
    using assms(1) by (simp add: mq_wf_def)
  note bounds = ok [unfolded ring_ok_def]
  have len: "mq_len q = Suc (length ms)"
    using assms(2) by (metis length_Cons length_mq_list)
  then have ne: "mq_head q \<noteq> mq_tail q"
    using ring_len(4) [OF ok] by simp
  define h where "h = (if mq_cap q \<le> mq_head q + 1 then 0 else mq_head q + 1)"
  have h: "h = (mq_head q + 1) mod mq_cap q"
    using bounds mod_wrap [of "mq_head q + 1" "mq_cap q"] by (auto simp: h_def)
  define n where "n = (if mq_tail q - h < 0 then mq_tail q - h + mq_cap q else mq_tail q - h)"
  have n: "n = int (length ms)"
    using bounds len ne ring_len(1) [OF ok] by (auto simp: n_def h_def skynet_mq_length_def Let_def split: if_splits)
  from assms(1) obtain k j where kj: "k \<le> 24" "mq_cap q = 64 * 2 ^ k" "j \<le> 20"
    "mq_overload_threshold q = 1024 * 2 ^ j"
    by (auto simp: mq_wf_def)
  have "(2 :: int) ^ k \<le> 2 ^ 24"
    using kj(1) by (intro power_increasing) auto
  then have "n \<le> 1024 * 2 ^ 20"
    using ring_len(2) [OF ok] len kj(2) n by simp
  from overload_loop_ok [OF this kj(3,4), of "mq_overload q"] obtain ov j' where
    ov: "overload_loop n (mq_overload q) (mq_overload_threshold q) = Some (ov, 1024 * 2 ^ j')" "j' \<le> 20"
      "mq_overload_threshold q < n \<longrightarrow> ov = n"
    by auto
  define q' where "q' = q\<lparr>mq_head := h, mq_overload := ov, mq_overload_threshold := 1024 * 2 ^ j'\<rparr>"
  have m: "ring_get (mq_queue q) (mq_head q) = Some m"
  proof -
    have "slot_ix q 0 = nat (mq_head q)"
      using bounds by (simp add: slot_ix_def)
    then show ?thesis
      using bounds nth_mq_list [of 0 q] len assms(2) by (auto simp: ring_get_def)
  qed
  have pop: "skynet_mq_pop q = Some (0, Some m, q')"
    using ne m ov(1) by (auto simp: skynet_mq_pop_def h_def [symmetric] n_def q'_def Let_def)
  have len': "mq_len q' = length ms"
    using bounds n by (auto simp: mq_len_def q'_def skynet_mq_length_def n_def split: if_splits)
  have ix: "slot_ix q' i = slot_ix q (Suc i)" for i
    by (simp add: slot_ix_def q'_def h mod_add_left_eq add.assoc)
  have list: "mq_list q' = ms"
  proof (rule nth_equalityI)
    show "mq_list q' ! i = ms ! i" if "i < length (mq_list q')" for i
      using that len len' assms(2) nth_mq_list [of "Suc i" q] nth_mq_list [of i q']
      by (simp add: ix) (simp add: q'_def)
  qed (simp add: len')
  have "ring_ok q'"
    using bounds len len' ix by (auto simp: ring_ok_def h_def q'_def)
  then have "mq_wf q'"
    using kj ov(2) by (auto simp: mq_wf_def q'_def)
  then show ?thesis
    using pop list ov(3) n by (simp add: q'_def)
qed

text \<open>Pushing: the ring grows by doubling when it would become full, which overflows \<open>int\<close> at
  \<open>2 ^ 30\<close> slots.\<close>

definition ring_room :: "'m message_queue \<Rightarrow> bool" where
  "ring_room q \<longleftrightarrow> int (mq_len q) + 1 < 2 ^ 30"

definition alloc_ok :: "(size_t \<Rightarrow> bool) \<Rightarrow> bool" where
  "alloc_ok alloc \<longleftrightarrow> (\<forall>n. alloc n)"

lemma expand_full:
  assumes alloc: "alloc_ok alloc"
    and cap: "0 \<le> mq_head q" "mq_head q < mq_cap q" "length (mq_queue q) = nat (mq_cap q)"
      "mq_cap q * 2 \<le> INT_MAX"
    and some: "\<And>i. i < nat (mq_cap q) \<Longrightarrow> mq_queue q ! slot_ix q i \<noteq> None"
  shows "\<exists>q'. expand_queue alloc q = Some q' \<and> ring_ok q' \<and> mq_cap q' = mq_cap q * 2 \<and>
    mq_list q' = map (\<lambda>i. the (mq_queue q ! slot_ix q i)) [0..<nat (mq_cap q)] \<and>
    mq_overload_threshold q' = mq_overload_threshold q \<and> mq_in_global q' = mq_in_global q \<and>
    mq_next q' = mq_next q \<and> mq_overload q' = mq_overload q"
proof -
  define buf where "buf = map (\<lambda>i. mq_queue q ! slot_ix q i) [0..<nat (mq_cap q)] @ replicate (nat (mq_cap q)) None"
  define q' where "q' = q\<lparr>mq_queue := buf, mq_head := 0, mq_tail := mq_cap q, mq_cap := mq_cap q * 2\<rparr>"
  have ex: "expand_queue alloc q = Some q'"
    using alloc cap by (simp add: expand_queue_def alloc_ok_def q'_def buf_def Let_def slot_ix_def)
  have len: "mq_len q' = nat (mq_cap q)"
    using cap by (simp add: mq_len_def skynet_mq_length_def q'_def Let_def)
  have ix: "slot_ix q' i = i" if "i < nat (mq_cap q)" for i
    using that cap by (simp add: slot_ix_def q'_def mod_pos_pos_trivial)
  have val: "mq_queue q' ! slot_ix q' i = mq_queue q ! slot_ix q i" if "i < nat (mq_cap q)" for i
    using that ix by (simp add: q'_def buf_def nth_append)
  have "ring_ok q'"
    using cap len some val by (auto simp: ring_ok_def) (auto simp: q'_def buf_def)
  moreover have "mq_list q' = map (\<lambda>i. the (mq_queue q ! slot_ix q i)) [0..<nat (mq_cap q)]"
    using val by (simp add: mq_list_def len)
  ultimately show ?thesis
    using ex by (simp add: q'_def)
qed

text \<open>The queue after the message is stored and the tail moved, before a possible expansion.\<close>

definition ring_store :: "'m message_queue \<Rightarrow> 'm \<Rightarrow> 'm message_queue" where
  "ring_store q m =
     q\<lparr>mq_queue := (mq_queue q)[nat (mq_tail q) := Some m],
       mq_tail := (if mq_cap q \<le> mq_tail q + 1 then 0 else mq_tail q + 1)\<rparr>"

lemma ring_push_store:
  "ring_ok q \<Longrightarrow> ring_push alloc q m =
     (if mq_head (ring_store q m) = mq_tail (ring_store q m) then expand_queue alloc (ring_store q m)
      else Some (ring_store q m))"
  by (simp add: ring_push_def ring_ok_def Let_def ring_store_def)

lemma ring_store_values:
  fixes m :: 'm
  assumes ok: "ring_ok q"
  defines "q1 \<equiv> ring_store q m"
  shows "map (\<lambda>i. the (mq_queue q1 ! slot_ix q1 i)) [0..<Suc (mq_len q)] = mq_list q @ [m]"
    and "i < Suc (mq_len q) \<Longrightarrow> mq_queue q1 ! slot_ix q1 i \<noteq> None"
proof -
  note bounds = ok [unfolded ring_ok_def]
  have ix: "slot_ix q1 i = slot_ix q i" for i
    by (simp add: slot_ix_def q1_def ring_store_def)
  have new: "mq_queue q1 ! slot_ix q1 (mq_len q) = Some m"
    using slot_ix_tail [OF ok] bounds by (simp add: ix) (simp add: q1_def ring_store_def)
  have old: "mq_queue q1 ! slot_ix q1 i = mq_queue q ! slot_ix q i" if "i < mq_len q" for i
  proof -
    have "slot_ix q i \<noteq> nat (mq_tail q)"
      using slot_ix_inj [OF ok, of i "mq_len q"] slot_ix_tail [OF ok] that ring_len(2) [OF ok] by auto
    then show ?thesis
      by (simp add: ix) (simp add: q1_def ring_store_def)
  qed
  show "map (\<lambda>i. the (mq_queue q1 ! slot_ix q1 i)) [0..<Suc (mq_len q)] = mq_list q @ [m]"
    using old new by (simp add: mq_list_def)
  show "mq_queue q1 ! slot_ix q1 i \<noteq> None" if "i < Suc (mq_len q)"
    using that old [of i] new bounds less_Suc_eq by (cases "i = mq_len q") auto
qed

lemma ring_store_full:
  "ring_ok q \<Longrightarrow> mq_head (ring_store q m) = mq_tail (ring_store q m) \<longleftrightarrow> Suc (mq_len q) = nat (mq_cap q)"
  using ring_len(1) [of q]
  by (auto simp: ring_store_def ring_ok_def skynet_mq_length_def Let_def split: if_splits)

lemma ring_store_room:
  assumes "ring_ok q" "Suc (mq_len q) \<noteq> nat (mq_cap q)"
  shows "ring_ok (ring_store q m) \<and> mq_list (ring_store q m) = mq_list q @ [m]"
proof -
  have len: "mq_len (ring_store q m) = Suc (mq_len q)"
    using ring_len(1) [OF assms(1)] assms
    by (auto simp: mq_len_def ring_store_def ring_ok_def skynet_mq_length_def Let_def split: if_splits)
  then have "ring_ok (ring_store q m)"
    using assms(1) ring_store_values(2) [OF assms(1)]
    by (auto simp: ring_ok_def) (auto simp: ring_store_def)
  then show ?thesis
    using ring_store_values(1) [OF assms(1)] by (simp only: mq_list_def [of "ring_store q m"] len)
qed

lemma push_appends:
  assumes "mq_wf q" "ring_room q" "alloc_ok alloc"
  shows "\<exists>q'. ring_push alloc q m = Some q' \<and> mq_wf q' \<and> mq_list q' = mq_list q @ [m] \<and>
    mq_in_global q' = mq_in_global q \<and> mq_next q' = mq_next q"
proof -
  let ?q = "ring_store q m"
  have ok: "ring_ok q"
    using assms(1) by (simp add: mq_wf_def)
  from assms(1) obtain k where k: "k \<le> 24" "mq_cap q = 64 * 2 ^ k"
    by (auto simp: mq_wf_def)
  show ?thesis
  proof (cases "Suc (mq_len q) = nat (mq_cap q)")
    case True
    have lt: "(64 :: int) * 2 ^ k < 64 * 2 ^ 24"
      using assms(2) True k(2) by (simp add: ring_room_def)
    then have k24: "k < 24"
      using power_less_imp_less_exp [of "2 :: int" k 24] by simp
    then have cap2: "mq_cap ?q * 2 = 64 * 2 ^ Suc k" "mq_cap ?q * 2 \<le> INT_MAX"
      using k(2) lt by (simp_all add: ring_store_def)
    have "0 \<le> mq_head ?q" "mq_head ?q < mq_cap ?q" "length (mq_queue ?q) = nat (mq_cap ?q)"
      using ok by (simp_all add: ring_ok_def ring_store_def)
    from expand_full [OF assms(3) this cap2(2)] obtain q' where
      q': "expand_queue alloc ?q = Some q'" "ring_ok q'" "mq_cap q' = mq_cap ?q * 2"
        "mq_list q' = mq_list q @ [m]" "mq_overload_threshold q' = mq_overload_threshold ?q"
        "mq_in_global q' = mq_in_global ?q" "mq_next q' = mq_next ?q"
      using ring_store_values [OF ok] True by (auto simp: ring_store_def)
    have "mq_wf q'"
      using q' cap2(1) k24 assms(1) by (auto simp: mq_wf_def ring_store_def intro!: exI [of _ "Suc k"])
    then show ?thesis
      using q' True ring_push_store [OF ok] ring_store_full [OF ok] by (simp add: ring_store_def)
  next
    case False
    then show ?thesis
      using ring_store_room [OF ok False] assms(1) ring_push_store [OF ok] ring_store_full [OF ok]
      by (simp add: mq_wf_def) (simp add: ring_store_def)
  qed
qed

text \<open>A push that is defined had room, whatever the allocator answers in general.\<close>

lemma push_defined:
  assumes "mq_wf q" "ring_push alloc q m = Some q'"
  shows "mq_wf q' \<and> mq_list q' = mq_list q @ [m] \<and> mq_in_global q' = mq_in_global q \<and> mq_next q' = mq_next q"
proof -
  have ok: "ring_ok q"
    using assms(1) by (simp add: mq_wf_def)
  from assms(1) obtain k where k: "mq_cap q = 64 * 2 ^ k"
    by (auto simp: mq_wf_def)
  show ?thesis
  proof (cases "Suc (mq_len q) = nat (mq_cap q)")
    case True
    then have e: "expand_queue alloc (ring_store q m) = Some q'"
      using assms(2) ring_push_store [OF ok] ring_store_full [OF ok] by simp
    then have "ring_push (\<lambda>n. True) q m = Some q'"
      using True ring_push_store [OF ok, of "\<lambda>n. True"] ring_store_full [OF ok] by (auto simp: expand_queue_def Let_def split: if_splits)
    moreover have "mq_cap q * 2 \<le> INT_MAX"
      using e by (auto simp: expand_queue_def Let_def ring_store_def split: if_splits)
    then have "(2::int) ^ k < 2 ^ 24"
      using k by simp
    then have "ring_room q"
      using True k by (simp add: ring_room_def)
    ultimately show ?thesis
      using push_appends [OF assms(1), of "\<lambda>n. True" m] by (auto simp: alloc_ok_def)
  next
    case False
    then have "q' = ring_store q m"
      using assms(2) ring_push_store [OF ok] ring_store_full [OF ok] by simp
    then show ?thesis
      using ring_store_room [OF ok False] assms(1) by (simp add: mq_wf_def) (simp add: ring_store_def)
  qed
qed

text \<open>The ring is a queue.\<close>

definition ring_deq :: "'m message_queue \<Rightarrow> ('m option \<times> 'm message_queue) option" where
  "ring_deq q = map_option snd (skynet_mq_pop q)"

interpretation ring: fifo_queue mq_wf mq_list "\<lambda>q m. ring_room q" "ring_push (\<lambda>n. True)" ring_deq
proof unfold_locales
  show "\<exists>q'. ring_push (\<lambda>n. True) q x = Some q' \<and> mq_wf q' \<and> mq_list q' = mq_list q @ [x]"
    if "mq_wf q" "ring_room q" for q :: "'a message_queue" and x
    using push_appends [OF that, of "\<lambda>n. True" x] by (auto simp: alloc_ok_def)
  show "\<exists>q'. ring_deq q = Some (None, q') \<and> mq_wf q' \<and> mq_list q' = []"
    if "mq_wf q" "mq_list q = []" for q :: "'a message_queue"
    using pop_empty [OF that] by (auto simp: ring_deq_def)
  show "\<exists>q'. ring_deq q = Some (Some x, q') \<and> mq_wf q' \<and> mq_list q' = xs"
    if "mq_wf q" "mq_list q = x # xs" for q :: "'a message_queue" and x xs
    using pop_next [OF that] by (auto simp: ring_deq_def)
qed

lemma create_len [simp]: "mq_len (skynet_mq_create h) = 0"
  by (simp add: mq_len_def skynet_mq_length_def skynet_mq_create_def)

lemma create_ring: "ring_ok (skynet_mq_create h)"
  unfolding ring_ok_def create_len by (simp add: skynet_mq_create_def)

lemma create_wf [simp]: "mq_wf (skynet_mq_create h)" "mq_list (skynet_mq_create h) = []"
  by (auto simp: mq_wf_def create_ring mq_list_def) (auto simp: skynet_mq_create_def intro: exI [of _ 0])

lemma create_fields [simp]:
  "mq_in_global (skynet_mq_create h) = 0" "mq_next (skynet_mq_create h) = None"
  by (simp_all add: skynet_mq_create_def)

section \<open>The global queue as a list of queues\<close>

definition nxt :: "'m mq_state \<Rightarrow> addr \<Rightarrow> ptr option" where
  "nxt st a = map_option mq_next (st_mq st a)"

definition glist :: "'m mq_state \<Rightarrow> addr list" where
  "glist st = (THE gs. \<exists>q. st_Q st = Some q \<and> path (nxt st) (gq_head q) gs)"

text \<open>Well-formed: the links from the head visit the queues of \<open>gs\<close>, the tail is the last one, and no
  other queue has a link.\<close>

definition gq_rep :: "'m mq_state \<Rightarrow> addr list \<Rightarrow> bool" where
  "gq_rep st gs \<longleftrightarrow> (\<exists>q. st_Q st = Some q \<and> path (nxt st) (gq_head q) gs \<and>
     gq_tail q = (if gs = [] then None else Some (last gs)) \<and>
     (\<forall>a. a \<notin> set gs \<longrightarrow> nxt st a = None \<or> nxt st a = Some None))"

definition gq_wf :: "'m mq_state \<Rightarrow> bool" where
  "gq_wf st \<longleftrightarrow> gq_rep st (glist st)"

lemma gq_rep_glist: "gq_rep st gs \<Longrightarrow> glist st = gs"
  unfolding glist_def by (rule the_equality) (auto simp: gq_rep_def dest: path_det)

lemma gq_wfI: "gq_rep st gs \<Longrightarrow> gq_wf st"
  by (simp add: gq_wf_def gq_rep_glist)

lemma gq_wf_live: "gq_wf st \<Longrightarrow> a \<in> set (glist st) \<Longrightarrow> st_mq st a \<noteq> None"
  by (auto simp: gq_wf_def gq_rep_def nxt_def dest!: path_live)

lemma gq_wf_distinct: "gq_wf st \<Longrightarrow> distinct (glist st)"
  by (auto simp: gq_wf_def gq_rep_def dest: path_distinct)

lemma glist_cong: "nxt st = nxt st' \<Longrightarrow> st_Q st = st_Q st' \<Longrightarrow> glist st = glist st'"
  by (simp add: glist_def)

lemma gq_wf_cong: "nxt st = nxt st' \<Longrightarrow> st_Q st = st_Q st' \<Longrightarrow> gq_wf st = gq_wf st'"
  using glist_cong [of st st'] by (simp add: gq_wf_def gq_rep_def)

text \<open>Everything of a queue but its link: what the global queue operations leave alone.\<close>

definition body :: "'m mq_state \<Rightarrow> addr \<Rightarrow> 'm message_queue option" where
  "body st a = map_option (\<lambda>q. q\<lparr>mq_next := None\<rparr>) (st_mq st a)"

lemma globalmq_push_ok:
  assumes "gq_wf st" "st_mq st a \<noteq> None" "a \<notin> set (glist st)"
  shows "\<exists>st'. skynet_globalmq_push a st = Some st' \<and> gq_wf st' \<and> glist st' = glist st @ [a] \<and> body st' = body st"
proof -
  let ?gs = "glist st"
  from assms(1) obtain q where q: "st_Q st = Some q" "path (nxt st) (gq_head q) ?gs"
    "gq_tail q = (if ?gs = [] then None else Some (last ?gs))"
    "\<forall>b. b \<notin> set ?gs \<longrightarrow> nxt st b = None \<or> nxt st b = Some None"
    by (auto simp: gq_wf_def gq_rep_def)
  have na: "nxt st a = Some None"
    using assms(2,3) q(4) by (auto simp: nxt_def)
  show ?thesis
  proof (cases "?gs = []")
    case True
    let ?st = "st\<lparr>st_Q := Some (q\<lparr>gq_head := Some a, gq_tail := Some a\<rparr>)\<rparr>"
    have "gq_rep ?st [a]"
      using q na True by (auto simp: gq_rep_def nxt_def)
    then show ?thesis
      using q True gq_wfI gq_rep_glist by (fastforce simp: skynet_globalmq_push_def body_def)
  next
    case False
    then obtain mt where mt: "st_mq st (last ?gs) = Some mt"
      using gq_wf_live [OF assms(1)] last_in_set by blast
    let ?st = "(upd_mq (last ?gs) (mt\<lparr>mq_next := Some a\<rparr>) st)\<lparr>st_Q := Some (q\<lparr>gq_tail := Some a\<rparr>)\<rparr>"
    have "path (nxt ?st) (gq_head q) (?gs @ [a])"
      using path_snoc [OF q(2) assms(3) na, of "nxt ?st"] False mt by (simp add: nxt_def upd_mq_def)
    then have "gq_rep ?st (?gs @ [a])"
      using q(4) False last_in_set by (auto simp: gq_rep_def) (auto simp: nxt_def upd_mq_def)
    moreover have "body ?st = body st"
      using mt by (auto simp: body_def upd_mq_def)
    moreover have "skynet_globalmq_push a st = Some ?st"
      using q False mt by (simp add: skynet_globalmq_push_def)
    ultimately show ?thesis
      using gq_wfI gq_rep_glist by blast
  qed
qed

lemma globalmq_pop_empty:
  assumes "gq_wf st" "glist st = []"
  shows "skynet_globalmq_pop st = Some (None, st)"
  using assms by (auto simp: gq_wf_def gq_rep_def skynet_globalmq_pop_def)

lemma globalmq_pop_ok:
  assumes "gq_wf st" "glist st = a # gs"
  shows "\<exists>st'. skynet_globalmq_pop st = Some (Some a, st') \<and> gq_wf st' \<and> glist st' = gs \<and> body st' = body st"
proof -
  from assms obtain q where q: "st_Q st = Some q" "path (nxt st) (gq_head q) (a # gs)"
    "gq_tail q = Some (last (a # gs))"
    "\<forall>b. b \<notin> set (a # gs) \<longrightarrow> nxt st b = None \<or> nxt st b = Some None"
    unfolding gq_wf_def gq_rep_def by fastforce
  then obtain m where m: "st_mq st a = Some m" "path (nxt st) (mq_next m) gs" "gq_head q = Some a"
    by (auto simp: nxt_def)
  define q' where "q' = (if gs = [] then q\<lparr>gq_head := None, gq_tail := None\<rparr> else q\<lparr>gq_head := mq_next m\<rparr>)"
  let ?st = "(upd_mq a (m\<lparr>mq_next := None\<rparr>) st)\<lparr>st_Q := Some q'\<rparr>"
  have nx: "mq_next m = None \<longleftrightarrow> gs = []"
    using m(2) by (cases gs) auto
  have pop: "skynet_globalmq_pop st = Some (Some a, ?st)"
    using q(1,3) m nx by (auto simp: skynet_globalmq_pop_def q'_def)
  have "a \<notin> set gs"
    using path_distinct [OF q(2)] by simp
  then have same: "nxt st b = nxt ?st b" if "b \<in> set gs" for b
    using that by (auto simp: nxt_def upd_mq_def)
  have "path (nxt ?st) (mq_next m) gs"
    using m(2) by (subst path_cong [of gs "nxt ?st" "nxt st"]) (rule same [symmetric])
  then have "gq_rep ?st gs"
    using q(3,4) nx by (auto simp: gq_rep_def q'_def) (auto simp: nxt_def upd_mq_def split: if_splits)
  moreover have "body ?st = body st"
    using m by (auto simp: body_def upd_mq_def)
  ultimately show ?thesis
    using pop gq_wfI gq_rep_glist by blast
qed

interpretation global: fifo_queue gq_wf glist "\<lambda>st a. st_mq st a \<noteq> None \<and> a \<notin> set (glist st)"
  "\<lambda>st a. skynet_globalmq_push a st" skynet_globalmq_pop
proof unfold_locales
  show "\<exists>st'. skynet_globalmq_push a st = Some st' \<and> gq_wf st' \<and> glist st' = glist st @ [a]"
    if "gq_wf st" "st_mq st a \<noteq> None \<and> a \<notin> set (glist st)" for st :: "'a mq_state" and a
    using globalmq_push_ok [of st a] that by auto
  show "\<exists>st'. skynet_globalmq_pop st = Some (None, st') \<and> gq_wf st' \<and> glist st' = []"
    if "gq_wf st" "glist st = []" for st :: "'a mq_state"
    using globalmq_pop_empty [OF that] that by auto
  show "\<exists>st'. skynet_globalmq_pop st = Some (Some a, st') \<and> gq_wf st' \<and> glist st' = gs"
    if "gq_wf st" "glist st = a # gs" for st :: "'a mq_state" and a gs
    using globalmq_pop_ok [OF that] by auto
qed

lemma init_gq [simp]: "(\<And>a. nxt st a = None \<or> nxt st a = Some None) \<Longrightarrow> gq_wf (skynet_mq_init st)"
  "(\<And>a. nxt st a = None \<or> nxt st a = Some None) \<Longrightarrow> glist (skynet_mq_init st) = []"
proof -
  assume "\<And>a. nxt st a = None \<or> nxt st a = Some None"
  then have "gq_rep (skynet_mq_init st) []"
    by (auto simp: gq_rep_def skynet_mq_init_def nxt_def)
  then show "gq_wf (skynet_mq_init st)" "glist (skynet_mq_init st) = []"
    using gq_wfI gq_rep_glist by blast+
qed

section \<open>Properties\<close>

lemma ring_added:
  assumes "mq_wf q" "mq_len q + length (List.map_filter id cs) < 2 ^ 30 - 1"
  shows "ring.added cs q = List.map_filter id cs"
  using assms
proof (induction cs arbitrary: q)
  case (Cons c cs)
  show ?case
  proof (cases c)
    case None
    show ?thesis
    proof (cases "mq_list q")
      case Nil
      from pop_empty [OF Cons.prems(1) this] obtain q' where
        "ring_deq q = Some (None, q')" "mq_wf q'" "mq_list q' = []"
        by (auto simp: ring_deq_def)
      moreover from this(3) have "mq_len q' = 0"
        by (metis length_mq_list list.size(3))
      ultimately show ?thesis
        using None Cons.IH [of q'] Cons.prems by (simp add: List.map_filter_def)
    next
      case (Cons m ms)
      from pop_next [OF Cons.prems(1) this] obtain q' where
        "ring_deq q = Some (Some m, q')" "mq_wf q'" "mq_list q' = ms"
        by (auto simp: ring_deq_def)
      moreover from this(3) have "mq_len q' \<le> mq_len q"
        using Cons by (metis le_SucI length_Cons length_mq_list order_refl)
      ultimately show ?thesis
        using None Cons.IH [of q'] Cons.prems by (simp add: List.map_filter_def)
    qed
  next
    case (Some m)
    then have room: "ring_room q"
      using Cons.prems(2) by (simp add: ring_room_def List.map_filter_def)
    from push_appends [OF Cons.prems(1) room, of "\<lambda>n. True" m] obtain q' where
      "ring_push (\<lambda>n. True) q m = Some q'" "mq_wf q'" "mq_list q' = mq_list q @ [m]"
      by (auto simp: alloc_ok_def)
    moreover from this(3) have "mq_len q' = Suc (mq_len q)"
      by (metis length_append_singleton length_mq_list)
    ultimately show ?thesis
      using Some room Cons.IH [of q'] Cons.prems by (simp add: List.map_filter_def)
  qed
qed (simp add: List.map_filter_def)

text \<open>C4: A message queue is first-in first-out. For every sequence of fewer than \<open>2 ^ 30 - 1\<close> pushes and
  any number of pops from a fresh queue, through every growth of the ring, no call is undefined and
  the messages popped, followed by those still queued, are the messages pushed, in order.\<close>

theorem mq_fifo:
  assumes "length (List.map_filter id cs) < 2 ^ 30 - 1"
  shows "\<exists>out q. fifo_queue.run_queue (\<lambda>q m. ring_room q) (ring_push (\<lambda>n. True)) ring_deq cs
       (skynet_mq_create h) [] = Some (out, q) \<and> mq_wf q \<and> out @ mq_list q = List.map_filter id cs"
proof -
  have "ring.added cs (skynet_mq_create h) = List.map_filter id cs"
    using ring_added [of "skynet_mq_create h" cs] assms by simp
  then show ?thesis
    using ring.fifo_order [of "skynet_mq_create h" cs "[]"] by simp
qed

theorem mq_fifo_witness:
  "\<exists>out q. fifo_queue.run_queue (\<lambda>q m. ring_room q) (ring_push (\<lambda>n. True)) ring_deq
       [Some (1 :: nat), Some 2, None, Some 3] (skynet_mq_create 1) [] = Some (out, q) \<and> mq_wf q \<and>
     out @ mq_list q = [1, 2, 3]"
  using mq_fifo [of "[Some (1 :: nat), Some 2, None, Some 3]" 1] by (simp add: List.map_filter_def)

lemma drop_loop_drains:
  assumes "mq_wf q"
  shows "\<exists>q'. drop_loop q acc = Some (acc @ mq_list q, q') \<and> mq_wf q' \<and> mq_list q' = [] \<and> mq_next q' = mq_next q"
  using assms
proof (induction "mq_list q" arbitrary: q acc)
  case Nil
  from pop_empty [OF Nil(2) Nil(1) [symmetric]] Nil(1) show ?case
    by (subst drop_loop.simps) auto
next
  case (Cons m ms)
  from pop_next [OF Cons.prems Cons.hyps(2) [symmetric]] obtain q1 where
    q1: "skynet_mq_pop q = Some (0, Some m, q1)" "mq_wf q1" "mq_list q1 = ms" "mq_next q1 = mq_next q"
    by blast
  from Cons.hyps(1) [OF q1(3) [symmetric] q1(2), of "acc @ [m]"] q1(3,4) Cons.hyps(2) [symmetric] show ?case
    by (subst drop_loop.simps) (auto simp: q1(1))
qed

text \<open>C17: Releasing a queue that was marked for release and has been taken off the global queue ends, hands
  every message still queued to the drop function exactly once and in order, and frees the queue
  and nothing else.\<close>

theorem mq_release_drains:
  assumes "st_mq st a = Some q" "mq_wf q" "mq_release q = 1" "mq_next q = None"
  shows "\<exists>st'. skynet_mq_release a st = Some (mq_list q, st') \<and> st_mq st' = (st_mq st)(a := None) \<and>
    st_Q st' = st_Q st"
proof -
  from drop_loop_drains [OF assms(2), of "[]"] obtain q' where
    "drop_loop q [] = Some (mq_list q, q')" "mq_next q' = mq_next q"
    by auto
  then show ?thesis
    using assms by (auto simp: skynet_mq_release_def drop_queue_def release_mq_def upd_mq_def)
qed

theorem mq_release_drains_witness:
  "\<exists>st'. skynet_mq_release 5 \<lparr>st_mq = [5 \<mapsto> (skynet_mq_create 1 :: nat message_queue)\<lparr>mq_release := 1\<rparr>],
       st_Q = None\<rparr> = Some ([], st') \<and> st_mq st' = Map.empty"
proof -
  let ?q = "(skynet_mq_create 1 :: nat message_queue)\<lparr>mq_release := 1\<rparr>"
  have len: "mq_len ?q = 0"
    by (simp add: mq_len_def skynet_mq_length_def skynet_mq_create_def)
  have ring: "ring_ok ?q"
    unfolding ring_ok_def len by (simp add: skynet_mq_create_def)
  have "mq_wf ?q" "mq_list ?q = []"
    using len ring by (auto simp: mq_wf_def mq_list_def) (auto simp: skynet_mq_create_def intro: exI [of _ 0])
  then show ?thesis
    using mq_release_drains [of "\<lparr>st_mq = [5 \<mapsto> ?q], st_Q = None\<rparr>" 5 ?q] by auto
qed

end
