(* ===== verification/Timer.thy ===== *)
theory Timer
  imports Prelude "HOL-Library.Multiset"
begin

text \<open>
  The hierarchical timing wheel of \<open>misaka/lib/timer.c\<close>.

  A \<open>timelink_list\<close> (a sentinel head, a tail pointer and nodes linked by \<open>next\<close>) is the list of
  its nodes in link order: \<open>timelink\<close> appends, \<open>timelink_clear\<close> takes the whole chain. The arrays
  are functions from the index. Every index the code computes is masked, except the level of
  \<open>move_list\<close>, whose access is checked. Times are 32-bit words and wrap as \<open>uint32_t\<close> does.
  The spin lock makes each operation below a critical section; the model runs them one at a time.
  Delivering a fired timer is \<open>misaka_packet_task_route\<close> on its handle: the operations return the
  handles in the order of these calls. The two clocks are parameters.
\<close>

section \<open>State\<close>

abbreviation (input) TIME_NEAR_SHIFT :: nat where "TIME_NEAR_SHIFT \<equiv> 8"
abbreviation (input) TIME_NEAR :: u32 where "TIME_NEAR \<equiv> 256"
abbreviation (input) TIME_LEVEL_SHIFT :: nat where "TIME_LEVEL_SHIFT \<equiv> 6"
abbreviation (input) TIME_NEAR_MASK :: u32 where "TIME_NEAR_MASK \<equiv> 255"
abbreviation (input) TIME_LEVEL_MASK :: u32 where "TIME_LEVEL_MASK \<equiv> 63"

record 'h timer_event =
  te_handle :: 'h

text \<open>A node is followed in memory by the event it carries.\<close>

record 'h timer_node =
  tn_expire :: u32
  tn_event :: "'h timer_event"

record 'h timer =
  tm_near :: "nat \<Rightarrow> 'h timer_node list"
  tm_t :: "nat \<Rightarrow> nat \<Rightarrow> 'h timer_node list"
  tm_time :: u32
  tm_current :: u32
  tm_starttime :: u32
  tm_current_point :: u64
  tm_origin_point :: u64

section \<open>Operations\<close>

definition timelink_clear :: "'h timer_node list \<Rightarrow> 'h timer_node list \<times> 'h timer_node list" where
  "timelink_clear l = (l, [])"

definition timelink :: "'h timer_node list \<Rightarrow> 'h timer_node \<Rightarrow> 'h timer_node list" where
  "timelink l node = l @ [node]"

text \<open>The loop of \<open>add_node\<close> that looks for the level.\<close>

function add_level :: "u32 \<Rightarrow> u32 \<Rightarrow> nat \<Rightarrow> u32 \<Rightarrow> nat" where
  "add_level time current_time i msk =
     (if i < 3 then
        (if time OR (msk - 1) = current_time OR (msk - 1) then i
         else add_level time current_time (Suc i) (push_bit TIME_LEVEL_SHIFT msk))
      else i)"
  by pat_completeness auto
termination by (relation "measure (\<lambda>(time, cur, i, msk). 3 - i)") auto

definition add_node :: "'h timer \<Rightarrow> 'h timer_node \<Rightarrow> 'h timer" where
  "add_node T node =
     (let time = tn_expire node; current_time = tm_time T in
      if time OR TIME_NEAR_MASK = current_time OR TIME_NEAR_MASK then
        (let j = unat (time AND TIME_NEAR_MASK) in
         T\<lparr>tm_near := (tm_near T)(j := timelink (tm_near T j) node)\<rparr>)
      else
        (let i = add_level time current_time 0 (push_bit TIME_LEVEL_SHIFT TIME_NEAR);
             j = unat (drop_bit (TIME_NEAR_SHIFT + i * TIME_LEVEL_SHIFT) time AND TIME_LEVEL_MASK) in
         T\<lparr>tm_t := (tm_t T)(i := (tm_t T i)(j := timelink (tm_t T i j) node))\<rparr>))"

definition timer_add :: "'h timer \<Rightarrow> 'h timer_event \<Rightarrow> cint \<Rightarrow> 'h timer" where
  "timer_add T arg time = add_node T \<lparr>tn_expire = time + tm_time T, tn_event = arg\<rparr>"

definition move_list :: "'h timer \<Rightarrow> nat \<Rightarrow> nat \<Rightarrow> 'h timer option" where
  "move_list T level idx =
     (if level < 4 \<and> idx < 64 then
        (case timelink_clear (tm_t T level idx) of (current, l) \<Rightarrow>
           Some (foldl add_node (T\<lparr>tm_t := (tm_t T)(level := (tm_t T level)(idx := l))\<rparr>) current))
      else None)"

definition dispatch_list :: "'h timer_node list \<Rightarrow> 'h list" where
  "dispatch_list current = map (\<lambda>n. te_handle (tn_event n)) current"

text \<open>\<open>timer_execute\<close> drains the current near slot; the loop looks at the slot again after each
  dispatch.\<close>

function timer_execute :: "'h timer \<Rightarrow> 'h timer \<times> 'h list" where
  "timer_execute T =
     (let idx = unat (tm_time T AND TIME_NEAR_MASK) in
      if tm_near T idx = [] then (T, [])
      else (case timelink_clear (tm_near T idx) of (current, l) \<Rightarrow>
        (case timer_execute (T\<lparr>tm_near := (tm_near T)(idx := l)\<rparr>) of (T', out) \<Rightarrow>
           (T', dispatch_list current @ out))))"
  by pat_completeness auto
termination
  by (relation "measure (\<lambda>T. length (tm_near T (unat (tm_time T AND TIME_NEAR_MASK))))")
    (auto simp: timelink_clear_def)

text \<open>The cascade loop of \<open>timer_shift\<close>: \<open>mask\<close> is an \<open>int\<close>, so shifting it beyond the fourth level
  overflows.\<close>

function shift_loop :: "'h timer \<Rightarrow> u32 \<Rightarrow> u32 \<Rightarrow> u32 \<Rightarrow> nat \<Rightarrow> 'h timer option" where
  "shift_loop T ct msk time i =
     (if ct AND (msk - 1) = 0 then
        (let idx = unat (time AND TIME_LEVEL_MASK) in
         if idx \<noteq> 0 then move_list T i idx
         else if 3 \<le> i then None
         else shift_loop T ct (push_bit TIME_LEVEL_SHIFT msk) (drop_bit TIME_LEVEL_SHIFT time) (Suc i))
      else Some T)"
  by pat_completeness auto
termination by (relation "measure (\<lambda>(T, ct, msk, time, i). 3 - i)") auto

definition timer_shift :: "'h timer \<Rightarrow> 'h timer option" where
  "timer_shift T =
     (let ct = tm_time T + 1; T = T\<lparr>tm_time := ct\<rparr> in
      if ct = 0 then move_list T 3 0
      else shift_loop T ct TIME_NEAR (drop_bit TIME_NEAR_SHIFT ct) 0)"

definition timer_update :: "'h timer \<Rightarrow> ('h timer \<times> 'h list) option" where
  "timer_update T =
     (case timer_execute T of (T, out1) \<Rightarrow>
      do {
        T \<leftarrow> timer_shift T;
        (case timer_execute T of (T, out2) \<Rightarrow> Some (T, out1 @ out2))
      })"

definition server_timer_timeout :: "'h timer \<Rightarrow> cint \<Rightarrow> 'h \<Rightarrow> int \<times> 'h timer" where
  "server_timer_timeout TI time handle =
     (if time = 0 then (0, TI) else (0, timer_add TI \<lparr>te_handle = handle\<rparr> time))"

definition server_timer_create_timer :: "'h timer" where
  "server_timer_create_timer =
     \<lparr>tm_near = (\<lambda>i. []), tm_t = (\<lambda>i j. []), tm_time = 0, tm_current = 0, tm_starttime = 0,
      tm_current_point = 0, tm_origin_point = 0\<rparr>"

text \<open>A \<open>timespec\<close> as the clocks give it: seconds and nanoseconds, both \<open>long\<close>.\<close>

record timespec =
  tv_sec :: int
  tv_nsec :: int

definition systime :: "timespec \<Rightarrow> u32 \<times> u32" where
  "systime ti = (word_of_int (tv_sec ti), word_of_int (tv_nsec ti div 10000000))"

definition gettime :: "timespec \<Rightarrow> u64" where
  "gettime ti = word_of_int (tv_sec ti) * 100 + word_of_int (tv_nsec ti div 10000000)"

definition server_timer_init :: "timespec \<Rightarrow> timespec \<Rightarrow> 'h timer" where
  "server_timer_init realtime monotonic =
     (let (sec, cs) = systime realtime; point = gettime monotonic in
      server_timer_create_timer
        \<lparr>tm_starttime := sec, tm_current := cs, tm_current_point := point, tm_origin_point := point\<rparr>)"

text \<open>The loop over the elapsed ticks.\<close>

fun update_loop :: "nat \<Rightarrow> 'h timer \<Rightarrow> ('h timer \<times> 'h list) option" where
  "update_loop 0 T = Some (T, [])"
| "update_loop (Suc n) T = do {
     (T, out) \<leftarrow> timer_update T;
     (T, outs) \<leftarrow> update_loop n T;
     Some (T, out @ outs)
   }"

text \<open>The loop counter of \<open>server_timer_updatetime\<close> is an \<open>int\<close>: a difference of \<open>2 ^ 31\<close> or more makes
  it overflow.\<close>

definition server_timer_updatetime :: "timespec \<Rightarrow> 'h timer \<Rightarrow> ('h timer \<times> 'h list) option" where
  "server_timer_updatetime monotonic TI =
     (let cp = gettime monotonic in
      if cp < tm_current_point TI then Some (TI\<lparr>tm_current_point := cp\<rparr>, [])
      else if cp \<noteq> tm_current_point TI then
        (let diff = ucast (cp - tm_current_point TI) :: u32;
             oc = tm_current TI;
             TI = TI\<lparr>tm_current_point := cp, tm_current := oc + diff\<rparr>;
             TI = (if tm_current TI < oc
                   then TI\<lparr>tm_starttime := tm_starttime TI + 0xffffffff div 100\<rparr> else TI) in
         if INT_MAX < uint diff then None else update_loop (unat diff) TI)
      else Some (TI, []))"

definition server_timer_gettime_fixsec :: "'h timer \<Rightarrow> u32" where
  "server_timer_gettime_fixsec TI = tm_starttime TI"

definition server_timer_gettime :: "'h timer \<Rightarrow> u32" where
  "server_timer_gettime TI = tm_current TI"

declare timer_execute.simps [simp del] shift_loop.simps [simp del]

section \<open>Slots in arithmetic\<close>

text \<open>Where a node expiring at \<open>e\<close> belongs when the clock shows \<open>c\<close>.\<close>

datatype slot = Near nat | Level nat nat

definition agree :: "nat \<Rightarrow> nat \<Rightarrow> nat \<Rightarrow> bool" where
  "agree m c e \<longleftrightarrow> e div 2 ^ m = c div 2 ^ m"

definition level_of :: "nat \<Rightarrow> nat \<Rightarrow> nat" where
  "level_of c e = (if agree 14 c e then 0 else if agree 20 c e then 1 else if agree 26 c e then 2 else 3)"

definition slot_of :: "nat \<Rightarrow> nat \<Rightarrow> slot" where
  "slot_of c e =
     (if agree 8 c e then Near (e mod 256)
      else (let i = level_of c e in Level i (e div 2 ^ (8 + 6 * i) mod 64)))"

fun chain :: "'h timer \<Rightarrow> slot \<Rightarrow> 'h timer_node list" where
  "chain T (Near j) = tm_near T j"
| "chain T (Level i j) = tm_t T i j"

abbreviation node_slot :: "'h timer \<Rightarrow> 'h timer_node \<Rightarrow> slot" where
  "node_slot T n \<equiv> slot_of (unat (tm_time T)) (unat (tn_expire n))"

lemma or_low_mask_eq:
  "a OR mask k = b OR mask k \<longleftrightarrow> agree k (unat b) (unat (a :: u32))"
proof -
  have "a OR mask k = b OR mask k \<longleftrightarrow> drop_bit k a = drop_bit k b"
  proof
    assume eq: "a OR mask k = b OR mask k"
    have "bit (drop_bit k a) n = bit (drop_bit k b) n" for n
      using arg_cong [OF eq, of "\<lambda>w. bit w (k + n)"] by (simp add: bit_simps)
    then show "drop_bit k a = drop_bit k b"
      by (simp add: bit_eq_iff)
  next
    assume eq: "drop_bit k a = drop_bit k b"
    have "bit (a OR mask k) n = bit (b OR mask k) n" for n
      using arg_cong [OF eq, of "\<lambda>w. bit w (n - k)"] by (cases "n < k") (auto simp: bit_simps dest: bit_imp_le_length)
    then show "a OR mask k = b OR mask k"
      by (simp add: bit_eq_iff)
  qed
  also have "\<dots> \<longleftrightarrow> agree k (unat b) (unat a)"
    unfolding agree_def word_unat_eq_iff unat_drop_bit_eq by (simp add: drop_bit_eq_div)
  finally show ?thesis .
qed

lemma low_masks:
  "(255 :: u32) = mask 8" "(16383 :: u32) = mask 14" "(1048575 :: u32) = mask 20" "(67108863 :: u32) = mask 26"
  "(63 :: u32) = mask 6"
  by (simp_all add: mask_eq_exp_minus_1)

lemma unat_and_near: "unat (a AND 255 :: u32) = unat a mod 256"
  unfolding low_masks take_bit_eq_mask [symmetric] unsigned_take_bit_eq by (simp add: take_bit_eq_mod)

lemma unat_and_level: "unat (a AND 63 :: u32) = unat a mod 64"
  unfolding low_masks take_bit_eq_mask [symmetric] unsigned_take_bit_eq by (simp add: take_bit_eq_mod)

lemma or_near_eq: "a OR 255 = b OR 255 \<longleftrightarrow> agree 8 (unat b) (unat (a :: u32))"
  unfolding low_masks or_low_mask_eq by simp

lemma add_level_eq:
  "add_level time cur 0 (push_bit 6 256) = level_of (unat cur) (unat time)"
proof -
  have [simp]: "push_bit 6 (256 :: u32) = 16384" "push_bit 6 (16384 :: u32) = 1048576"
    "push_bit 6 (1048576 :: u32) = 67108864"
    by (simp_all add: push_bit_eq_mult)
  show ?thesis
    unfolding level_of_def or_low_mask_eq [symmetric]
    by (simp add: mask_eq_exp_minus_1 numeral_eq_Suc)
qed

lemma unat_level_index:
  "unat (drop_bit k a AND 63 :: u32) = unat a div 2 ^ k mod 64"
  unfolding unat_and_level unat_drop_bit_eq by (simp add: drop_bit_eq_div)

lemma time_add_node [simp, frame_simps]: "tm_time (add_node T n) = tm_time T"
  by (simp add: add_node_def Let_def)

lemma chain_add_node:
  "chain (add_node T n) s = (if s = node_slot T n then chain T s @ [n] else chain T s)"
  by (cases s) (simp_all only: add_node_def slot_of_def or_near_eq timelink_def Let_def
    add_level_eq unat_level_index unat_and_near mult.commute [of _ 6] chain.simps split: if_split,
    auto)

section \<open>The cascade\<close>

text \<open>A deadline is ahead of the clock when it is later, or the counter wraps before it is reached and
  it lies in another top-level slot.\<close>

definition ahead :: "nat \<Rightarrow> nat \<Rightarrow> bool" where
  "ahead c e \<longleftrightarrow> c < e \<or> e < c \<and> \<not> agree 26 c e"

lemma agree_mono: "agree m c e \<Longrightarrow> m \<le> m' \<Longrightarrow> agree m' c e"
  unfolding agree_def by (metis div_exp_eq le_add_diff_inverse)

lemma agree_sym: "agree m c e \<Longrightarrow> agree m e c"
  by (simp add: agree_def)

lemma agree_trans: "agree m c d \<Longrightarrow> agree m d e \<Longrightarrow> agree m c e"
  by (simp add: agree_def)

lemma agree_Suc:
  assumes "\<not> 2 ^ m dvd Suc c" "m \<le> m'"
  shows "agree m' (Suc c) e = agree m' c e"
proof -
  have "agree m c (Suc c)"
    using assms(1) by (simp add: agree_def div_Suc dvd_eq_mod_eq_0)
  then have "agree m' c (Suc c)"
    using assms(2) by (rule agree_mono)
  then show ?thesis
    by (auto simp: agree_def)
qed

lemma slot_of_cong:
  "(\<And>m. m \<in> {8, 14, 20, 26} \<Longrightarrow> agree m c e = agree m c' e) \<Longrightarrow> slot_of c e = slot_of c' e"
  by (simp add: slot_of_def level_of_def)

text \<open>When the clock reaches a multiple of \<open>2 ^ m\<close>, nothing ahead of it agrees with it from bit
  \<open>m\<close> on.\<close>

lemma ahead_boundary:
  assumes "2 ^ m dvd Suc c" "ahead c e" "m \<le> 26"
  shows "\<not> agree m c e"
proof
  assume eq: "agree m c e"
  then have "Suc c \<le> e"
    using assms agree_mono [OF eq] by (auto simp: ahead_def)
  then have "Suc c div 2 ^ m \<le> e div 2 ^ m"
    by (rule div_le_mono)
  moreover have "Suc c div 2 ^ m = Suc (c div 2 ^ m)"
    using assms(1) by (simp add: div_Suc dvd_eq_mod_eq_0)
  ultimately show False
    using eq by (simp add: agree_def)
qed

lemma level_of_between:
  assumes "k < 4" "\<not> agree (8 + 6 * k) c e" "\<And>m. 14 + 6 * k \<le> m \<Longrightarrow> m \<le> 26 \<Longrightarrow> agree m c e"
  shows "level_of c e = k"
proof -
  have lower: "\<not> agree m c e" if "m \<le> 8 + 6 * k" for m
    using assms(2) agree_mono that by blast
  have "k = 0 \<or> k = 1 \<or> k = 2 \<or> k = 3"
    using assms(1) by auto
  then show ?thesis
    using assms(3) [of 14] assms(3) [of 20] assms(3) [of 26] lower [of 14] lower [of 20] lower [of 26]
    by (elim disjE) (simp_all add: level_of_def)
qed

lemma slot_of_boundary:
  assumes k: "k < 4" and dvd: "2 ^ (8 + 6 * k) dvd Suc c" and ndvd: "\<not> 2 ^ (14 + 6 * k) dvd Suc c"
    and ahead: "ahead c e" and other: "slot_of c e \<noteq> Level k (Suc c div 2 ^ (8 + 6 * k) mod 64)"
  shows "slot_of (Suc c) e = slot_of c e"
proof (rule slot_of_cong)
  have high: "agree m (Suc c) e = agree m c e" if "14 + 6 * k \<le> m" "m \<le> 26" for m
    using agree_Suc [OF _ that(1)] ndvd that by auto
  have low: "\<not> agree m c e" if "m \<le> 8 + 6 * k" for m
    using ahead_boundary [OF dvd ahead] k agree_mono that by fastforce
  have low': "\<not> agree (8 + 6 * k) (Suc c) e"
  proof
    assume eq: "agree (8 + 6 * k) (Suc c) e"
    have "level_of c e = k"
      using k low by (rule level_of_between) (use agree_mono [OF eq] high in auto)
    then have "slot_of c e = Level k (Suc c div 2 ^ (8 + 6 * k) mod 64)"
      using low [of 8] eq by (simp add: slot_of_def agree_def)
    then show False
      using other by simp
  qed
  fix m :: nat
  assume "m \<in> {8, 14, 20, 26}"
  then have "m \<le> 8 + 6 * k \<or> 14 + 6 * k \<le> m \<and> m \<le> 26"
    using k by auto
  then show "agree m (Suc c) e = agree m c e"
    using low low' high agree_mono by blast
qed

lemma slot_of_low_tick:
  "\<not> 2 ^ 8 dvd Suc c \<Longrightarrow> slot_of (Suc c) e = slot_of c e"
  by (rule slot_of_cong, rule agree_Suc [of 8]) auto

text \<open>The wrap of the 32-bit counter.\<close>

lemma slot_of_wrap:
  assumes "ahead 4294967295 e" "e < 4294967296" "slot_of 4294967295 e \<noteq> Level 3 0"
  shows "slot_of 0 e = slot_of 4294967295 e"
proof (rule slot_of_cong)
  have nn: "\<not> agree m 4294967295 e" if "m \<le> 26" for m
    using assms(1,2) agree_mono [OF _ that] by (auto simp: ahead_def)
  have "slot_of 4294967295 e = Level 3 (e div 2 ^ 26 mod 64)"
    using nn by (simp add: slot_of_def level_of_def)
  then have "\<not> agree 26 0 e"
    using assms(3) by (auto simp: agree_def)
  then have "\<not> agree m 0 e" if "m \<le> 26" for m
    using that agree_mono by blast
  then show "m \<in> {8, 14, 20, 26} \<Longrightarrow> agree m 0 e = agree m 4294967295 e" for m
    using nn by auto
qed

section \<open>Slots of the whole wheel\<close>

definition slots :: "slot set" where
  "slots = Near ` {..<256} \<union> (\<lambda>(i, j). Level i j) ` ({..<4} \<times> {..<64})"

lemma finite_slots [simp]: "finite slots"
  by (simp add: slots_def)

lemma in_slots [simp]: "Near j \<in> slots \<longleftrightarrow> j < 256" "Level i j \<in> slots \<longleftrightarrow> i < 4 \<and> j < 64"
  by (auto simp: slots_def)

lemma slot_of_slots [simp]: "slot_of c e \<in> slots"
proof -
  have "level_of c e < 4"
    by (simp add: level_of_def)
  then show ?thesis
    by (auto simp: slot_of_def slots_def Let_def image_iff)
qed

text \<open>All nodes of the wheel, and every chain in its slot.\<close>

definition pending :: "'h timer \<Rightarrow> 'h timer_node multiset" where
  "pending T = (\<Sum>s\<in>slots. mset (chain T s))"

definition placed :: "'h timer \<Rightarrow> bool" where
  "placed T \<longleftrightarrow> (\<forall>s. \<forall>n\<in>set (chain T s). node_slot T n = s)"

lemma mset_sum_update:
  "finite S \<Longrightarrow> s \<in> S \<Longrightarrow> (\<Sum>x\<in>S. mset ((f(s := l)) x)) + mset (f s) = (\<Sum>x\<in>S. mset (f x)) + mset l"
  by (simp add: sum.remove [of S s] ac_simps)

lemma time_foldl_add [simp, frame_simps]: "tm_time (foldl add_node T ns) = tm_time T"
  by (induction ns arbitrary: T) simp_all

lemma chain_foldl_add:
  "chain (foldl add_node T ns) s = chain T s @ filter (\<lambda>n. node_slot T n = s) ns"
  by (induction ns arbitrary: T) (auto simp: chain_add_node)

lemma sum_filter_slots:
  "finite S \<Longrightarrow> \<forall>n\<in>set ns. g n \<in> S \<Longrightarrow> (\<Sum>s\<in>S. mset (filter (\<lambda>n. g n = s) ns)) = mset ns"
proof (induction ns)
  case (Cons n ns)
  have "(\<Sum>s\<in>S. mset (filter (\<lambda>n. g n = s) (n # ns))) =
    (\<Sum>s\<in>S. (if g n = s then {#n#} else {#}) + mset (filter (\<lambda>n. g n = s) ns))"
    by (rule sum.cong) auto
  then show ?case
    using Cons by (simp add: sum.distrib)
qed simp

lemma pending_add_node: "pending (add_node T n) = add_mset n (pending T)"
proof -
  have "pending (add_node T n) = (\<Sum>s\<in>slots. mset (filter (\<lambda>n. node_slot T n = s) [n]) + mset (chain T s))"
    unfolding pending_def by (rule sum.cong) (auto simp: chain_add_node)
  then show ?thesis
    using sum_filter_slots [of slots "[n]" "node_slot T"] by (simp add: sum.distrib pending_def)
qed

lemma placed_add_node: "placed T \<Longrightarrow> placed (add_node T n)"
  by (auto simp: placed_def chain_add_node)

text \<open>Moving one chain re-files its nodes: the nodes of the wheel stay, and every chain is in place
  when the other chains were.\<close>

lemma chain_level_upd:
  "chain (T\<lparr>tm_t := (tm_t T)(i := (tm_t T i)(j := l))\<rparr>) = (chain T)(Level i j := l)"
proof
  show "chain (T\<lparr>tm_t := (tm_t T)(i := (tm_t T i)(j := l))\<rparr>) s = ((chain T)(Level i j := l)) s" for s
    by (cases s) auto
qed

lemma move_list_ok:
  assumes "i < 4" "j < 64" "\<And>s n. s \<noteq> Level i j \<Longrightarrow> n \<in> set (chain T s) \<Longrightarrow> node_slot T n = s"
  shows "\<exists>T'. move_list T i j = Some T' \<and> placed T' \<and> pending T' = pending T \<and> tm_time T' = tm_time T"
proof -
  define T0 where "T0 = T\<lparr>tm_t := (tm_t T)(i := (tm_t T i)(j := []))\<rparr>"
  define T' where "T' = foldl add_node T0 (chain T (Level i j))"
  have ch: "chain T' s = ((chain T)(Level i j := [])) s @
      filter (\<lambda>n. node_slot T n = s) (chain T (Level i j))" for s
    unfolding T'_def chain_foldl_add by (simp add: T0_def chain_level_upd del: chain.simps)
  have tm: "tm_time T' = tm_time T"
    by (simp add: T'_def T0_def)
  have "move_list T i j = Some T'"
    using assms(1,2) by (simp add: move_list_def timelink_clear_def T'_def T0_def)
  moreover have "placed T'"
    unfolding placed_def ch tm using assms(3) by (auto simp del: chain.simps split: if_splits)
  moreover have "pending T' = pending T"
    unfolding pending_def ch mset_append sum.distrib
    using mset_sum_update [of slots "Level i j" "chain T" "[]"] assms(1,2)
    by (subst sum_filter_slots) (auto simp del: chain.simps)
  ultimately show ?thesis
    using tm by blast
qed

text \<open>\<open>timer_shift\<close> advances the clock by one and leaves every chain in place.\<close>

lemma and_low_mask_zero:
  "m < 32 \<Longrightarrow> ct AND (2 ^ m - 1) = 0 \<longleftrightarrow> 2 ^ m dvd unat (ct :: u32)"
  unfolding mask_eq_exp_minus_1 [symmetric] take_bit_eq_mask [symmetric] word_unat_eq_iff unsigned_take_bit_eq
  by (simp add: take_bit_eq_mod dvd_eq_mod_eq_0)

lemma shift_loop_result:
  assumes "i < 4" "ct \<noteq> 0" "msk = 2 ^ (8 + 6 * i)" "time = drop_bit (8 + 6 * i) ct"
  shows "\<not> 2 ^ (8 + 6 * i) dvd unat ct \<and> shift_loop T ct msk time i = Some T \<or>
    (\<exists>k<4. i \<le> k \<and> 2 ^ (8 + 6 * k) dvd unat ct \<and> \<not> 2 ^ (14 + 6 * k) dvd unat ct \<and>
       shift_loop T ct msk time i = move_list T k (unat ct div 2 ^ (8 + 6 * k) mod 64))"
  using assms
proof (induction T ct msk time i rule: shift_loop.induct)
  case (1 T ct msk time i)
  let ?m = "8 + 6 * i" and ?idx = "unat ct div 2 ^ (8 + 6 * i) mod 64"
  have idx: "unat (time AND 63) = ?idx"
    using "1.prems"(4) by (simp add: unat_level_index)
  have zero: "ct AND (msk - 1) = 0 \<longleftrightarrow> 2 ^ ?m dvd unat ct"
    using "1.prems"(1,3) by (simp only:) (rule and_low_mask_zero, simp)
  have pow: "(2 :: nat) ^ (14 + 6 * i) = 2 ^ ?m * 64"
    by (simp add: power_add)
  consider (stop) "\<not> 2 ^ ?m dvd unat ct" | (move) "2 ^ ?m dvd unat ct" "?idx \<noteq> 0"
    | (deeper) "2 ^ ?m dvd unat ct" "?idx = 0"
    by blast
  then show ?case
  proof cases
    case stop
    then show ?thesis
      using zero by (subst shift_loop.simps) simp
  next
    case move
    have "\<not> 2 ^ (14 + 6 * i) dvd unat ct"
      using move(2) unfolding pow by (auto elim!: dvdE simp: mult.assoc)
    then have "\<exists>k<4. i \<le> k \<and> 2 ^ (8 + 6 * k) dvd unat ct \<and> \<not> 2 ^ (14 + 6 * k) dvd unat ct \<and>
       shift_loop T ct msk time i = move_list T k (unat ct div 2 ^ (8 + 6 * k) mod 64)"
      using zero idx move "1.prems"(1)
      by (intro exI [of _ i]) (simp add: shift_loop.simps [of T ct msk time i])
    then show ?thesis ..
  next
    case deeper
    have "i \<noteq> 3"
    proof
      assume "i = 3"
      then have "67108864 dvd unat ct" "unat ct div 67108864 mod 64 = 0"
        using deeper by simp_all
      moreover have "unat ct < 4294967296" "unat ct \<noteq> 0"
        using unsigned_less [of ct, where ?'a = nat] "1.prems"(2) by (simp_all add: unat_eq_0)
      ultimately show False
        by (auto elim!: dvdE)
    qed
    then have i: "\<not> 3 \<le> i" "Suc i < 4"
      using "1.prems"(1) by simp_all
    have eq: "shift_loop T ct msk time i = shift_loop T ct (push_bit 6 msk) (drop_bit 6 time) (Suc i)"
      using zero idx deeper i(1) by (simp add: shift_loop.simps [of T ct msk time i])
    have pow': "2 ^ (8 + 6 * Suc i) dvd unat ct"
      using deeper by (auto elim!: dvdE simp: power_add mult.assoc)
    have args: "push_bit 6 msk = 2 ^ (8 + 6 * Suc i)" "drop_bit 6 time = drop_bit (8 + 6 * Suc i) ct"
      using "1.prems"(3,4) by (simp_all add: push_bit_eq_mult power_add drop_bit_drop_bit ac_simps)
    have "ct AND (msk - 1) = 0" "\<not> unat (time AND 63) \<noteq> 0"
      using zero idx deeper by simp_all
    from "1.IH" [OF this(1) refl this(2) i(1) i(2) "1.prems"(2) args] pow'
    obtain k where "k < 4" "Suc i \<le> k" "2 ^ (8 + 6 * k) dvd unat ct" "\<not> 2 ^ (14 + 6 * k) dvd unat ct"
      "shift_loop T ct msk time i = move_list T k (unat ct div 2 ^ (8 + 6 * k) mod 64)"
      unfolding eq by blast
    then show ?thesis
      by (intro disjI2 exI [of _ k] conjI) simp_all
  qed
qed

section \<open>The invariant and its preservation\<close>

abbreviation remaining :: "'h timer \<Rightarrow> 'h timer_node \<Rightarrow> nat" where
  "remaining T n \<equiv> unat (tn_expire n - tm_time T)"

definition timer_inv :: "'h timer \<Rightarrow> bool" where
  "timer_inv T \<longleftrightarrow> placed T \<and> (\<forall>n\<in>#pending T. 0 < remaining T n \<and> remaining T n < 2147483648)"

lemma chain_pending:
  assumes "placed T" "n \<in> set (chain T s)"
  shows "n \<in># pending T"
proof -
  have "s \<in> slots"
    using assms by (metis placed_def slot_of_slots)
  then show ?thesis
    using assms(2) by (auto simp: pending_def sum.remove [of slots s])
qed

lemma ahead_remaining:
  assumes "0 < unat (e - c)" "unat (e - c) < 2147483648"
  shows "ahead (unat c) (unat (e :: u32))"
proof (cases "unat c < unat e")
  case False
  have "unat e < 4294967296" "unat c < 4294967296"
    using unsigned_less [of e, where ?'a = nat] unsigned_less [of c, where ?'a = nat] by simp_all
  moreover have "unat e < unat c"
    using False assms(1) by (cases "e = c") (auto simp: word_unat_eq_iff)
  ultimately show ?thesis
    using assms(2) by (auto simp: ahead_def agree_def unat_sub_if' split: if_splits)
qed (simp add: ahead_def)

lemma chain_time [simp]: "chain (T\<lparr>tm_time := c\<rparr>) = chain T"
proof
  show "chain (T\<lparr>tm_time := c\<rparr>) s = chain T s" for s
    by (cases s) simp_all
qed

lemma pending_time [simp]: "pending (T\<lparr>tm_time := c\<rparr>) = pending T"
  by (simp add: pending_def)

lemma timer_shift_ok:
  assumes "timer_inv T"
  shows "\<exists>T'. timer_shift T = Some T' \<and> placed T' \<and> pending T' = pending T \<and> tm_time T' = tm_time T + 1"
proof -
  let ?c = "unat (tm_time T)" and ?T = "T\<lparr>tm_time := tm_time T + 1\<rparr>"
  have placed: "slot_of ?c (unat (tn_expire n)) = s" and ahead: "ahead ?c (unat (tn_expire n))"
    if "n \<in> set (chain T s)" for n s
    using assms that chain_pending [of T n s] ahead_remaining
    by (auto simp: timer_inv_def placed_def)
  show ?thesis
  proof (cases "tm_time T + 1 = 0")
    case True
    then have c: "?c = 4294967295"
      by (simp add: add_eq_0_iff2 unsigned_minus_1_eq_mask mask_eq_exp_minus_1)
    have "node_slot ?T n = s" if "s \<noteq> Level 3 0" "n \<in> set (chain ?T s)" for s n
      using slot_of_wrap [of "unat (tn_expire n)"] placed [of n s] ahead [of n s] that True c
        unsigned_less [of "tn_expire n", where ?'a = nat] by simp
    from move_list_ok [OF _ _ this] show ?thesis
      using True by (auto simp: timer_shift_def Let_def)
  next
    case False
    then have c: "unat (tm_time T + 1) = Suc ?c"
      using unatSuc [of "tm_time T"] by (simp add: add.commute)
    have eq: "timer_shift T = shift_loop ?T (tm_time T + 1) 256 (drop_bit 8 (tm_time T + 1)) 0"
      using False by (simp add: timer_shift_def Let_def)
    consider (low) "\<not> 2 ^ 8 dvd Suc ?c" "timer_shift T = Some ?T"
      | (cascade) k where "k < 4" "2 ^ (8 + 6 * k) dvd Suc ?c" "\<not> 2 ^ (14 + 6 * k) dvd Suc ?c"
         "timer_shift T = move_list ?T k (Suc ?c div 2 ^ (8 + 6 * k) mod 64)"
      using shift_loop_result [of 0 "tm_time T + 1" 256 _ ?T] False unfolding eq c by auto
    then show ?thesis
    proof cases
      case low
      then show ?thesis
        using placed slot_of_low_tick c by (auto simp: placed_def)
    next
      case (cascade k)
      have "node_slot ?T n = s"
        if "s \<noteq> Level k (Suc ?c div 2 ^ (8 + 6 * k) mod 64)" "n \<in> set (chain ?T s)" for s n
        using slot_of_boundary [OF cascade(1-3) ahead] placed that c by simp
      from move_list_ok [OF cascade(1) _ this] show ?thesis
        unfolding cascade(4) by simp
    qed
  qed
qed

abbreviation now :: "'h timer \<Rightarrow> nat" where
  "now T \<equiv> unat (tm_time T) mod 256"

lemma chain_filter_pending:
  assumes "placed T" "s \<in> slots"
  shows "mset (chain T s) = filter_mset (\<lambda>n. node_slot T n = s) (pending T)"
proof -
  have "filter_mset (\<lambda>n. node_slot T n = s) (\<Sum>x\<in>slots - {s}. mset (chain T x)) = {#}"
    using assms by (auto simp: filter_mset_eq_conv placed_def set_mset_sum)
  moreover have "filter_mset (\<lambda>n. node_slot T n = s) (mset (chain T s)) = mset (chain T s)"
    using assms(1) by (auto simp: filter_mset_eq_conv placed_def)
  ultimately show ?thesis
    using assms(2) by (simp add: pending_def sum.remove [of slots s])
qed

lemma node_slot_now:
  "node_slot T n = Near (now T) \<longleftrightarrow> tn_expire n = tm_time T"
proof
  assume "node_slot T n = Near (now T)"
  then have "agree 8 (unat (tm_time T)) (unat (tn_expire n))" and md: "unat (tn_expire n) mod 256 = now T"
    by (auto simp: slot_of_def Let_def split: if_splits)
  then have "unat (tn_expire n) div 256 = unat (tm_time T) div 256"
    by (simp add: agree_def)
  then have "unat (tn_expire n) = unat (tm_time T)"
    using md by (metis div_mult_mod_eq)
  then show "tn_expire n = tm_time T"
    by (simp only: word_unat_eq_iff)
qed (simp add: slot_of_def agree_def)

lemma timer_execute_eq:
  "timer_execute T = (T\<lparr>tm_near := (tm_near T)(now T := [])\<rparr>, dispatch_list (tm_near T (now T)))"
proof (cases "tm_near T (now T) = []")
  case True
  then have "(tm_near T)(now T := []) = tm_near T"
    by auto
  then show ?thesis
    using True by (subst timer_execute.simps) (simp add: unat_and_near dispatch_list_def)
next
  case False
  then show ?thesis
    by (subst timer_execute.simps, subst timer_execute.simps)
      (simp add: unat_and_near timelink_clear_def dispatch_list_def Let_def)
qed

text \<open>The abstract timer service: a multiset of timers, each with the ticks it has left and its
  handle. A tick delivers the timers with one tick left and brings the others closer.\<close>

definition timers :: "'h timer \<Rightarrow> (nat \<times> 'h) multiset" where
  "timers T = image_mset (\<lambda>n. (remaining T n, te_handle (tn_event n))) (pending T)"

definition due :: "nat \<Rightarrow> (nat \<times> 'h) multiset \<Rightarrow> 'h multiset" where
  "due k R = image_mset snd (filter_mset (\<lambda>(d, h). d = k) R)"

definition elapse :: "(nat \<times> 'h) multiset \<Rightarrow> (nat \<times> 'h) multiset" where
  "elapse R = image_mset (\<lambda>(d, h). (d - 1, h)) (filter_mset (\<lambda>(d, h). d \<noteq> 1) R)"

lemma execute_ok:
  assumes "placed T"
  shows "\<exists>T'. timer_execute T = (T', dispatch_list (tm_near T (now T))) \<and> placed T' \<and> tm_time T' = tm_time T \<and>
    pending T' = filter_mset (\<lambda>n. tn_expire n \<noteq> tm_time T) (pending T) \<and>
    mset (tm_near T (now T)) = filter_mset (\<lambda>n. tn_expire n = tm_time T) (pending T)"
proof -
  let ?T = "T\<lparr>tm_near := (tm_near T)(now T := [])\<rparr>"
  have ch: "chain ?T s = ((chain T)(Near (now T) := [])) s" for s
    by (cases s) auto
  have now: "mset (tm_near T (now T)) = filter_mset (\<lambda>n. tn_expire n = tm_time T) (pending T)"
    using chain_filter_pending [OF assms, of "Near (now T)"] by (simp add: node_slot_now)
  have "pending ?T + mset (tm_near T (now T)) = pending T"
    unfolding pending_def ch using mset_sum_update [of slots "Near (now T)" "chain T" "[]"] by simp
  then have "pending ?T = pending T - filter_mset (\<lambda>n. tn_expire n = tm_time T) (pending T)"
    unfolding now by (metis add_diff_cancel_right')
  then have "pending ?T = filter_mset (\<lambda>n. tn_expire n \<noteq> tm_time T) (pending T)"
    by (metis add_diff_cancel_left' multiset_partition)
  moreover have "placed ?T"
    using assms unfolding placed_def ch by (auto simp del: chain.simps split: if_splits)
  ultimately show ?thesis
    using now timer_execute_eq [of T] by simp
qed

lemma remaining_tick:
  assumes "0 < unat (e - c)"
  shows "unat (e - (c + 1) :: u32) = unat (e - c) - 1"
proof -
  have "e - c \<noteq> 0"
    using assms by auto
  then show ?thesis
    using unat_minus_one [of "e - c"] by (simp add: diff_diff_eq)
qed

lemma execute_idle:
  assumes "timer_inv T"
  shows "timer_execute T = (T, [])"
proof -
  have "filter_mset (\<lambda>n. tn_expire n = tm_time T) (pending T) = {#}"
    using assms by (auto simp: timer_inv_def filter_mset_eq_conv)
  then have "tm_near T (now T) = []"
    using execute_ok [of T] assms by (metis mset_zero_iff timer_inv_def)
  then show ?thesis
    by (subst timer_execute.simps) (simp add: unat_and_near)
qed

lemma due_one_cong:
  assumes "\<And>n. n \<in># N \<Longrightarrow> (f n = k) = P n"
  shows "due k (image_mset (\<lambda>n. (f n, g n)) N) = image_mset g (filter_mset P N)"
proof -
  have "filter_mset (\<lambda>n. f n = k) N = filter_mset P N"
    using assms by (rule filter_mset_cong0)
  then show ?thesis
    by (simp add: due_def filter_mset_image_mset image_mset.compositionality comp_def)
qed

lemma timer_update_refines:
  assumes "timer_inv T"
  shows "\<exists>T' out. timer_update T = Some (T', out) \<and> timer_inv T' \<and>
    mset out = due 1 (timers T) \<and> timers T' = elapse (timers T)"
proof -
  from timer_shift_ok [OF assms] obtain T1 where T1: "timer_shift T = Some T1" "placed T1"
    "pending T1 = pending T" "tm_time T1 = tm_time T + 1"
    by blast
  from execute_ok [OF T1(2)] obtain T2 where T2: "timer_execute T1 = (T2, dispatch_list (tm_near T1 (now T1)))"
    "placed T2" "tm_time T2 = tm_time T + 1"
    "pending T2 = filter_mset (\<lambda>n. tn_expire n \<noteq> tm_time T + 1) (pending T)"
    "mset (tm_near T1 (now T1)) = filter_mset (\<lambda>n. tn_expire n = tm_time T + 1) (pending T)"
    unfolding T1 by blast
  have rem: "0 < remaining T n" "remaining T n < 2147483648" if "n \<in># pending T" for n
    using assms that by (auto simp: timer_inv_def)
  have one: "(remaining T n = 1) = (tn_expire n = tm_time T + 1)" for n
    by (metis add.commute diff_eq_eq unat_1 word_unat_eq_iff)
  have "timer_update T = Some (T2, dispatch_list (tm_near T1 (now T1)))"
    by (simp add: timer_update_def execute_idle [OF assms] T1 T2(1))
  moreover have "timer_inv T2"
    unfolding timer_inv_def T2(3,4)
  proof (intro conjI ballI T2(2))
    fix n assume n: "n \<in># filter_mset (\<lambda>n. tn_expire n \<noteq> tm_time T + 1) (pending T)"
    show "0 < unat (tn_expire n - (tm_time T + 1))"
      using n by (auto simp: unat_gt_0)
    show "unat (tn_expire n - (tm_time T + 1)) < 2147483648"
      using n rem [of n] remaining_tick [of "tn_expire n" "tm_time T"] by auto
  qed
  moreover have "mset (dispatch_list (tm_near T1 (now T1))) = due 1 (timers T)"
    unfolding timers_def dispatch_list_def mset_map T2(5)
    by (rule due_one_cong [symmetric]) (rule one)
  moreover have "timers T2 = elapse (timers T)"
    unfolding timers_def elapse_def T2(3,4)
    by (auto simp: filter_mset_image_mset image_mset.compositionality comp_def one [unfolded One_nat_def]
      remaining_tick rem intro!: image_mset_cong)
  ultimately show ?thesis
    by blast
qed

section \<open>Timer service\<close>

lemma timer_inv_init [simp]: "timer_inv (server_timer_init r m :: 'h timer)" "timers (server_timer_init r m :: 'h timer) = {#}"
proof -
  have "chain (server_timer_init r m :: 'h timer) s = []" for s
    by (cases s) (simp_all add: server_timer_init_def server_timer_create_timer_def Let_def split: prod.split)
  then show "timer_inv (server_timer_init r m :: 'h timer)" "timers (server_timer_init r m :: 'h timer) = {#}"
    by (simp_all add: timer_inv_def placed_def pending_def timers_def)
qed

lemma positive_timeout: "0 < sint time \<Longrightarrow> 0 < unat time \<and> unat (time :: cint) < 2147483648"
proof -
  assume pos: "0 < sint time"
  have "uint time = sint time"
    using pos sint_lt [of time] by (simp add: uint_sint take_bit_int_eq_self)
  then show ?thesis
    using pos sint_lt [of time] by (simp add: unat_eq_nat_uint nat_less_iff)
qed

lemma timeout_refines:
  assumes "timer_inv T" "0 < sint time"
  shows "timer_inv (timer_add T ev time) \<and>
    timers (timer_add T ev time) = add_mset (unat time, te_handle ev) (timers T)"
  using assms positive_timeout [OF assms(2)]
  by (auto simp: timer_add_def timer_inv_def timers_def placed_add_node pending_add_node)

text \<open>A client's sequence of calls, and the abstract service's answer to it: the deliveries of every
  tick, and the timers left.\<close>

datatype 'h timer_call = Timeout cint 'h | Tick

fun run_timer :: "'h timer_call list \<Rightarrow> 'h timer \<Rightarrow> ('h timer \<times> 'h list list) option" where
  "run_timer [] T = Some (T, [])"
| "run_timer (Timeout time h # cs) T = run_timer cs (snd (server_timer_timeout T time h))"
| "run_timer (Tick # cs) T = do {
     (T, out) \<leftarrow> timer_update T;
     (T, outs) \<leftarrow> run_timer cs T;
     Some (T, out # outs)
   }"

fun spec_timer :: "'h timer_call list \<Rightarrow> (nat \<times> 'h) multiset \<Rightarrow> (nat \<times> 'h) multiset \<times> 'h multiset list" where
  "spec_timer [] R = (R, [])"
| "spec_timer (Timeout time h # cs) R =
     spec_timer cs (if time = 0 then R else add_mset (nat (sint time), h) R)"
| "spec_timer (Tick # cs) R = (case spec_timer cs (elapse R) of (R', outs) \<Rightarrow> (R', due 1 R # outs))"

fun nonneg_timeouts :: "'h timer_call list \<Rightarrow> bool" where
  "nonneg_timeouts [] \<longleftrightarrow> True"
| "nonneg_timeouts (Timeout time h # cs) \<longleftrightarrow> 0 \<le> sint time \<and> nonneg_timeouts cs"
| "nonneg_timeouts (Tick # cs) \<longleftrightarrow> nonneg_timeouts cs"

lemma unat_eq_sint: "0 \<le> sint time \<Longrightarrow> unat (time :: cint) = nat (sint time)"
  using sint_lt [of time] by (simp add: unat_eq_nat_uint uint_sint take_bit_int_eq_self)

lemma signed_eq_0: "sint w = 0 \<Longrightarrow> w = (0 :: cint)"
  by (rule signed_word_eqI) simp

lemma run_timer_refines:
  assumes "timer_inv T" "nonneg_timeouts cs"
  shows "\<exists>T' outs. run_timer cs T = Some (T', outs) \<and> timer_inv T' \<and>
    spec_timer cs (timers T) = (timers T', map mset outs)"
  using assms
proof (induction cs arbitrary: T)
  case (Cons c cs)
  show ?case
  proof (cases c)
    case (Timeout time h)
    then have "time = 0 \<or> 0 < sint time"
      using Cons.prems(2) by (auto simp: order_le_less signed_eq_0)
    then show ?thesis
      using Cons.IH [of T] Cons.IH [of "timer_add T \<lparr>te_handle = h\<rparr> time"] Cons.prems Timeout
        timeout_refines [of T time "\<lparr>te_handle = h\<rparr>"]
      by (auto simp: server_timer_timeout_def unat_eq_sint)
  next
    case Tick
    from timer_update_refines [OF Cons.prems(1)] obtain T' out where
      u: "timer_update T = Some (T', out)" "timer_inv T'" "mset out = due 1 (timers T)"
        "timers T' = elapse (timers T)"
      by blast
    from Cons.IH [OF u(2)] Cons.prems(2) Tick obtain T'' outs where
      "run_timer cs T' = Some (T'', outs)" "timer_inv T''" "spec_timer cs (timers T') = (timers T'', map mset outs)"
      by auto
    then show ?thesis
      using u Tick by simp
  qed
qed simp

lemma timers_positive: "timer_inv T \<Longrightarrow> (d, h) \<in># timers T \<Longrightarrow> 0 < d"
  by (auto simp: timer_inv_def timers_def)

lemma elapse_le:
  assumes "\<And>d h. (d, h) \<in># R \<Longrightarrow> 0 < d"
  shows "due 1 R + image_mset snd (filter_mset (\<lambda>(d, h). d \<le> n) (elapse R)) =
    image_mset snd (filter_mset (\<lambda>(d, h). d \<le> Suc n) R)"
proof -
  have "filter_mset (\<lambda>(d, h). d \<le> Suc n) R =
    filter_mset (\<lambda>(d, h). d = 1) R + filter_mset (\<lambda>(d, h). d - 1 \<le> n \<and> d \<noteq> 1) R"
    using assms by (induction R) (auto split: if_splits)
  then show ?thesis
    by (simp add: due_def elapse_def filter_mset_image_mset image_mset.compositionality comp_def
      case_prod_unfold filter_filter_mset conj_commute)
qed

lemma elapse_gt:
  "image_mset (\<lambda>(d, h). (d - n, h)) (filter_mset (\<lambda>(d, h). n < d) (elapse R)) =
    image_mset (\<lambda>(d, h). (d - Suc n, h)) (filter_mset (\<lambda>(d, h). Suc n < d) (R :: (nat \<times> 'h) multiset))"
proof -
  have "(\<lambda>p :: nat \<times> 'h. n < fst p - 1 \<and> fst p \<noteq> 1) = (\<lambda>p. Suc n < fst p)"
    by (rule ext) auto
  then show ?thesis
    by (simp add: elapse_def filter_mset_image_mset image_mset.compositionality comp_def
      case_prod_unfold filter_filter_mset conj_commute)
qed

lemma update_loop_refines:
  assumes "timer_inv T"
  shows "\<exists>T' out. update_loop n T = Some (T', out) \<and> timer_inv T' \<and>
    mset out = image_mset snd (filter_mset (\<lambda>(d, h). d \<le> n) (timers T)) \<and>
    timers T' = image_mset (\<lambda>(d, h). (d - n, h)) (filter_mset (\<lambda>(d, h). n < d) (timers T))"
  using assms
proof (induction n arbitrary: T)
  case 0
  have "filter_mset (\<lambda>(d, h). d = 0) (timers T) = {#}" "filter_mset (\<lambda>(d, h). 0 < d) (timers T) = timers T"
    using timers_positive [OF 0] by (auto simp: filter_mset_eq_conv)
  then show ?case
    using 0 by simp
next
  case (Suc n)
  from timer_update_refines [OF Suc.prems] obtain T1 out1 where
    u: "timer_update T = Some (T1, out1)" "timer_inv T1" "mset out1 = due 1 (timers T)"
      "timers T1 = elapse (timers T)"
    by blast
  from Suc.IH [OF u(2)] obtain T2 out2 where
    "update_loop n T1 = Some (T2, out2)" "timer_inv T2"
    "mset out2 = image_mset snd (filter_mset (\<lambda>(d, h). d \<le> n) (elapse (timers T)))"
    "timers T2 = image_mset (\<lambda>(d, h). (d - n, h)) (filter_mset (\<lambda>(d, h). n < d) (elapse (timers T)))"
    unfolding u by blast
  then show ?case
    using u elapse_le [OF timers_positive [OF Suc.prems], where n = n] elapse_gt [of n "timers T"]
    by simp
qed

lemma timer_fields:
  "tm_current (add_node T n) = tm_current T" "tm_current_point (add_node T n) = tm_current_point T"
  by (simp_all add: add_node_def Let_def)

lemma timers_clock [simp]:
  "timers (T\<lparr>tm_current_point := a\<rparr>) = timers T" "timer_inv (T\<lparr>tm_current_point := a\<rparr>) = timer_inv T"
  "timers (T\<lparr>tm_current := b\<rparr>) = timers T" "timer_inv (T\<lparr>tm_current := b\<rparr>) = timer_inv T"
  "timers (T\<lparr>tm_starttime := c\<rparr>) = timers T" "timer_inv (T\<lparr>tm_starttime := c\<rparr>) = timer_inv T"
proof -
  have ch: "chain (T\<lparr>tm_current_point := a\<rparr>) = chain T" "chain (T\<lparr>tm_current := b\<rparr>) = chain T"
    "chain (T\<lparr>tm_starttime := c\<rparr>) = chain T"
    by (rule ext, case_tac x; simp)+
  show "timers (T\<lparr>tm_current_point := a\<rparr>) = timers T" "timer_inv (T\<lparr>tm_current_point := a\<rparr>) = timer_inv T"
    "timers (T\<lparr>tm_current := b\<rparr>) = timers T" "timer_inv (T\<lparr>tm_current := b\<rparr>) = timer_inv T"
    "timers (T\<lparr>tm_starttime := c\<rparr>) = timers T" "timer_inv (T\<lparr>tm_starttime := c\<rparr>) = timer_inv T"
    by (simp_all add: timers_def timer_inv_def placed_def pending_def ch)
qed

lemma updatetime_eq:
  assumes "tm_current_point TI < gettime m" "unat (gettime m - tm_current_point TI) \<le> 2147483647"
  shows "\<exists>TI'. server_timer_updatetime m TI = update_loop (unat (gettime m - tm_current_point TI)) TI' \<and>
    timers TI' = timers TI \<and> timer_inv TI' = timer_inv TI"
proof -
  define n where "n = gettime m - tm_current_point TI"
  define oc where "oc = tm_current TI"
  define TI1 where "TI1 = TI\<lparr>tm_current_point := gettime m, tm_current := oc + ucast n\<rparr>"
  define TI2 where "TI2 = (if oc + ucast n < oc
    then TI1\<lparr>tm_starttime := tm_starttime TI1 + 0xffffffff div 100\<rparr> else TI1)"
  have "unat (ucast n :: u32) = unat n"
    using assms(2) by (simp add: unsigned_ucast_eq take_bit_nat_eq_self n_def)
  moreover from this have "\<not> 2147483647 < uint (ucast n :: u32)"
    using assms(2) unfolding n_def [symmetric] uint_nat by linarith
  moreover have "\<not> gettime m < tm_current_point TI" "gettime m \<noteq> tm_current_point TI"
    using assms(1) by auto
  ultimately have "server_timer_updatetime m TI = update_loop (unat n) TI2"
    by (simp add: server_timer_updatetime_def Let_def n_def [symmetric] oc_def [symmetric] TI1_def TI2_def)
  moreover have "timers TI2 = timers TI" "timer_inv TI2 = timer_inv TI"
    by (simp_all add: TI1_def TI2_def)
  ultimately show ?thesis
    unfolding n_def by blast
qed

section \<open>Properties\<close>

text \<open>C3: The timing wheel implements the abstract timer service. For every sequence of non-negative
  timeouts and ticks from a fresh wheel, no call is undefined, every tick delivers exactly the
  timers whose time has come, as many of each handle as were set, and the wheel ends with exactly
  the timers still running.\<close>

theorem timer_service_refines:
  assumes "nonneg_timeouts cs"
  shows "\<exists>T outs. run_timer cs (server_timer_init r m) = Some (T, outs) \<and>
    spec_timer cs {#} = (timers T, map mset outs)"
  using run_timer_refines [OF timer_inv_init(1) assms, of r m] by auto

theorem timer_service_refines_witness:
  "\<exists>T outs. run_timer [Timeout 2 (7 :: nat), Tick, Timeout 0 8, Timeout 1 9, Tick]
       (server_timer_init \<lparr>tv_sec = 5, tv_nsec = 0\<rparr> \<lparr>tv_sec = 1, tv_nsec = 0\<rparr>) = Some (T, outs) \<and>
     timers T = {#} \<and> map mset outs = [{#}, {#9, 7#}]"
  using timer_service_refines [of "[Timeout 2 (7 :: nat), Tick, Timeout 0 8, Timeout 1 9, Tick]"
      "\<lparr>tv_sec = 5, tv_nsec = 0\<rparr>" "\<lparr>tv_sec = 1, tv_nsec = 0\<rparr>"]
  by (auto simp: elapse_def due_def)

text \<open>C15: When the monotonic clock has moved forward by \<open>n\<close> hundredths of a second (fewer than
  \<open>2 ^ 31\<close>), \<open>server_timer_updatetime\<close> delivers exactly the timers with at most \<open>n\<close> ticks left and brings
  every other timer \<open>n\<close> ticks closer.\<close>

theorem updatetime_delivers_due:
  assumes "timer_inv TI" "tm_current_point TI < gettime m"
    and "unat (gettime m - tm_current_point TI) = n" "n \<le> 2147483647"
  shows "\<exists>TI' out. server_timer_updatetime m TI = Some (TI', out) \<and> timer_inv TI' \<and>
    mset out = image_mset snd (filter_mset (\<lambda>(d, h). d \<le> n) (timers TI)) \<and>
    timers TI' = image_mset (\<lambda>(d, h). (d - n, h)) (filter_mset (\<lambda>(d, h). n < d) (timers TI))"
proof -
  from updatetime_eq [OF assms(2)] assms(3,4) obtain TI1 where
    "server_timer_updatetime m TI = update_loop n TI1" "timers TI1 = timers TI" "timer_inv TI1 = timer_inv TI"
    by auto
  with update_loop_refines [of TI1 n] assms(1) show ?thesis
    by simp
qed

theorem updatetime_delivers_due_witness:
  "\<exists>TI' out. server_timer_updatetime \<lparr>tv_sec = 1, tv_nsec = 30000000\<rparr>
       (snd (server_timer_timeout (server_timer_init \<lparr>tv_sec = 5, tv_nsec = 0\<rparr> \<lparr>tv_sec = 1, tv_nsec = 0\<rparr>)
          2 (7 :: nat))) = Some (TI', out) \<and> mset out = {#7#}"
proof -
  let ?I = "server_timer_init \<lparr>tv_sec = 5, tv_nsec = 0\<rparr> \<lparr>tv_sec = 1, tv_nsec = 0\<rparr> :: nat timer"
  let ?T = "timer_add ?I \<lparr>te_handle = 7\<rparr> 2" and ?m = "\<lparr>tv_sec = 1, tv_nsec = 30000000\<rparr>"
  have T: "timer_inv ?T" "timers ?T = {#(2, 7)#}"
    using timeout_refines [of ?I 2 "\<lparr>te_handle = 7\<rparr>"] by simp_all
  have p: "tm_current_point ?T = 100" "gettime ?m = 103"
    by (simp_all add: timer_add_def timer_fields server_timer_init_def systime_def gettime_def)
  show ?thesis
    using updatetime_delivers_due [OF T(1), of ?m 3] T(2) p by (auto simp: server_timer_timeout_def)
qed

end
