(* ===== verification/World.thy ===== *)
theory World
  imports Parser Idmaker Mq Timer
begin

text \<open>
  The state of the server and the life of a peer: the first half of \<open>misaka/lib/core.c\<close> with the
  structures of \<open>misaka/include/misaka.h\<close>.

  The world is the global servant, the configuration, the event table, the queues and the memory
  they point into: peers and packets live in stores of addresses. The peer list and the event
  list are the lists of their values, which theory \<open>Linklist\<close> shows the linked lists to implement.

  Everything outside the program is the argument \<open>env\<close> of the operations, the answers given
  during one run of a handler: the clock, the allocations with what the memory held, the system
  calls, and the functions of libev, which are not part of the repository. A handler
  allocates at most one peer and one packet, so one answer of each kind is enough; the transfers that a
  loop makes are lists. \<open>None\<close> is undefined behaviour, as everywhere.
\<close>

section \<open>The environment\<close>

record libev =
  ev_is_active :: "watcher \<Rightarrow> cint"
  ev_io_init :: "watcher \<Rightarrow> ev_callback option \<Rightarrow> cint \<Rightarrow> watcher"
  ev_io_start :: "watcher \<Rightarrow> watcher"
  ev_io_stop :: "watcher \<Rightarrow> watcher"
  ev_periodic_init :: "watcher \<Rightarrow> ev_callback \<Rightarrow> watcher"
  ev_periodic_start :: "watcher \<Rightarrow> watcher"
  ev_periodic_stop :: "watcher \<Rightarrow> watcher"

record env =
  e_now :: int
  e_clock :: timespec
  e_ev :: libev
  e_malloc :: allocator
  e_peer_mem :: ptr
  e_ibuf_mem :: "stream option"
  e_fifo_mem :: bool
  e_read_mem :: "watcher option"
  e_write_mem :: "watcher option"
  e_connect_mem :: "watcher option"
  e_pk_mem :: "(addr \<times> stream) option"
  e_hash_mem :: bool
  e_id_block :: ptr
  e_id_garbage :: cint
  e_id_node :: ptr
  e_mq_alloc :: "size_t \<Rightarrow> bool"
  e_job_mem :: bool
  e_stack :: addr
  e_getfl :: cint
  e_setfl :: cint
  e_socket :: cint
  e_connect :: "cint \<times> int"
  e_bind :: "sockunion \<Rightarrow> int \<Rightarrow> cint"
  e_lbind :: cint
  e_listen :: cint
  e_accept :: "cint \<times> sockunion"
  e_ret_garbage :: io_tat
  e_open :: cint
  e_read :: sysread
  e_reads :: "sysread list"
  e_from :: sockunion
  e_writes :: "int list"
  e_inet_addr :: "byte list \<Rightarrow> u32"

section \<open>The world\<close>

text \<open>The entry points of a plugin. A Lua or Python function is what its call returns: type, source,
  destination and string (for Lua \<open>None\<close> when the call fails, and a NULL string when the last result is
  not one).\<close>

datatype plugin_type = NONE_PLUGIN_TYPE | C_PLUGIN_TYPE | LUA_PLUGIN_TYPE | PYTHON_PLUGIN_TYPE | MAX_PLUGIN_TYPE

type_synonym lua_fn = "cint \<times> cint \<times> cint \<times> byte list \<Rightarrow> (cint \<times> cint \<times> cint \<times> byte list option) option"
type_synonym py_fn = "cint \<times> cint \<times> cint \<times> byte list \<Rightarrow> cint \<times> cint \<times> cint \<times> byte list"

record event_handle =
  eh_path :: "byte list"
  eh_func :: "(stream \<Rightarrow> stream) option"
  eh_init :: bool
  eh_deinit :: bool
  eh_connect :: "(peer \<Rightarrow> peer) option"
  eh_disconnect :: "(peer \<Rightarrow> peer) option"
  eh_lhandle :: "lua_fn option"
  eh_pFunc :: "py_fn option"
  eh_chandle :: bool
  eh_type :: cint
  eh_plug :: plugin_type

abbreviation (input) EVENT_NONE :: cint where "EVENT_NONE \<equiv> 0"
abbreviation (input) EVENT_ECHO :: cint where "EVENT_ECHO \<equiv> 1"
abbreviation (input) EVENT_SYS :: cint where "EVENT_SYS \<equiv> 2"
abbreviation (input) EVENT_NET :: cint where "EVENT_NET \<equiv> 3"
abbreviation (input) EVENT_MAX :: cint where "EVENT_MAX \<equiv> 4"

text \<open>\<open>queues[]\<close> holds the addresses of the message queues; the messages are packets. \<open>w_jobs\<close> counts
  the jobs waiting in the thread pool, \<open>w_closed\<close> records the descriptors that were closed and \<open>w_sent\<close>
  the bytes the kernel took, with the descriptor and the destination of a datagram.\<close>

record world =
  w_peers :: peers
  w_pk :: packets
  w_peer_list :: "addr list"
  w_hash :: "addr hash"
  w_mid :: idmaker
  w_events :: "event_handle list"
  w_event_list :: "nat list"
  w_role :: cint
  w_mq :: "addr mq_state"
  w_queues :: "addr list"
  w_jobs :: nat
  w_timer :: "addr timer"
  w_closed :: "cint list"
  w_sent :: "(cint \<times> sockunion option \<times> byte list) list"

definition set_peer :: "addr \<Rightarrow> peer \<Rightarrow> world \<Rightarrow> world" where
  "set_peer a p w = w\<lparr>w_peers := (w_peers w)(a \<mapsto> p)\<rparr>"

section \<open>The peer table\<close>

text \<open>The loops over the event list that call the plugins.\<close>

definition run_connect :: "world \<Rightarrow> peer \<Rightarrow> peer" where
  "run_connect w p =
     fold (\<lambda>i p. case eh_connect (w_events w ! i) of Some f \<Rightarrow> f p | None \<Rightarrow> p) (w_event_list w) p"

definition run_disconnect :: "world \<Rightarrow> peer \<Rightarrow> peer" where
  "run_disconnect w p =
     fold (\<lambda>i p. case eh_disconnect (w_events w ! i) of Some f \<Rightarrow> f p | None \<Rightarrow> p) (w_event_list w) p"

definition peer_register :: "env \<Rightarrow> addr \<Rightarrow> world \<Rightarrow> world option" where
  "peer_register e a w = do {
     p \<leftarrow> w_peers w a;
     ((i, flag), mid) \<leftarrow> idmaker_get (w_mid w);
     let p = p\<lparr>p_drole := i\<rparr>;
     let p = (if p_on_connect p \<noteq> 0 then run_connect w p else p);
     let ps = (w_peers w)(a \<mapsto> p);
     _ \<leftarrow> probe ps (w_hash w) a;
     (_, h) \<leftarrow> hash_get (e_hash_mem e) (bind_hash ps (w_hash w)) a (Some peer_hashalloc_func);
     Some (w\<lparr>w_peers := ps, w_mid := mid, w_hash := h\<rparr>)
   }"

definition peer_unregister :: "env \<Rightarrow> addr \<Rightarrow> world \<Rightarrow> world option" where
  "peer_unregister e a w = do {
     p \<leftarrow> w_peers w a;
     (_, mid) \<leftarrow> idmaker_put (e_id_block e) (e_id_garbage e) (e_id_node e) (w_mid w) (p_drole p);
     let p = (if p_on_disconnect p \<noteq> 0 then run_disconnect w p else p);
     let ps = (w_peers w)(a \<mapsto> p);
     _ \<leftarrow> probe ps (w_hash w) a;
     (_, h) \<leftarrow> hash_release (bind_hash ps (w_hash w)) a;
     Some (w\<lparr>w_peers := ps, w_mid := mid, w_hash := h\<rparr>)
   }"

text \<open>\<open>peer_lookup\<close> on a peer structure at \<open>a\<close>, in the memory \<open>ps\<close>.\<close>

definition peer_lookup :: "peers \<Rightarrow> addr \<Rightarrow> world \<Rightarrow> ptr option" where
  "peer_lookup ps a w = do {
     _ \<leftarrow> probe ps (w_hash w) a;
     hash_lookup (bind_hash ps (w_hash w)) a
   }"

section \<open>Starting and stopping a peer\<close>

definition run_parser :: "parser_fn \<Rightarrow> peer \<Rightarrow> peer" where
  "run_parser f p = (case f of Parser_normal \<Rightarrow> normal_parser_init p)"

definition misaka_packet_add :: "stream_fifo \<Rightarrow> addr \<Rightarrow> packets \<Rightarrow> (stream_fifo \<times> packets) option" where
  "misaka_packet_add obuf s pk = stream_fifo_push obuf s pk"

definition misaka_packet_delete :: "stream_fifo \<Rightarrow> packets \<Rightarrow> (stream_fifo \<times> packets) option" where
  "misaka_packet_delete obuf pk = do {
     (s, obuf) \<leftarrow> stream_fifo_pop obuf pk;
     Some (obuf, stream_free s pk)
   }"

definition misaka_write_proceed :: "stream_fifo \<Rightarrow> bool" where
  "misaka_write_proceed obuf \<longleftrightarrow> stream_fifo_head obuf \<noteq> None"

definition misaka_write_packet :: "stream_fifo \<Rightarrow> ptr" where
  "misaka_write_packet obuf = (case stream_fifo_head obuf of Some s \<Rightarrow> Some s | None \<Rightarrow> None)"

text \<open>Stopping a watcher if it is active; the pointer is dereferenced.\<close>

definition stop_io :: "env \<Rightarrow> watcher option \<Rightarrow> watcher option option" where
  "stop_io e t = do {
     x \<leftarrow> t;
     Some (Some (if ev_is_active (e_ev e) x = 1 then ev_io_stop (e_ev e) x else x))
   }"

definition stop_periodic :: "env \<Rightarrow> watcher option \<Rightarrow> watcher option option" where
  "stop_periodic e t = do {
     x \<leftarrow> t;
     Some (Some (if ev_is_active (e_ev e) x = 1 then ev_periodic_stop (e_ev e) x else x))
   }"

definition misaka_stop :: "env \<Rightarrow> addr \<Rightarrow> world \<Rightarrow> world option" where
  "misaka_stop e a w = do {
     p \<leftarrow> w_peers w a;
     let p = (if p_status p = TAT_ESTA then (peer_uptime_reset (e_now e) p)\<lparr>p_status := TAT_IDLE\<rparr> else p);
     r \<leftarrow> stop_io e (p_t_read p);
     t \<leftarrow> stop_io e (p_t_write p);
     c \<leftarrow> (if p_quick p = 1 then Some (p_t_connect p) else stop_periodic e (p_t_connect p));
     let p = p\<lparr>p_t_read := r, p_t_write := t, p_t_connect := c, p_packet_size := 0, p_uptime := 0\<rparr>;
     d \<leftarrow> p_disparser p;
     let p = run_parser d p;
     let p = p\<lparr>p_ibuf := map_option stream_reset (p_ibuf p)\<rparr>;
     f \<leftarrow> p_obuf p;
     (f, pk) \<leftarrow> stream_fifo_clean f (w_pk w);
     let p = p\<lparr>p_obuf := Some f\<rparr>;
     let w = w\<lparr>w_pk := pk\<rparr>;
     Some (if 0 \<le> sint (p_fd p)
       then set_peer a (p\<lparr>p_fd := -1\<rparr>) (w\<lparr>w_closed := p_fd p # w_closed w\<rparr>)
       else set_peer a p w)
   }"

text \<open>The \<open>set_nonblocking\<close> step of both start functions: on failure a positive descriptor is closed and
  the field is set to 0.\<close>

definition nonblock_fd :: "env \<Rightarrow> peer \<Rightarrow> world \<Rightarrow> peer \<times> world" where
  "nonblock_fd e p w =
     (if fst (set_nonblocking (e_getfl e) (e_setfl e)) < 0
      then (p\<lparr>p_fd := 0\<rparr>, if 0 < sint (p_fd p) then w\<lparr>w_closed := p_fd p # w_closed w\<rparr> else w)
      else (p, w))"

text \<open>Registering the read watcher unless it is active.\<close>

definition watch_read :: "env \<Rightarrow> addr \<Rightarrow> peer \<Rightarrow> peer option" where
  "watch_read e a p = do {
     r \<leftarrow> p_t_read p;
     Some (if ev_is_active (e_ev e) r \<noteq> 1
       then p\<lparr>p_t_read := Some (ev_io_start (e_ev e) ((ev_io_init (e_ev e) r (Some CB_misaka_read) (p_fd p))\<lparr>ev_data := Some a\<rparr>))\<rparr>
       else p)
   }"

text \<open>In \<open>misaka_start_success\<close> only \<open>ev_io_init\<close> belongs to the inner \<open>if\<close>; the two statements below it run
  whenever the fifo has a packet.\<close>

definition misaka_start_success :: "env \<Rightarrow> addr \<Rightarrow> world \<Rightarrow> world option" where
  "misaka_start_success e a w = do {
     p \<leftarrow> w_peers w a;
     let w = set_peer a (peer_uptime_reset (e_now e) (p\<lparr>p_status := TAT_ESTA\<rparr>)) w;
     w \<leftarrow> peer_register e a w;
     p \<leftarrow> w_peers w a;
     let (p, w) = nonblock_fd e p w;
     p \<leftarrow> watch_read e a p;
     f \<leftarrow> p_obuf p;
     p \<leftarrow> (if misaka_write_proceed f then do {
            t \<leftarrow> p_t_write p;
            r \<leftarrow> p_t_read p;
            let t = (if p_status p = TAT_ESTA \<and> ev_is_active (e_ev e) t \<noteq> 1
                     then ev_io_init (e_ev e) t (Some CB_misaka_write) (p_fd p) else t);
            Some (p\<lparr>p_t_read := Some (r\<lparr>ev_data := Some a\<rparr>), p_t_write := Some (ev_io_start (e_ev e) t)\<rparr>)
          } else Some p);
     Some (set_peer a p w)
   }"

definition misaka_start_progress :: "env \<Rightarrow> addr \<Rightarrow> world \<Rightarrow> world option" where
  "misaka_start_progress e a w = do {
     p \<leftarrow> w_peers w a;
     let p = peer_uptime_reset (e_now e) (p\<lparr>p_status := TAT_IDLE\<rparr>);
     let (p, w) = nonblock_fd e p w;
     p \<leftarrow> watch_read e a p;
     Some (set_peer a p w)
   }"

text \<open>The result is the return value, -1 when the timer cannot be allocated.\<close>

definition misaka_start :: "env \<Rightarrow> addr \<Rightarrow> world \<Rightarrow> (int \<times> world) option" where
  "misaka_start e a w = do {
     p \<leftarrow> w_peers w a;
     r \<leftarrow> (if p_quick p \<noteq> 0 then map_option Inl (misaka_start_success e a w)
          else (case e_connect_mem e of
                  None \<Rightarrow> Some (Inr (set_peer a (p\<lparr>p_t_connect := None\<rparr>) w))
                | Some c \<Rightarrow>
                    let c = ev_periodic_start (e_ev e) (ev_periodic_init (e_ev e) (c\<lparr>ev_data := Some a\<rparr>) CB_misaka_start_thread) in
                    Some (Inl (set_peer a (p\<lparr>p_t_connect := Some c\<rparr>) w))));
     (case r of
        Inr w \<Rightarrow> Some (-1, w)
      | Inl w \<Rightarrow> do {
          p \<leftarrow> w_peers w a;
          f \<leftarrow> p_parser p;
          Some (0, set_peer a (run_parser f p) w)
        })
   }"

definition misaka_reconnect :: "env \<Rightarrow> addr \<Rightarrow> world \<Rightarrow> world option" where
  "misaka_reconnect e a w = do {
     w \<leftarrow> misaka_stop e a w;
     (_, w) \<leftarrow> misaka_start e a w;
     Some w
   }"

section \<open>Creating and deleting a peer\<close>

text \<open>\<open>peer_new\<close>: the structure is cleared and filled. When a watcher cannot be allocated the function
  returns NULL and leaves the half-built peer behind.\<close>

definition peer_init :: "env \<Rightarrow> stream \<Rightarrow> peer" where
  "peer_init e ibuf =
     zero_peer\<lparr>p_fd := -1, p_v_connect := MISAKA_DEFAULT_CONNECT_RETRY, p_status := TAT_IDLE,
       p_ibuf := Some (ibuf\<lparr>s_rlen := 256\<rparr>), p_packet_size := 256, p_obuf := Some stream_fifo_new,
       p_unpack := Some Unpack_default, p_pack := Some Pack_default, p_maxcount := 50,
       p_uptime := e_now e, p_readtime := e_now e, p_resettime := e_now e\<rparr>"

definition peer_new :: "env \<Rightarrow> world \<Rightarrow> ptr \<times> world" where
  "peer_new e w =
     (case e_peer_mem e of
        None \<Rightarrow> (None, w)
      | Some a \<Rightarrow>
          (case stream_new (e_malloc e) (e_ibuf_mem e) MISAKA_MAX_PACKET_SIZE of
             None \<Rightarrow> (None, w)
           | Some ibuf \<Rightarrow>
               if \<not> e_fifo_mem e then (None, w)
               else
                 (let p = peer_init e ibuf in
                  case e_read_mem e of
                    None \<Rightarrow> (None, set_peer a p w)
                  | Some r \<Rightarrow>
                      (let p = p\<lparr>p_t_read := Some (r\<lparr>ev_data := Some a\<rparr>)\<rparr> in
                       case e_write_mem e of
                         None \<Rightarrow> (None, set_peer a p w)
                       | Some t \<Rightarrow>
                           (Some a, (set_peer a (p\<lparr>p_t_write := Some (t\<lparr>ev_data := Some a\<rparr>)\<rparr>) w)
                              \<lparr>w_peer_list := w_peer_list w @ [a]\<rparr>)))))"

definition peer_delete :: "env \<Rightarrow> addr \<Rightarrow> world \<Rightarrow> world option" where
  "peer_delete e a w = do {
     let w = w\<lparr>w_peer_list := remove1 a (w_peer_list w)\<rparr>;
     w \<leftarrow> misaka_stop e a w;
     p \<leftarrow> w_peers w a;
     pk \<leftarrow> (case p_obuf p of Some f \<Rightarrow> stream_fifo_free f (w_pk w) | None \<Rightarrow> Some (w_pk w));
     Some (w\<lparr>w_pk := pk, w_peers := (w_peers w)(a := None)\<rparr>)
   }"

text \<open>The lookups in the peer list end their \<open>if\<close> with a semicolon, so the first peer is returned whatever
  its address is.\<close>

definition peer_lookup_su :: "addr list option \<Rightarrow> sockunion \<Rightarrow> ptr" where
  "peer_lookup_su l su = (case l of None \<Rightarrow> None | Some [] \<Rightarrow> None | Some (a # as) \<Rightarrow> Some a)"

definition peer_lookup_dsu :: "addr list option \<Rightarrow> sockunion \<Rightarrow> ptr" where
  "peer_lookup_dsu l dsu = (case l of None \<Rightarrow> None | Some [] \<Rightarrow> None | Some (a # as) \<Rightarrow> Some a)"

text \<open>\<open>connect_status_trigger\<close> likewise stops the connect timer without the test, but reads its state.\<close>

definition stop_connect :: "env \<Rightarrow> addr \<Rightarrow> world \<Rightarrow> world option" where
  "stop_connect e a w = do {
     p \<leftarrow> w_peers w a;
     c \<leftarrow> p_t_connect p;
     Some (set_peer a (p\<lparr>p_t_connect := Some (ev_periodic_stop (e_ev e) c)\<rparr>) w)
   }"

definition connect_status_trigger :: "env \<Rightarrow> connect_result \<Rightarrow> addr \<Rightarrow> world \<Rightarrow> world option" where
  "connect_status_trigger e status a w =
     (case status of
        connect_success \<Rightarrow> do { w \<leftarrow> misaka_start_success e a w; stop_connect e a w }
      | connect_in_progress \<Rightarrow> do { w \<leftarrow> misaka_start_progress e a w; stop_connect e a w }
      | _ \<Rightarrow> Some w)"

section \<open>The peer table\<close>

text \<open>What a lookup works on: the table and the memory, with a stack copy that carries the number.\<close>

definition lookup_drole :: "env \<Rightarrow> cint \<Rightarrow> world \<Rightarrow> ptr option" where
  "lookup_drole e d w = peer_lookup ((w_peers w)(e_stack e \<mapsto> zero_peer\<lparr>p_drole := d\<rparr>)) (e_stack e) w"

definition reg_wf :: "world \<Rightarrow> bool" where
  "reg_wf w \<longleftrightarrow> table_wf (w_peers w) (w_hash w)"

definition registered :: "world \<Rightarrow> cint \<Rightarrow> addr option" where
  "registered w = table_map (w_peers w) (w_hash w)"

lemma not_in_table_dead: "table_wf ps h \<Longrightarrow> ps a = None \<Longrightarrow> \<not> in_table h a"
  unfolding table_wf_def in_table_def by (metis not_None_eq)

lemma table_hash_wf:
  "table_wf ps h \<Longrightarrow> hash_client.hash_wf (peer_key ps) (peer_cmp ps) (drole_at ps) (bind_hash ps h)"
  by (simp add: table_wf_def)

lemma lookup_registered:
  assumes "reg_wf w" "w_peers w (e_stack e) = None"
  shows "lookup_drole e d w = Some (registered w d)"
proof -
  let ?ps = "(w_peers w)(e_stack e \<mapsto> zero_peer\<lparr>p_drole := d\<rparr>)"
  have n: "\<not> in_table (w_hash w) (e_stack e)"
    using assms not_in_table_dead by (simp add: reg_wf_def)
  have wf: "table_wf ?ps (w_hash w)" and m: "table_map ?ps (w_hash w) = registered w"
    using table_frame [OF n, of "w_peers w"] assms(1) by (simp_all add: reg_wf_def registered_def)
  have "drole_at ?ps (e_stack e) = d"
    by (simp add: drole_at_def)
  then have "hash_lookup (bind_hash ?ps (w_hash w)) (e_stack e) = Some (registered w d)"
    using preg.lookup_law [OF table_hash_wf [OF wf], of "e_stack e"] m by (simp add: table_map_def)
  then show ?thesis
    using probe_wf [OF wf, of "e_stack e"] by (simp add: lookup_drole_def peer_lookup_def)
qed

lemma table_insert:
  assumes wf: "table_wf ps h" and a: "ps a \<noteq> None" and fresh: "table_map ps h (drole_at ps a) = None"
  shows "\<exists>h'. hash_get True (bind_hash ps h) a (Some peer_hashalloc_func) = Some (Some a, h') \<and>
    table_wf ps h' \<and> table_map ps h' = (table_map ps h)(drole_at ps a \<mapsto> a)"
proof -
  from preg.get_insert_law [OF table_hash_wf [OF wf], of a peer_hashalloc_func a] fresh
  obtain h' where h': "hash_get True (bind_hash ps h) a (Some peer_hashalloc_func) = Some (Some a, h')"
      "hash_client.hash_wf (peer_key ps) (peer_cmp ps) (drole_at ps) h'"
      "hash_client.abs_map (drole_at ps) h' = (table_map ps h)(drole_at ps a \<mapsto> a)"
    by (auto simp: table_map_def peer_hashalloc_func_def)
  have b: "bind_hash ps h' = h'"
    using h'(2) by (simp add: bind_hash_def preg.hash_wf_def)
  have "ps (hb_data b) \<noteq> None" if "bs \<in> set (h_index h')" "b \<in> set bs" for bs b
  proof -
    have "b \<in> set (hash_client.entries h')"
      using that by (auto simp: preg.entries_def)
    then have "((table_map ps h)(drole_at ps a \<mapsto> a)) (drole_at ps (hb_data b)) = Some (hb_data b)"
      using preg.abs_map_Some [OF h'(2)] h'(3) by metis
    then show ?thesis
      using a table_map_live(3) [OF wf] by (auto split: if_splits)
  qed
  then show ?thesis
    using h' b by (auto simp: table_wf_def table_map_def)
qed

text \<open>A change of a live peer that keeps its number.\<close>

lemma table_same_drole:
  assumes "ps a = Some p" "p_drole q = p_drole p"
  shows "table_wf (ps(a \<mapsto> q)) h = table_wf ps h" "table_map (ps(a \<mapsto> q)) h = table_map ps h"
proof -
  have d: "drole_at (ps(a \<mapsto> q)) = drole_at ps"
    using assms by (auto simp: drole_at_def fun_eq_iff)
  then have k: "peer_key (ps(a \<mapsto> q)) = peer_key ps" "peer_cmp (ps(a \<mapsto> q)) = peer_cmp ps"
    by (simp_all add: peer_key_def peer_cmp_def fun_eq_iff)
  then have b: "bind_hash (ps(a \<mapsto> q)) h = bind_hash ps h"
    by (simp add: bind_hash_def)
  show "table_wf (ps(a \<mapsto> q)) h = table_wf ps h" "table_map (ps(a \<mapsto> q)) h = table_map ps h"
    using assms(1) unfolding table_wf_def table_map_def d k b by simp_all (metis option.distinct(1))
qed

lemma table_remove:
  assumes wf: "table_wf ps h"
  shows "\<exists>h'. hash_release (bind_hash ps h) a = Some (table_map ps h (drole_at ps a), h') \<and> table_wf ps h' \<and>
    table_map ps h' = (table_map ps h)(drole_at ps a := None)"
proof -
  from preg.release_law [OF table_hash_wf [OF wf], of a]
  obtain h' where h': "hash_release (bind_hash ps h) a = Some (table_map ps h (drole_at ps a), h')"
      "hash_client.hash_wf (peer_key ps) (peer_cmp ps) (drole_at ps) h'"
      "hash_client.abs_map (drole_at ps) h' = (table_map ps h)(drole_at ps a := None)"
    by (auto simp: table_map_def)
  have b: "bind_hash ps h' = h'"
    using h'(2) by (simp add: bind_hash_def preg.hash_wf_def)
  have "ps (hb_data b) \<noteq> None" if "bs \<in> set (h_index h')" "b \<in> set bs" for bs b
  proof -
    have "b \<in> set (hash_client.entries h')"
      using that by (auto simp: preg.entries_def)
    then have "((table_map ps h)(drole_at ps a := None)) (drole_at ps (hb_data b)) = Some (hb_data b)"
      using preg.abs_map_Some [OF h'(2)] h'(3) by metis
    then show ?thesis
      using table_map_live(3) [OF wf] by (auto split: if_splits)
  qed
  then show ?thesis
    using h' b by (auto simp: table_wf_def table_map_def)
qed

text \<open>The plugins' connect functions leave the number of the peer alone.\<close>

definition connect_keeps :: "world \<Rightarrow> bool" where
  "connect_keeps w \<longleftrightarrow> (\<forall>q. p_drole (run_connect w q) = p_drole q) \<and> (\<forall>q. p_drole (run_disconnect w q) = p_drole q)"

lemma register_adds:
  assumes wf: "reg_wf w" and p: "w_peers w a = Some p" and out: "\<not> in_table (w_hash w) a"
    and i: "idmaker_get (w_mid w) = Some ((i, flag), mid)" and fresh: "registered w i = None"
    and mem: "e_hash_mem e" and keeps: "connect_keeps w"
  shows "\<exists>w'. peer_register e a w = Some w' \<and> reg_wf w' \<and> registered w' = (registered w)(i \<mapsto> a) \<and>
    (\<forall>b. b \<noteq> a \<longrightarrow> w_peers w' b = w_peers w b) \<and> (p_on_connect p = 0 \<longrightarrow> w_peers w' a = Some (p\<lparr>p_drole := i\<rparr>)) \<and>
    w_pk w' = w_pk w"
proof -
  define q where "q = (if p_on_connect p \<noteq> 0 then run_connect w (p\<lparr>p_drole := i\<rparr>) else p\<lparr>p_drole := i\<rparr>)"
  let ?ps = "(w_peers w)(a \<mapsto> q)"
  have d: "drole_at ?ps a = i"
    using keeps by (simp add: drole_at_def q_def connect_keeps_def)
  have wf': "table_wf ?ps (w_hash w)" and m: "table_map ?ps (w_hash w) = registered w"
    using table_frame [OF out] wf by (simp_all add: reg_wf_def registered_def)
  from table_insert [OF wf', of a] d m fresh obtain h' where
    "hash_get True (bind_hash ?ps (w_hash w)) a (Some peer_hashalloc_func) = Some (Some a, h')"
    "table_wf ?ps h'" "table_map ?ps h' = (registered w)(i \<mapsto> a)"
    by auto
  then show ?thesis
    using p i mem probe_wf [OF wf', of a] q_def by (simp add: peer_register_def Let_def reg_wf_def registered_def)
qed

lemma unregister_removes:
  assumes wf: "reg_wf w" and p: "w_peers w a = Some p"
    and put: "idmaker_put (e_id_block e) (e_id_garbage e) (e_id_node e) (w_mid w) (p_drole p) = Some (r, mid)"
    and keeps: "connect_keeps w"
  shows "\<exists>w'. peer_unregister e a w = Some w' \<and> reg_wf w' \<and> registered w' = (registered w)(p_drole p := None)"
proof -
  define q where "q = (if p_on_disconnect p \<noteq> 0 then run_disconnect w p else p)"
  let ?ps = "(w_peers w)(a \<mapsto> q)"
  have q: "p_drole q = p_drole p"
    using keeps by (simp add: q_def connect_keeps_def)
  then have d: "drole_at ?ps a = p_drole p"
    by (simp add: drole_at_def)
  have wf': "table_wf ?ps (w_hash w)" and m: "table_map ?ps (w_hash w) = registered w"
    using table_same_drole [of "w_peers w" a p q, OF p q] wf by (simp_all add: reg_wf_def registered_def)
  from table_remove [OF wf', of a] d m obtain h' where
    "hash_release (bind_hash ?ps (w_hash w)) a = Some (registered w (p_drole p), h')"
    "table_wf ?ps h'" "table_map ?ps h' = (registered w)(p_drole p := None)"
    by auto
  then show ?thesis
    using p put probe_wf [OF wf', of a] q_def by (simp add: peer_unregister_def Let_def reg_wf_def registered_def)
qed

lemma empty_table:
  assumes "hash_create k c = Some h"
  shows "table_wf ps h" "table_map ps h = Map.empty" "\<not> in_table h a"
proof -
  have e: "concat (replicate m []) = []" for m
    by (induction m) simp_all
  show "table_wf ps h" "table_map ps h = Map.empty" "\<not> in_table h a"
    using assms e
    by (auto simp: hash_create_def hash_create_size_def table_wf_def table_map_def in_table_def preg.hash_wf_def
        preg.abs_map_def preg.entries_def)
qed

section \<open>A concrete environment\<close>

text \<open>An environment in which every call succeeds, for the closed instances of the properties: its event
  library marks a started watcher with 1.\<close>

definition plain_ev :: libev where
  "plain_ev = \<lparr>ev_is_active = ev_active, ev_io_init = (\<lambda>x cb fd. x\<lparr>ev_active := 0, ev_cb := cb, ev_fd := fd\<rparr>),
     ev_io_start = (\<lambda>x. x\<lparr>ev_active := 1\<rparr>), ev_io_stop = (\<lambda>x. x\<lparr>ev_active := 0\<rparr>),
     ev_periodic_init = (\<lambda>x cb. x\<lparr>ev_active := 0, ev_cb := Some cb\<rparr>), ev_periodic_start = (\<lambda>x. x\<lparr>ev_active := 1\<rparr>),
     ev_periodic_stop = (\<lambda>x. x\<lparr>ev_active := 0\<rparr>)\<rparr>"

definition blank_watcher :: watcher where
  "blank_watcher = \<lparr>ev_active = 0, ev_cb = None, ev_fd = 0, ev_data = None\<rparr>"

definition plain_env :: env where
  "plain_env = \<lparr>e_now = 1000, e_clock = \<lparr>tv_sec = 10, tv_nsec = 0\<rparr>, e_ev = plain_ev, e_malloc = zero_malloc,
     e_peer_mem = Some 1, e_ibuf_mem = Some (blank_stream 0), e_fifo_mem = True, e_read_mem = Some blank_watcher,
     e_write_mem = Some blank_watcher, e_connect_mem = Some blank_watcher, e_pk_mem = Some (50, blank_stream 0),
     e_hash_mem = True, e_id_block = Some 7, e_id_garbage = 0, e_id_node = Some 8, e_mq_alloc = (\<lambda>n. True),
     e_job_mem = True, e_stack = 0, e_getfl = 2, e_setfl = 0, e_socket = 5, e_connect = (0, 0),
     e_bind = (\<lambda>su n. 0), e_lbind = 0, e_listen = 0, e_accept = (9, zero_sockunion), e_ret_garbage = IO_ERROR,
     e_open = 4, e_read = Got [], e_reads = [], e_from = zero_sockunion, e_writes = [], e_inet_addr = (\<lambda>str. 0)\<rparr>"

text \<open>A world as \<open>core_init\<close> leaves it, before the queues are created.\<close>

definition bare_world :: world where
  "bare_world = \<lparr>w_peers = Map.empty, w_pk = Map.empty, w_peer_list = [],
     w_hash = the (hash_create (peer_key Map.empty) (peer_cmp Map.empty)), w_mid = idmaker_new 100 100 99999,
     w_events = [], w_event_list = [], w_role = 3, w_mq = \<lparr>st_mq = Map.empty, st_Q = None\<rparr>, w_queues = [],
     w_jobs = 0, w_timer = server_timer_create_timer, w_closed = [], w_sent = []\<rparr>"

section \<open>Properties\<close>


lemma hash_create_Some: "\<exists>h. hash_create k c = Some h"
  by (simp add: hash_create_def hash_create_size_def)


end
