(* ===== verification/Links.thy ===== *)
theory Links
  imports World
begin

text \<open>
  The link types of \<open>misaka/link/\<close>: TCP, UDP, UNIX datagram sockets and devices. Each provides the
  functions a peer's \<open>start\<close>, \<open>read\<close> and \<open>write\<close> point to and an init function that creates the peer.
  \<open>inet_addr\<close> of the C library is a parameter of the environment. Switching a descriptor to blocking mode
  and the socket options leave no trace in the model.
\<close>

section \<open>TCP\<close>

definition tcp_connect :: "env \<Rightarrow> peer \<Rightarrow> connect_result \<times> peer" where
  "tcp_connect e p =
     (let p = (if sint (p_fd p) < 0 then p\<lparr>p_fd := e_socket e\<rparr> else p) in
      if sint (p_fd p) < 0 then (connect_error, p)
      else (fst (sockunion_connect (fst (e_connect e)) (snd (e_connect e))), p))"

definition tcp_listen :: "env \<Rightarrow> peer \<Rightarrow> connect_result \<times> peer" where
  "tcp_listen e p =
     (let p = (if sint (p_fd p) < 0 then p\<lparr>p_fd := e_socket e\<rparr> else p) in
      if sint (p_fd p) < 0 then (connect_error, p)
      else
        (case sockunion_bind (e_bind e) (p_su p) (bswap16 (sin_port (p_su p))) False of (ret, su) \<Rightarrow>
           (let p = p\<lparr>p_su := su\<rparr> in
            if sint ret < 0 then (connect_error, p)
            else if sint (e_listen e) < 0 then (connect_error, p)
            else (connect_success, p))))"

definition tcp_passive :: "peer \<Rightarrow> connect_result \<times> peer" where
  "tcp_passive p = (connect_success, p)"

definition tcp_read :: "env \<Rightarrow> peer \<Rightarrow> (io_tat \<times> peer) option" where
  "tcp_read e p = do {
     s \<leftarrow> p_ibuf p;
     (nbytes, s) \<leftarrow> stream_read_try s (p_packet_size p) (e_read e);
     let p = p\<lparr>p_ibuf := Some s\<rparr>;
     Some (if nbytes = -2 then (IO_CHECK, p)
           else if nbytes = -1 then (if p_mode p = MODE_PASSIVE then IO_PASSIVE_CLOSE else IO_CLOSE, p)
           else
             let p = p\<lparr>p_packet_size := p_packet_size p - of_int nbytes\<rparr> in
             (if p_packet_size p \<noteq> 0 then IO_PARTIAL else IO_CHECK, p))
   }"

definition peer_tcp_create :: "env \<Rightarrow> byte list option \<Rightarrow> u16 \<Rightarrow> u16 \<Rightarrow> world \<Rightarrow> ptr \<times> world" where
  "peer_tcp_create e dstip dstport srcport w =
     (case peer_new e w of
        (None, w) \<Rightarrow> (None, w)
      | (Some a, w) \<Rightarrow>
          (Some a, w\<lparr>w_peers := (w_peers w)(a := map_option (\<lambda>p. p\<lparr>
             p_su := \<lparr>sa_family = AF_INET, sin_port = bswap16 srcport, sin_addr = 0\<rparr>,
             p_dsu := (case dstip of
                 Some ip \<Rightarrow> \<lparr>sa_family = AF_INET, sin_port = bswap16 dstport, sin_addr = e_inet_addr e ip\<rparr>
               | None \<Rightarrow> \<lparr>sa_family = AF_INET, sin_port = 0, sin_addr = 0\<rparr>),
             p_type := TYPE_TCP\<rparr>) (w_peers w a))\<rparr>))"

definition with_new :: "(peer \<Rightarrow> peer) \<Rightarrow> ptr \<times> world \<Rightarrow> ptr \<times> world" where
  "with_new f r = (case r of
     (None, w) \<Rightarrow> (None, w)
   | (Some a, w) \<Rightarrow> (Some a, w\<lparr>w_peers := (w_peers w)(a := map_option f (w_peers w a))\<rparr>))"

definition tcp_connect_init :: "env \<Rightarrow> byte list option \<Rightarrow> u16 \<Rightarrow> u16 \<Rightarrow> world \<Rightarrow> ptr \<times> world" where
  "tcp_connect_init e str dstport srcport w =
     with_new (\<lambda>p. p\<lparr>p_read := Some Read_tcp, p_write := Some Write_tcp, p_start := Some Start_tcp_connect,
       p_mode := MODE_CONNECT\<rparr>) (peer_tcp_create e str dstport srcport w)"

definition tcp_listen_init :: "env \<Rightarrow> cint \<Rightarrow> world \<Rightarrow> ptr \<times> world" where
  "tcp_listen_init e srcport w =
     with_new (\<lambda>p. p\<lparr>p_read := Some Read_tcp_accept, p_write := Some Write_tcp, p_start := Some Start_tcp_listen,
       p_mode := MODE_LISTEN\<rparr>) (peer_tcp_create e None 0 (ucast srcport) w)"

definition tcp_passive_init :: "env \<Rightarrow> sockunion \<Rightarrow> cint \<Rightarrow> world \<Rightarrow> ptr \<times> world" where
  "tcp_passive_init e su fd w =
     with_new (\<lambda>p. p\<lparr>p_fd := fd, p_dsu := su, p_read := Some Read_tcp, p_write := Some Write_tcp,
       p_start := Some Start_tcp_passive, p_mode := MODE_PASSIVE, p_old := 1\<rparr>) (peer_new e w)"

text \<open>\<open>tcp_accept\<close>: \<open>ret\<close> is compared but was never assigned; its indeterminate value is an answer of the
  environment.\<close>

definition tcp_accept :: "env \<Rightarrow> addr \<Rightarrow> world \<Rightarrow> (io_tat \<times> world) option" where
  "tcp_accept e a w =
     (case sockunion_accept (fst (e_accept e), Some (snd (e_accept e))) zero_sockunion of (fd, su) \<Rightarrow>
        if sint fd < 0 then Some (IO_ERROR, w)
        else
          (case tcp_passive_init e su fd w of
             (None, w) \<Rightarrow> Some (IO_ACCEPT, w\<lparr>w_closed := fd # w_closed w\<rparr>)
           | (Some c, w) \<Rightarrow> do {
               p \<leftarrow> w_peers w a;
               q \<leftarrow> w_peers w c;
               let q = q\<lparr>p_pack := p_pack p, p_unpack := p_unpack p, p_on_connect := p_on_connect p,
                         p_on_disconnect := p_on_disconnect p, p_parser := p_parser p\<rparr>;
               if e_ret_garbage e = IO_PASSIVE_CLOSE then Some (IO_PASSIVE_CLOSE, set_peer c q w)
               else do {
                 (_, w) \<leftarrow> misaka_start e c (set_peer c (q\<lparr>p_quick := 1\<rparr>) w);
                 Some (IO_ACCEPT, w)
               }
             }))"

section \<open>Writing\<close>

type_synonym sent = "(cint \<times> sockunion option \<times> byte list) list"

text \<open>The bytes a write is given: \<open>writenum\<close> is an \<open>int\<close> and is widened again for the call.\<close>

definition out_bytes :: "stream \<Rightarrow> (int \<times> byte list) option" where
  "out_bytes s = (let writenum = ucast (stream_get_endp s - stream_get_getp s) :: cint in do {
     bs \<leftarrow> rd_seg (s_data s) (s_getp s) (scast writenum);
     Some (sint writenum, bs)
   })"

text \<open>The loop of \<open>tcp_write\<close>. \<open>count\<close> is never incremented, so only an empty fifo or an error ends it; a
  partial write neither removes the packet nor moves its cursor. One answer of the kernel is used per
  round, and running out of them is a call that does not return.\<close>

fun tcp_write_loop :: "cint \<Rightarrow> int list \<Rightarrow> int \<Rightarrow> addr \<Rightarrow> stream_fifo \<Rightarrow> packets \<Rightarrow> sent \<Rightarrow>
  (int \<times> stream_fifo \<times> packets \<times> sent) option" where
  "tcp_write_loop fd [] pcount s obuf pk out = None"
| "tcp_write_loop fd (num # ws) pcount s obuf pk out = do {
     q \<leftarrow> pk s;
     (writenum, bs) \<leftarrow> out_bytes (pk_s q);
     if num < 0 then Some (0, obuf, pk, out)
     else do {
       let out = out @ [(fd, None, take (nat num) bs)];
       (pcount, obuf, pk) \<leftarrow>
         (if num \<noteq> writenum then Some (pcount, obuf, pk)
          else do { (obuf, pk) \<leftarrow> misaka_packet_delete obuf pk; Some (pcount + 1, obuf, pk) });
       case misaka_write_packet obuf of
         Some s \<Rightarrow> tcp_write_loop fd ws pcount s obuf pk out
       | None \<Rightarrow> Some (pcount, obuf, pk, out)
     }
   }"

text \<open>The loop of the datagram and device links: the answer of the kernel is ignored, every packet is
  removed after one call, and at most \<open>MISAKA_WRITE_PACKET_MAX\<close> of them are sent; \<open>n\<close> is what is left.\<close>

abbreviation (input) MISAKA_WRITE_PACKET_MAX :: nat where "MISAKA_WRITE_PACKET_MAX \<equiv> 30"

fun send_loop :: "cint \<Rightarrow> (stream \<Rightarrow> sockunion option) \<Rightarrow> nat \<Rightarrow> int \<Rightarrow> addr \<Rightarrow> stream_fifo \<Rightarrow> packets \<Rightarrow> sent \<Rightarrow>
  (int \<times> stream_fifo \<times> packets \<times> sent) option" where
  "send_loop fd dst 0 cnt s obuf pk out = None"
| "send_loop fd dst (Suc n) cnt s obuf pk out = do {
     q \<leftarrow> pk s;
     (writenum, bs) \<leftarrow> out_bytes (pk_s q);
     let out = out @ [(fd, dst (pk_s q), bs)];
     (obuf, pk) \<leftarrow> misaka_packet_delete obuf pk;
     (case misaka_write_packet obuf of
        Some s \<Rightarrow> (if 0 < n then send_loop fd dst n (cnt + 1) s obuf pk out else Some (cnt + 1, obuf, pk, out))
      | None \<Rightarrow> Some (cnt + 1, obuf, pk, out))
   }"

text \<open>What the write functions share: the first packet, and the state afterwards.\<close>

definition write_with ::
  "(cint \<Rightarrow> addr \<Rightarrow> stream_fifo \<Rightarrow> packets \<Rightarrow> sent \<Rightarrow> (int \<times> stream_fifo \<times> packets \<times> sent) option) \<Rightarrow>
     addr \<Rightarrow> world \<Rightarrow> (int \<times> world) option" where
  "write_with loop a w = do {
     p \<leftarrow> w_peers w a;
     obuf \<leftarrow> p_obuf p;
     case misaka_write_packet obuf of
       None \<Rightarrow> Some (0, w)
     | Some s \<Rightarrow> do {
         (n, obuf, pk, out) \<leftarrow> loop (p_fd p) s obuf (w_pk w) (w_sent w);
         Some (n, set_peer a (p\<lparr>p_obuf := Some obuf\<rparr>) (w\<lparr>w_pk := pk, w_sent := out\<rparr>))
       }
   }"

definition tcp_write :: "env \<Rightarrow> addr \<Rightarrow> world \<Rightarrow> (int \<times> world) option" where
  "tcp_write e = write_with (\<lambda>fd. tcp_write_loop fd (e_writes e) 0)"

definition udp_write :: "addr \<Rightarrow> world \<Rightarrow> (int \<times> world) option" where
  "udp_write = write_with (\<lambda>fd. send_loop fd (\<lambda>s. Some (s_dsu s)) MISAKA_WRITE_PACKET_MAX 0)"

definition ludp_write :: "addr \<Rightarrow> world \<Rightarrow> (int \<times> world) option" where
  "ludp_write a w = map_option (\<lambda>(n, w). (0, w)) (write_with (\<lambda>fd. send_loop fd (\<lambda>s. None) MISAKA_WRITE_PACKET_MAX 0) a w)"

definition sdio_write :: "addr \<Rightarrow> world \<Rightarrow> (int \<times> world) option" where
  "sdio_write a w = map_option (\<lambda>(n, w). (0, w)) (write_with (\<lambda>fd. send_loop fd (\<lambda>s. None) MISAKA_WRITE_PACKET_MAX 0) a w)"

section \<open>UDP\<close>

definition peer_udp_create :: "env \<Rightarrow> byte list \<Rightarrow> u16 \<Rightarrow> u16 \<Rightarrow> world \<Rightarrow> ptr \<times> world" where
  "peer_udp_create e dstip dstport srcport w =
     with_new (\<lambda>p. p\<lparr>
         p_su := \<lparr>sa_family = AF_INET, sin_port = bswap16 srcport, sin_addr = 0\<rparr>,
         p_dsu := \<lparr>sa_family = AF_INET, sin_port = bswap16 dstport, sin_addr = e_inet_addr e dstip\<rparr>,
         p_type := TYPE_UDP, p_mode := MODE_CONNECT\<rparr>) (peer_new e w)"

text \<open>The descriptor is closed when \<open>bind\<close> fails, and the field keeps it.\<close>

definition udp_connect :: "env \<Rightarrow> peer \<Rightarrow> connect_result \<times> peer \<times> cint list" where
  "udp_connect e p =
     (let p = p\<lparr>p_fd := e_socket e\<rparr> in
      if sint (p_fd p) < 0 then (connect_error, p, [])
      else if sint (e_bind e (p_su p) 16) < 0 then (connect_error, p, [p_fd p])
      else (connect_success, p, []))"

definition udp_read :: "env \<Rightarrow> peer \<Rightarrow> (io_tat \<times> peer) option" where
  "udp_read e p = do {
     let p = p\<lparr>p_packet_size := 256\<rparr>;
     s \<leftarrow> p_ibuf p;
     (nbytes, s) \<leftarrow> stream_recvfrom s (p_packet_size p) (e_read e);
     let s = s\<lparr>s_su := (if 0 \<le> nbytes then e_from e else p_dsu p)\<rparr>;
     Some (IO_CHECK, p\<lparr>p_ibuf := Some s\<rparr>)
   }"

definition udp_init :: "env \<Rightarrow> byte list \<Rightarrow> u16 \<Rightarrow> u16 \<Rightarrow> world \<Rightarrow> ptr \<times> world" where
  "udp_init e str dstport srcport w =
     with_new (\<lambda>p. p\<lparr>p_read := Some Read_udp, p_write := Some Write_udp, p_start := Some Start_udp_connect\<rparr>)
       (peer_udp_create e str dstport srcport w)"

section \<open>UNIX datagram sockets\<close>

definition un_addr :: "byte list \<Rightarrow> sockaddr_un option" where
  "un_addr str = map_option (\<lambda>bs. \<lparr>sun_family = AF_UNIX, sun_path = bs\<rparr>) (snprintf_s (replicate 108 0) 108 str)"

definition peer_ludp_create :: "env \<Rightarrow> byte list \<Rightarrow> byte list \<Rightarrow> world \<Rightarrow> (ptr \<times> world) option" where
  "peer_ludp_create e spath dpath w =
     (case peer_new e w of
        (None, w) \<Rightarrow> Some (None, w)
      | r \<Rightarrow> do {
          l \<leftarrow> un_addr spath;
          d \<leftarrow> un_addr dpath;
          Some (with_new (\<lambda>p. p\<lparr>p_lsu := l, p_ldsu := d, p_type := TYPE_LUDP, p_mode := MODE_CONNECT\<rparr>) r)
        })"

definition ludp_connect :: "env \<Rightarrow> peer \<Rightarrow> connect_result \<times> peer \<times> cint list" where
  "ludp_connect e p =
     (let p = p\<lparr>p_fd := e_socket e\<rparr> in
      if sint (p_fd p) < 0 then (connect_error, p, [])
      else if sint (e_lbind e) < 0 then (connect_error, p, [p_fd p])
      else (connect_success, p, []))"

definition ludp_read :: "env \<Rightarrow> peer \<Rightarrow> (io_tat \<times> peer) option" where
  "ludp_read e p = do {
     s \<leftarrow> p_ibuf p;
     (nbytes, s) \<leftarrow> stream_recvfrom s MISAKA_MAX_PACKET_SIZE (e_read e);
     Some (IO_CHECK, p\<lparr>p_ibuf := Some s, p_packet_size := 0\<rparr>)
   }"

definition ludp_init :: "env \<Rightarrow> byte list \<Rightarrow> byte list \<Rightarrow> world \<Rightarrow> (ptr \<times> world) option" where
  "ludp_init e srcip dstip w =
     map_option (with_new (\<lambda>p. p\<lparr>p_read := Some Read_ludp, p_write := Some Write_ludp, p_start := Some Start_ludp_connect\<rparr>))
       (peer_ludp_create e srcip dstip w)"

section \<open>Devices\<close>

definition sdio_connect :: "env \<Rightarrow> peer \<Rightarrow> connect_result \<times> peer" where
  "sdio_connect e p =
     (let p = p\<lparr>p_fd := e_open e\<rparr> in (if sint (p_fd p) < 0 then connect_error else connect_success, p))"

definition peer_sdio_create :: "env \<Rightarrow> byte list \<Rightarrow> world \<Rightarrow> (ptr \<times> world) option" where
  "peer_sdio_create e str w =
     (case peer_new e w of
        (None, w) \<Rightarrow> Some (None, w)
      | r \<Rightarrow> do {
          bs \<leftarrow> snprintf_s (replicate MISAKA_PATH_SIZE 0) MISAKA_PATH_SIZE str;
          Some (with_new (\<lambda>p. p\<lparr>p_path := bs, p_type := TYPE_SDIO, p_mode := MODE_CONNECT, p_status := TAT_IDLE\<rparr>) r)
        })"

definition sdio_read :: "env \<Rightarrow> peer \<Rightarrow> (io_tat \<times> peer) option" where
  "sdio_read e p = do {
     let p = (if p_packet_size p = 0 then p\<lparr>p_packet_size := 256\<rparr> else p);
     s \<leftarrow> p_ibuf p;
     (nbytes, s, _) \<leftarrow> stream_read s (p_packet_size p) (e_reads e);
     Some (IO_CHECK, p\<lparr>p_ibuf := Some s\<rparr>)
   }"

definition sdio_init :: "env \<Rightarrow> byte list \<Rightarrow> world \<Rightarrow> (ptr \<times> world) option" where
  "sdio_init e str w =
     map_option (with_new (\<lambda>p. p\<lparr>p_read := Some Read_sdio, p_write := Some Write_sdio, p_start := Some Start_sdio_connect\<rparr>))
       (peer_sdio_create e str w)"

section \<open>Calls through the callbacks\<close>

definition call_start :: "env \<Rightarrow> start_fn \<Rightarrow> peer \<Rightarrow> connect_result \<times> peer \<times> cint list" where
  "call_start e f p =
     (case f of
        Start_tcp_connect \<Rightarrow> (case tcp_connect e p of (r, p) \<Rightarrow> (r, p, []))
      | Start_tcp_listen \<Rightarrow> (case tcp_listen e p of (r, p) \<Rightarrow> (r, p, []))
      | Start_tcp_passive \<Rightarrow> (case tcp_passive p of (r, p) \<Rightarrow> (r, p, []))
      | Start_udp_connect \<Rightarrow> udp_connect e p
      | Start_ludp_connect \<Rightarrow> ludp_connect e p
      | Start_sdio_connect \<Rightarrow> (case sdio_connect e p of (r, p) \<Rightarrow> (r, p, [])))"

definition call_read :: "env \<Rightarrow> read_fn \<Rightarrow> addr \<Rightarrow> world \<Rightarrow> (io_tat \<times> world) option" where
  "call_read e f a w =
     (let on_peer = (\<lambda>g. do { p \<leftarrow> w_peers w a; (r, p) \<leftarrow> g e p; Some (r, set_peer a p w) }) in
      case f of
        Read_tcp \<Rightarrow> on_peer tcp_read
      | Read_tcp_accept \<Rightarrow> tcp_accept e a w
      | Read_udp \<Rightarrow> on_peer udp_read
      | Read_ludp \<Rightarrow> on_peer ludp_read
      | Read_sdio \<Rightarrow> on_peer sdio_read)"

definition call_write :: "env \<Rightarrow> write_fn \<Rightarrow> addr \<Rightarrow> world \<Rightarrow> (int \<times> world) option" where
  "call_write e f a w =
     (case f of Write_tcp \<Rightarrow> tcp_write e a w | Write_udp \<Rightarrow> udp_write a w | Write_ludp \<Rightarrow> ludp_write a w | Write_sdio \<Rightarrow> sdio_write a w)"

definition call_unpack :: "unpack_fn \<Rightarrow> stream \<Rightarrow> peer \<Rightarrow> (io_tat \<times> stream \<times> peer) option" where
  "call_unpack f s p =
     (case f of Unpack_default \<Rightarrow> Some (peer_default_unpack s p, s, p) | Unpack_normal \<Rightarrow> normal_parser_unpack s p)"

definition call_pack :: "pack_fn \<Rightarrow> stream \<Rightarrow> peer \<Rightarrow> (io_tat \<times> stream) option" where
  "call_pack f s p =
     (case f of Pack_default \<Rightarrow> Some (peer_default_pack s p, s) | Pack_normal \<Rightarrow> normal_parser_pack s p)"

section \<open>What the loops send\<close>

text \<open>A packet that can be sent: a sane stream whose unread bytes an \<open>int\<close> can count.\<close>

definition sendable :: "packets \<Rightarrow> addr \<Rightarrow> bool" where
  "sendable pk a \<longleftrightarrow> (\<exists>q. pk a = Some q \<and> stream_wf (pk_s q) \<and> length (contents (pk_s q)) \<le> 2147483647)"

definition payload :: "packets \<Rightarrow> addr \<Rightarrow> byte list" where
  "payload pk a = (case pk a of Some q \<Rightarrow> contents (pk_s q) | None \<Rightarrow> [])"

lemma out_bytes_contents:
  assumes "stream_wf s" "length (contents s) \<le> 2147483647"
  shows "out_bytes s = Some (int (length (contents s)), contents s)"
proof -
  have n: "sint (ucast (s_endp s - s_getp s) :: cint) = int (length (contents s))"
    using wf_length_word [OF assms(1)] assms(2) by simp
  have u: "unat (s_endp s - s_getp s) = length (contents s)"
    using unat_READABLE [OF assms(1)] by (simp add: STREAM_READABLE_def)
  then have "scast (ucast (s_endp s - s_getp s) :: cint) = s_endp s - s_getp s"
    using assms(2) by (intro scast_ucast_small) simp
  moreover have "rd_seg (s_data s) (s_getp s) (s_endp s - s_getp s) = Some (contents s)"
    by (rule contents_prefix [OF assms(1), of _ "[]"]) (simp_all add: u)
  ultimately show ?thesis
    using n by (simp add: out_bytes_def Let_def stream_get_endp_def stream_get_getp_def)
qed

lemma sendable_out:
  "sendable pk a \<Longrightarrow> \<exists>q. pk a = Some q \<and> out_bytes (pk_s q) = Some (int (length (payload pk a)), payload pk a)"
  by (auto simp: sendable_def payload_def out_bytes_contents)

lemma rep_distinct: "fifo_rep obuf pk as \<Longrightarrow> distinct as"
  using path_distinct by (simp add: fifo_rep_def) blast

lemma packet_delete_rep:
  assumes "fifo_rep obuf pk (a # as)"
  shows "\<exists>obuf'. misaka_packet_delete obuf pk = Some (obuf', pk(a := None)) \<and> fifo_rep obuf' (pk(a := None)) as"
proof -
  from fifo_pop_rep [OF assms] obtain obuf' where f: "stream_fifo_pop obuf pk = Some (Some a, obuf')" "fifo_rep obuf' pk as"
    by auto
  have "a \<notin> set as"
    using rep_distinct [OF assms] by simp
  then have "pk_nxt (pk(a := None)) b = pk_nxt pk b" if "b \<in> set as" for b
    using that by (auto simp: pk_nxt_def)
  from path_cong [OF this] f(2) have "fifo_rep obuf' (pk(a := None)) as"
    by (simp add: fifo_rep_def)
  then show ?thesis
    using f(1) by (simp add: misaka_packet_delete_def stream_free_def)
qed

lemma rep_head: "fifo_rep obuf pk as \<Longrightarrow> misaka_write_packet obuf = (case as of [] \<Rightarrow> None | a # _ \<Rightarrow> Some a)"
  by (cases as) (auto simp: fifo_rep_def misaka_write_packet_def stream_fifo_head_def split: option.split)

definition freed :: "addr list \<Rightarrow> packets \<Rightarrow> packets" where
  "freed as pk = (\<lambda>a. if a \<in> set as then None else pk a)"

lemma freed_simps [simp]: "freed [] pk = pk" "freed (a # as) pk = freed as (pk(a := None))"
  by (auto simp: freed_def)

lemma tail_sendable:
  assumes "fifo_rep obuf pk (a # as)" "\<forall>b\<in>set (a # as). sendable pk b"
  shows "\<forall>b\<in>set as. sendable (pk(a := None)) b" "map (payload (pk(a := None))) as = map (payload pk) as"
proof -
  have "a \<notin> set as"
    using rep_distinct [OF assms(1)] by simp
  then show "\<forall>b\<in>set as. sendable (pk(a := None)) b" "map (payload (pk(a := None))) as = map (payload pk) as"
    using assms(2) by (auto simp: sendable_def payload_def)
qed

lemma tcp_loop_step:
  assumes "fifo_rep obuf pk (a # as)" "sendable pk a"
  obtains obuf' where "fifo_rep obuf' (pk(a := None)) as"
    "tcp_write_loop fd (int (length (payload pk a)) # ws) n a obuf pk out =
       (case as of
          [] \<Rightarrow> Some (n + 1, obuf', pk(a := None), out @ [(fd, None, payload pk a)])
        | b # _ \<Rightarrow> tcp_write_loop fd ws (n + 1) b obuf' (pk(a := None)) (out @ [(fd, None, payload pk a)]))"
proof -
  from sendable_out [OF assms(2)] obtain q where
    q: "pk a = Some q" "out_bytes (pk_s q) = Some (int (length (payload pk a)), payload pk a)"
    by auto
  from packet_delete_rep [OF assms(1)] obtain obuf1 where
    o: "misaka_packet_delete obuf pk = Some (obuf1, pk(a := None))" "fifo_rep obuf1 (pk(a := None)) as"
    by blast
  show thesis
    by (rule that [OF o(2)]) (use q o rep_head [OF o(2)] in \<open>cases as; simp\<close>)
qed

declare tcp_write_loop.simps [simp del]

lemma tcp_loop_complete:
  assumes "fifo_rep obuf pk (a # as)" "\<forall>b\<in>set (a # as). sendable pk b"
  shows "\<exists>obuf'. tcp_write_loop fd (map (\<lambda>b. int (length (payload pk b))) (a # as)) n a obuf pk out =
      Some (n + int (length (a # as)), obuf', freed (a # as) pk, out @ map (\<lambda>b. (fd, None, payload pk b)) (a # as)) \<and>
    fifo_rep obuf' (freed (a # as) pk) []"
  using assms
proof (induction as arbitrary: a obuf pk n out)
  case Nil
  then have "sendable pk a"
    by simp
  from tcp_loop_step [OF Nil.prems(1) this] show ?case
    by (metis (no_types, lifting) freed_simps list.case(1) list.map list.size(3,4) int_ops(2) One_nat_def add_0)
next
  case (Cons b as)
  have s: "sendable pk a"
    using Cons.prems(2) by simp
  note t = tail_sendable [OF Cons.prems]
  from tcp_loop_step [OF Cons.prems(1) s, of fd "map (\<lambda>b. int (length (payload pk b))) (b # as)" n out] obtain obuf1 where
    o: "fifo_rep obuf1 (pk(a := None)) (b # as)"
      "tcp_write_loop fd (map (\<lambda>b. int (length (payload pk b))) (a # b # as)) n a obuf pk out =
        tcp_write_loop fd (map (\<lambda>b. int (length (payload pk b))) (b # as)) (n + 1) b obuf1 (pk(a := None)) (out @ [(fd, None, payload pk a)])"
    by auto
  have m: "map (\<lambda>c. int (length (payload (pk(a := None)) c))) (b # as) = map (\<lambda>c. int (length (payload pk c))) (b # as)"
    "map (\<lambda>c. (fd, None, payload (pk(a := None)) c)) (b # as) = map (\<lambda>c. (fd, None, payload pk c)) (b # as)"
    using t(2) by auto
  from Cons.IH [OF o(1) t(1), of "n + 1" "out @ [(fd, None, payload pk a)]", unfolded m] show ?case
    unfolding o(2) by (simp add: algebra_simps del: fun_upd_apply)
qed

lemma send_loop_takes:
  assumes "fifo_rep obuf pk (a # as)" "\<forall>b\<in>set (a # as). sendable pk b" "0 < n"
  shows "\<exists>obuf'. send_loop fd dst n k a obuf pk out =
      Some (k + int (min n (length (a # as))), obuf', freed (take n (a # as)) pk,
        out @ map (\<lambda>b. (fd, dst (pk_s (the (pk b))), payload pk b)) (take n (a # as))) \<and>
    fifo_rep obuf' (freed (take n (a # as)) pk) (drop n (a # as))"
  using assms
proof (induction n arbitrary: a as obuf pk k out)
  case (Suc n)
  have "sendable pk a"
    using Suc.prems(2) by simp
  from sendable_out [OF this] obtain q where
    q: "pk a = Some q" "out_bytes (pk_s q) = Some (int (length (payload pk a)), payload pk a)"
    by auto
  from packet_delete_rep [OF Suc.prems(1)] obtain obuf1 where
    o: "misaka_packet_delete obuf pk = Some (obuf1, pk(a := None))" "fifo_rep obuf1 (pk(a := None)) as"
    by blast
  note t = tail_sendable [OF Suc.prems(1,2)]
  show ?case
  proof (cases "as = [] \<or> n = 0")
    case True
    then show ?thesis
      using q o by (auto simp: rep_head split: list.split simp del: fun_upd_apply)
  next
    case False
    then obtain b bs where as: "as = b # bs" and n: "0 < n"
      by (cases as) auto
    have "a \<notin> set as"
      using rep_distinct [OF Suc.prems(1)] by simp
    then have m: "map (\<lambda>c. (fd, dst (pk_s (the ((pk(a := None)) c))), payload (pk(a := None)) c)) (take n as) =
        map (\<lambda>c. (fd, dst (pk_s (the (pk c))), payload pk c)) (take n as)"
      by (intro map_cong) (auto simp: payload_def dest: in_set_takeD)
    have "send_loop fd dst (Suc n) k a obuf pk out =
        send_loop fd dst n (k + 1) b obuf1 (pk(a := None)) (out @ [(fd, dst (pk_s q), payload pk a)])"
      using q o as n by (simp add: rep_head)
    then show ?thesis
      using Suc.IH [of obuf1 "pk(a := None)" b bs "k + 1" "out @ [(fd, dst (pk_s q), payload pk a)]"] o(2) t(1) n m q(1)
      unfolding as by (simp add: add.assoc del: fun_upd_apply send_loop.simps)
  qed
qed simp

declare send_loop.simps [simp del]

section \<open>Reading a packet in pieces\<close>

text \<open>Successive runs of \<open>tcp_read\<close> on the pieces the kernel delivers, up to the first that asks for the
  packet to be checked.\<close>

fun tcp_reads :: "env \<Rightarrow> byte list list \<Rightarrow> peer \<Rightarrow> (io_tat \<times> peer) option" where
  "tcp_reads e [] p = Some (IO_PARTIAL, p)"
| "tcp_reads e (bs # bss) p = do {
     (r, p) \<leftarrow> tcp_read (e\<lparr>e_read := Got bs\<rparr>) p;
     (if r = IO_PARTIAL then tcp_reads e bss p else if bss = [] then Some (r, p) else None)
   }"

lemma packet_size_left:
  assumes "n \<le> unat (k :: u64)"
  shows "unat (k - of_nat n) = unat k - n"
proof -
  have n: "unat (of_nat n :: u64) = n"
    using assms unat_size_bound [of k] by simp
  then show ?thesis
    using assms by (subst unat_sub) (simp_all add: word_le_nat_alt)
qed

lemma tcp_read_piece:
  assumes "p_ibuf p = Some s" "stream_wf s" "unat (p_packet_size p) \<le> room s" "length bs \<le> unat (p_packet_size p)"
  shows "tcp_read (e\<lparr>e_read := Got bs\<rparr>) p =
    Some (if length bs = unat (p_packet_size p) then IO_CHECK else IO_PARTIAL,
      p\<lparr>p_ibuf := Some (app bs s), p_packet_size := p_packet_size p - of_nat (length bs)\<rparr>)"
proof -
  have "p_packet_size p - of_nat (length bs) = 0 \<longleftrightarrow> length bs = unat (p_packet_size p)"
    using packet_size_left [OF assms(4)] assms(4) by (metis diff_is_0_eq le_antisym order_refl unsigned_eq_0_iff)
  then show ?thesis
    using assms by (auto simp: tcp_read_def stream_read_try_eq)
qed

lemma tcp_reads_assemble:
  assumes "p_ibuf p = Some s" "stream_wf s" "unat (p_packet_size p) \<le> room s"
    and "\<forall>bs\<in>set bss. bs \<noteq> []" "bss \<noteq> []" "length (concat bss) = unat (p_packet_size p)"
  shows "tcp_reads e bss p = Some (IO_CHECK, p\<lparr>p_ibuf := Some (app (concat bss) s), p_packet_size := 0\<rparr>)"
  using assms
proof (induction bss arbitrary: p s)
  case Nil
  from Nil.prems(5) show ?case
    by (rule notE) (rule refl)
next
  case (Cons bs bss)
  have l: "length bs \<le> unat (p_packet_size p)"
    using Cons.prems(6) by simp
  note r = tcp_read_piece [OF Cons.prems(1-3) l, of e]
  let ?p = "p\<lparr>p_ibuf := Some (app bs s), p_packet_size := p_packet_size p - of_nat (length bs)\<rparr>"
  show ?case
  proof (cases "bss = []")
    case True
    then show ?thesis
      using r Cons.prems(6) packet_size_left [OF l] by (simp add: unsigned_eq_0_iff)
  next
    case False
    have "0 < length (concat bss)"
      using False Cons.prems(4) by (cases bss) auto
    then have ne: "length bs \<noteq> unat (p_packet_size p)"
      using Cons.prems(6) by (simp only: concat.simps length_append)
    have "length bs \<le> room s"
      using l Cons.prems(3) by simp
    then have s: "stream_wf (app bs s)" "room (app bs s) = room s - length bs"
      using Cons.prems(2) by (simp_all add: app_wf room_app)
    have "tcp_reads e bss ?p = Some (IO_CHECK, ?p\<lparr>p_ibuf := Some (app (concat bss) (app bs s)), p_packet_size := 0\<rparr>)"
      by (rule Cons.IH) (use Cons.prems s False packet_size_left [OF l] in auto)
    moreover have "app (concat bss) (app bs s) = app (concat (bs # bss)) s"
      using Cons.prems(2,3,6) by (simp add: app_append)
    ultimately show ?thesis
      using r ne by simp
  qed
qed

section \<open>Properties\<close>


definition greeting :: packet where
  "greeting = \<lparr>pk_next = None, pk_s = app [104, 105, 33] (blank_stream 8)\<rparr>"

definition greeter :: peer where
  "greeter = zero_peer\<lparr>p_fd := 6, p_obuf := Some \<lparr>f_count = 1, f_head = Some 40, f_tail = Some 40\<rparr>\<rparr>"

lemma greeting_facts:
  "sendable [40 \<mapsto> greeting] 40" "payload [40 \<mapsto> greeting] 40 = [104, 105, 33]"
  "fifo_rep \<lparr>f_count = 1, f_head = Some 40, f_tail = Some 40\<rparr> [40 \<mapsto> greeting] [40]"
  using blank_room [of 8] app_wf [OF blank_stream_wf, of 8 "[104, 105, 33]"] contents_app [OF blank_stream_wf, of 8 "[104, 105, 33]"]
  by (simp_all add: sendable_def payload_def greeting_def fifo_rep_def pk_nxt_def)


text \<open>C32: A partial write corrupts the byte stream. When the kernel takes only the first bytes of a packet, the
  next write starts at the beginning of the packet again, so the receiver gets these bytes twice.\<close>

theorem tcp_partial_write_resends:
  assumes "w_peers w a = Some p" "p_obuf p = Some obuf" "fifo_rep obuf (w_pk w) [b]" "sendable (w_pk w) b"
    and "k < length (payload (w_pk w) b)" "e_writes e = [int k, int (length (payload (w_pk w) b))]"
  shows "\<exists>w'. tcp_write e a w = Some (1, w') \<and>
    w_sent w' = w_sent w @ [(p_fd p, None, take k (payload (w_pk w) b)), (p_fd p, None, payload (w_pk w) b)]"
proof -
  from sendable_out [OF assms(4)] obtain q where
    q: "w_pk w b = Some q" "out_bytes (pk_s q) = Some (int (length (payload (w_pk w) b)), payload (w_pk w) b)"
    by auto
  have h: "misaka_write_packet obuf = Some b"
    using rep_head [OF assms(3)] by simp
  have 1: "tcp_write_loop (p_fd p) (e_writes e) 0 b obuf (w_pk w) (w_sent w) =
      tcp_write_loop (p_fd p) [int (length (payload (w_pk w) b))] 0 b obuf (w_pk w)
        (w_sent w @ [(p_fd p, None, take k (payload (w_pk w) b))])"
    unfolding assms(6) using q h assms(5) by (subst tcp_write_loop.simps(2)) simp
  from tcp_loop_complete [of obuf "w_pk w" b "[]" "p_fd p" 0 "w_sent w @ [(p_fd p, None, take k (payload (w_pk w) b))]"]
  show ?thesis
    using assms(1-4) h by (auto simp: tcp_write_def write_with_def set_peer_def 1 simp del: fun_upd_apply)
qed

theorem tcp_partial_write_resends_witness:
  "\<exists>w'. tcp_write (plain_env\<lparr>e_writes := [1, 3]\<rparr>) 1 ((set_peer 1 greeter bare_world)\<lparr>w_pk := [40 \<mapsto> greeting]\<rparr>) = Some (1, w') \<and>
     w_sent w' = [(6, None, [104]), (6, None, [104, 105, 33])]"
  using tcp_partial_write_resends [of "(set_peer 1 greeter bare_world)\<lparr>w_pk := [40 \<mapsto> greeting]\<rparr>" 1 greeter
      "\<lparr>f_count = 1, f_head = Some 40, f_tail = Some 40\<rparr>" 40 1 "plain_env\<lparr>e_writes := [1, 3]\<rparr>"] greeting_facts
  by (auto simp: set_peer_def bare_world_def greeter_def)

text \<open>C30: A datagram or device link sends at most \<open>MISAKA_WRITE_PACKET_MAX\<close> packets per call. UDP hands over the first
  30 packets of the fifo, in order and with the destination each carries, removes exactly these and reports
  their number.\<close>

theorem udp_write_bounded:
  assumes "w_peers w a = Some p" "p_obuf p = Some obuf" "fifo_rep obuf (w_pk w) as" "\<forall>b\<in>set as. sendable (w_pk w) b"
  shows "\<exists>obuf' w'. udp_write a w = Some (int (min 30 (length as)), w') \<and>
    w_peers w' = (w_peers w)(a \<mapsto> p\<lparr>p_obuf := Some obuf'\<rparr>) \<and> fifo_rep obuf' (w_pk w') (drop 30 as) \<and>
    w_pk w' = freed (take 30 as) (w_pk w) \<and>
    w_sent w' = w_sent w @ map (\<lambda>b. (p_fd p, Some (s_dsu (pk_s (the (w_pk w b)))), payload (w_pk w) b)) (take 30 as)"
proof (cases as)
  case Nil
  then have "w_peers w = (w_peers w)(a \<mapsto> p\<lparr>p_obuf := Some obuf\<rparr>)"
    using assms(1,2) by (auto simp: fun_eq_iff)
  then show ?thesis
    using Nil assms by (auto simp: udp_write_def write_with_def rep_head simp del: fun_upd_apply)
next
  case (Cons b bs)
  from send_loop_takes [of obuf "w_pk w" b bs 30 "p_fd p" "\<lambda>s. Some (s_dsu s)" 0 "w_sent w"] assms Cons obtain obuf' where
    "send_loop (p_fd p) (\<lambda>s. Some (s_dsu s)) 30 0 b obuf (w_pk w) (w_sent w) =
      Some (int (min 30 (length as)), obuf', freed (take 30 as) (w_pk w),
        w_sent w @ map (\<lambda>b. (p_fd p, Some (s_dsu (pk_s (the (w_pk w b)))), payload (w_pk w) b)) (take 30 as))"
    "fifo_rep obuf' (freed (take 30 as) (w_pk w)) (drop 30 as)"
    by auto
  then show ?thesis
    using assms Cons rep_head [OF assms(3)] by (auto simp: udp_write_def write_with_def set_peer_def simp del: fun_upd_apply)
qed

theorem udp_write_bounded_witness:
  "\<exists>w'. udp_write 1 ((set_peer 1 greeter bare_world)\<lparr>w_pk := [40 \<mapsto> greeting]\<rparr>) = Some (1, w') \<and>
     w_sent w' = [(6, Some zero_sockunion, [104, 105, 33])]"
proof -
  have "s_dsu (pk_s greeting) = zero_sockunion"
    by (simp add: greeting_def app_def blank_stream_def)
  then show ?thesis
    using udp_write_bounded [of "(set_peer 1 greeter bare_world)\<lparr>w_pk := [40 \<mapsto> greeting]\<rparr>" 1 greeter
        "\<lparr>f_count = 1, f_head = Some 40, f_tail = Some 40\<rparr>" "[40]"] greeting_facts
    by (auto simp: set_peer_def bare_world_def greeter_def)
qed

text \<open>C27: \<open>tcp_read\<close> assembles a packet. However the kernel cuts the requested bytes into non-empty pieces, every read
  but the last reports a partial packet, the last one asks for the check, and the buffer has gained exactly
  the concatenation of the pieces.\<close>

theorem tcp_read_assembles:
  assumes "p_ibuf p = Some s" "stream_wf s" "unat (p_packet_size p) \<le> room s"
    and "\<forall>bs\<in>set bss. bs \<noteq> []" "bss \<noteq> []" "length (concat bss) = unat (p_packet_size p)"
  shows "\<exists>s'. tcp_reads e bss p = Some (IO_CHECK, p\<lparr>p_ibuf := Some s', p_packet_size := 0\<rparr>) \<and>
    stream_wf s' \<and> contents s' = contents s @ concat bss"
  using tcp_reads_assemble [OF assms, of e] assms
  by (intro exI [of _ "app (concat bss) s"]) (simp add: app_wf contents_app)

theorem tcp_read_assembles_witness:
  "\<exists>s'. tcp_reads plain_env [[1, 2], [3], [4, 5]] (zero_peer\<lparr>p_ibuf := Some (blank_stream 8), p_packet_size := 5\<rparr>) =
       Some (IO_CHECK, zero_peer\<lparr>p_ibuf := Some s', p_packet_size := 0\<rparr>) \<and> contents s' = [1, 2, 3, 4, 5]"
  using tcp_read_assembles [of "zero_peer\<lparr>p_ibuf := Some (blank_stream 8), p_packet_size := 5\<rparr>" "blank_stream 8"
      "[[1, 2], [3], [4, 5]]" plain_env] blank_room [of 8]
  by (auto simp: blank_stream_wf zero_peer_def)

text \<open>The end of a TCP connection is not noticed. When the peer has closed it, \<open>read\<close> returns 0, and \<open>tcp_read\<close>
  reports a partial packet and changes nothing, however often it is called.\<close>

theorem tcp_eof_unnoticed:
  assumes "p_ibuf p = Some s" "stream_wf s" "unat (p_packet_size p) \<le> room s" "p_packet_size p \<noteq> 0"
  shows "tcp_reads e (replicate n []) p = Some (IO_PARTIAL, p)"
proof -
  have "unat (p_packet_size p) \<noteq> 0"
    using assms(4) by (simp add: unsigned_eq_0_iff)
  then have "tcp_read (e\<lparr>e_read := Got []\<rparr>) p = Some (IO_PARTIAL, p)"
    using tcp_read_piece [OF assms(1-3), of "[]" e] assms(1) by simp
  then show ?thesis
    by (induction n) simp_all
qed

theorem tcp_eof_unnoticed_witness:
  "tcp_reads plain_env (replicate 1000 []) (zero_peer\<lparr>p_ibuf := Some (blank_stream 8), p_packet_size := 5\<rparr>) =
     Some (IO_PARTIAL, zero_peer\<lparr>p_ibuf := Some (blank_stream 8), p_packet_size := 5\<rparr>)"
  using blank_room [of 8] by (intro tcp_eof_unnoticed [of _ "blank_stream 8"]) (simp_all add: blank_stream_wf)

end
