(* ===== verification/Sched.thy ===== *)
theory Sched
  imports Mq
begin

text \<open>
  The scheduling of the task queues: \<open>misaka_packet_task_route\<close> and \<open>worker\<close> of
  \<open>misaka/lib/core.c\<close> running concurrently over the message queues.

  A pool thread runs \<open>worker\<close>: it takes a queue from the global queue, processes its messages until
  the queue is empty or its budget is used up, and then goes on or puts the queue back and ends.
  Every call of the queue module is a critical section, so the interleavings are those of the calls:
  \<open>worker_step\<close> is one call of the loop, and the step relation below interleaves the calls of any
  number of workers and routers. The jobs waiting in the thread pool are counted. Popped messages
  are processed by \<open>misaka_packet_process\<close> after they left the queue; whatever it routes on is a
  routing step of its own.
\<close>

section \<open>Views of the queue store\<close>

definition msgs :: "'m mq_state \<Rightarrow> addr \<Rightarrow> 'm list" where
  "msgs st a = (case st_mq st a of None \<Rightarrow> [] | Some q \<Rightarrow> mq_list q)"

definition flag :: "'m mq_state \<Rightarrow> addr \<Rightarrow> int" where
  "flag st a = (case st_mq st a of None \<Rightarrow> 0 | Some q \<Rightarrow> mq_in_global q)"

definition queues_wf :: "'m mq_state \<Rightarrow> bool" where
  "queues_wf st \<longleftrightarrow> gq_wf st \<and> (\<forall>a q. st_mq st a = Some q \<longrightarrow> mq_wf q)"

lemma mq_next_irrelevant [simp]:
  "mq_list (q\<lparr>mq_next := p\<rparr>) = mq_list q" "mq_wf (q\<lparr>mq_next := p\<rparr>) = mq_wf q"
  "mq_list (q\<lparr>mq_in_global := v\<rparr>) = mq_list q" "mq_wf (q\<lparr>mq_in_global := v\<rparr>) = mq_wf q"
proof -
  have len: "mq_len (q\<lparr>mq_next := p\<rparr>) = mq_len q" "mq_len (q\<lparr>mq_in_global := v\<rparr>) = mq_len q"
    by (simp_all add: mq_len_def skynet_mq_length_def)
  have ix: "slot_ix (q\<lparr>mq_next := p\<rparr>) = slot_ix q" "slot_ix (q\<lparr>mq_in_global := v\<rparr>) = slot_ix q"
    by (rule ext, simp add: slot_ix_def)+
  show "mq_list (q\<lparr>mq_next := p\<rparr>) = mq_list q" "mq_wf (q\<lparr>mq_next := p\<rparr>) = mq_wf q"
    "mq_list (q\<lparr>mq_in_global := v\<rparr>) = mq_list q" "mq_wf (q\<lparr>mq_in_global := v\<rparr>) = mq_wf q"
    by (simp_all add: mq_list_def mq_wf_def ring_ok_def len ix)
qed

lemma views_of_body:
  "msgs st a = (case body st a of None \<Rightarrow> [] | Some q \<Rightarrow> mq_list q)"
  "flag st a = (case body st a of None \<Rightarrow> 0 | Some q \<Rightarrow> mq_in_global q)"
  "(st_mq st a = None) = (body st a = None)"
  "(\<forall>q. st_mq st a = Some q \<longrightarrow> mq_wf q) = (\<forall>q. body st a = Some q \<longrightarrow> mq_wf q)"
  by (auto simp: msgs_def flag_def body_def split: option.split)

lemma body_views:
  assumes "body st' = body st"
  shows "msgs st' = msgs st" "flag st' = flag st" "(st_mq st' a = None) = (st_mq st a = None)"
    "(\<forall>a q. st_mq st' a = Some q \<longrightarrow> mq_wf q) = (\<forall>a q. st_mq st a = Some q \<longrightarrow> mq_wf q)"
  using assms by (simp_all add: fun_eq_iff views_of_body)

text \<open>A change of one queue that keeps its link.\<close>

lemma upd_views:
  assumes "st_mq st a = Some q" "mq_next q' = mq_next q"
  shows "glist (upd_mq a q' st) = glist st" "gq_wf (upd_mq a q' st) = gq_wf st"
    "msgs (upd_mq a q' st) = (msgs st)(a := mq_list q')" "flag (upd_mq a q' st) = (flag st)(a := mq_in_global q')"
    "(st_mq (upd_mq a q' st) b = None) = (st_mq st b = None)"
proof -
  have "nxt (upd_mq a q' st) = nxt st" "st_Q (upd_mq a q' st) = st_Q st"
    using assms by (auto simp: nxt_def upd_mq_def)
  then show "glist (upd_mq a q' st) = glist st" "gq_wf (upd_mq a q' st) = gq_wf st"
    by (rule glist_cong, rule gq_wf_cong)
  show "msgs (upd_mq a q' st) = (msgs st)(a := mq_list q')" "flag (upd_mq a q' st) = (flag st)(a := mq_in_global q')"
    "(st_mq (upd_mq a q' st) b = None) = (st_mq st b = None)"
    using assms by (auto simp: msgs_def flag_def upd_mq_def)
qed

section \<open>The queue operations on the views\<close>

lemma mq_push_effect:
  assumes wf: "queues_wf st" and q: "st_mq st a = Some q" and push: "ring_push alloc q m = Some q1"
    and free: "flag st a = 0 \<Longrightarrow> a \<notin> set (glist st)"
  shows "\<exists>st'. skynet_mq_push alloc a m st = Some st' \<and> queues_wf st' \<and>
    msgs st' = (msgs st)(a := msgs st a @ [m]) \<and>
    flag st' = (flag st)(a := (if flag st a = 0 then 1 else flag st a)) \<and>
    glist st' = (if flag st a = 0 then glist st @ [a] else glist st) \<and>
    (\<forall>b. (st_mq st' b = None) = (st_mq st b = None))"
proof -
  from wf q have "mq_wf q"
    by (simp add: queues_wf_def)
  from push_defined [OF this push] have
    q1: "ring_push alloc q m = Some q1" "mq_wf q1" "mq_list q1 = mq_list q @ [m]"
      "mq_in_global q1 = mq_in_global q" "mq_next q1 = mq_next q"
    using push by simp_all
  have fl: "flag st a = mq_in_global q" and ms: "msgs st a = mq_list q"
    using q by (simp_all add: flag_def msgs_def)
  have gw: "gq_wf st"
    using wf by (simp add: queues_wf_def)
  have wf1: "mq_wf q2" if "st_mq (upd_mq a (q1\<lparr>mq_in_global := v\<rparr>) st) b = Some q2" for v b q2
    using that wf q1(2) by (auto simp: upd_mq_def queues_wf_def split: if_splits)
  show ?thesis
  proof (cases "flag st a = 0")
    case True
    let ?q = "q1\<lparr>mq_in_global := 1\<rparr>" and ?st = "upd_mq a (q1\<lparr>mq_in_global := 1\<rparr>) st"
    have nx: "mq_next ?q = mq_next q"
      by (simp add: q1)
    note v = upd_views [OF q nx]
    from globalmq_push_ok [of ?st a] free True gw v obtain st' where
      st': "skynet_globalmq_push a ?st = Some st'" "gq_wf st'" "glist st' = glist st @ [a]" "body st' = body ?st"
      by (auto simp: upd_mq_def)
    have "skynet_mq_push alloc a m st = Some st'"
      using q q1 True fl st'(1) by (simp add: skynet_mq_push_def)
    moreover have "queues_wf st'"
      using st'(2) body_views(4) [OF st'(4)] wf1 by (simp add: queues_wf_def)
    ultimately show ?thesis
      using st'(3) body_views(1-3) [OF st'(4)] v True fl ms q1(3) by simp
  next
    case False
    note v = upd_views [OF q q1(5)]
    have "skynet_mq_push alloc a m st = Some (upd_mq a q1 st)"
      using q q1 False fl by (simp add: skynet_mq_push_def)
    moreover have "queues_wf (upd_mq a q1 st)"
      using v gw wf q1(2) by (auto simp: queues_wf_def) (auto simp: upd_mq_def split: if_splits)
    ultimately show ?thesis
      using v False fl ms q1(3,4) by simp
  qed
qed

lemma mq_push_ok:
  assumes wf: "queues_wf st" and alloc: "alloc_ok alloc" and q: "st_mq st a = Some q" and room: "ring_room q"
    and free: "flag st a = 0 \<Longrightarrow> a \<notin> set (glist st)"
  shows "\<exists>st'. skynet_mq_push alloc a m st = Some st' \<and> queues_wf st' \<and>
    msgs st' = (msgs st)(a := msgs st a @ [m]) \<and>
    flag st' = (flag st)(a := (if flag st a = 0 then 1 else flag st a)) \<and>
    glist st' = (if flag st a = 0 then glist st @ [a] else glist st) \<and>
    (\<forall>b. (st_mq st' b = None) = (st_mq st b = None))"
proof -
  have "mq_wf q"
    using wf q by (simp add: queues_wf_def)
  from push_appends [OF this room alloc, of m] obtain q1 where "ring_push alloc q m = Some q1"
    by blast
  from mq_push_effect [OF wf q this free] show ?thesis .
qed

section \<open>Workers\<close>

abbreviation (input) MISAKA_TASK_SANDS :: nat where "MISAKA_TASK_SANDS \<equiv> 100"

text \<open>A running \<open>worker\<close>: the queue it holds (NULL at the top of the loop) and what is left of its
  budget.\<close>

record worker =
  w_q :: ptr
  w_sands :: nat

definition worker_start :: worker where
  "worker_start = \<lparr>w_q = None, w_sands = MISAKA_TASK_SANDS\<rparr>"

text \<open>One call of the loop: the worker afterwards (\<open>None\<close> when it returned), the message it popped, if
  any, and the queues.\<close>

definition worker_step :: "worker \<Rightarrow> 'm mq_state \<Rightarrow> (worker option \<times> 'm option \<times> 'm mq_state) option" where
  "worker_step w st =
     (case w_q w of
        None \<Rightarrow> do {
          (q, st) \<leftarrow> skynet_globalmq_pop st;
          (case q of None \<Rightarrow> Some (None, None, st) | Some a \<Rightarrow> Some (Some (w\<lparr>w_q := Some a\<rparr>), None, st))
        }
      | Some a \<Rightarrow>
          (if w_sands w \<noteq> 0 then do {
             q \<leftarrow> st_mq st a;
             (ret, s, q) \<leftarrow> skynet_mq_pop q;
             (if ret = 0 then Some (Some (w\<lparr>w_sands := w_sands w - 1\<rparr>), s, upd_mq a q st)
              else Some (Some (w\<lparr>w_q := None\<rparr>), None, upd_mq a q st))
           }
           else do {
             st \<leftarrow> skynet_globalmq_push a st;
             Some (None, None, st)
           }))"

text \<open>The whole system: the queues, the jobs waiting in the pool, the running workers, and, for the
  statements below, the messages routed to and taken from each queue so far.\<close>

record 'm sched =
  sc_mq :: "'m mq_state"
  sc_jobs :: nat
  sc_workers :: "nat \<Rightarrow> worker option"
  sc_in :: "addr \<Rightarrow> 'm list"
  sc_out :: "addr \<Rightarrow> 'm list"

text \<open>\<open>misaka_packet_task_route\<close>: push and add a job.\<close>

definition task_route :: "(size_t \<Rightarrow> bool) \<Rightarrow> addr \<Rightarrow> 'm \<Rightarrow> 'm sched \<Rightarrow> 'm sched option" where
  "task_route alloc a m s =
     do {
       st \<leftarrow> skynet_mq_push alloc a m (sc_mq s);
       Some (s\<lparr>sc_mq := st, sc_jobs := sc_jobs s + 1, sc_in := (sc_in s)(a := sc_in s a @ [m])\<rparr>)
     }"

definition log_out :: "worker \<Rightarrow> 'm option \<Rightarrow> (addr \<Rightarrow> 'm list) \<Rightarrow> (addr \<Rightarrow> 'm list)" where
  "log_out w r out = (case (w_q w, r) of (Some a, Some m) \<Rightarrow> out(a := out a @ [m]) | _ \<Rightarrow> out)"

lemma log_out_simps [simp]:
  "log_out w None out = out" "w_q w = Some a \<Longrightarrow> log_out w (Some m) out = out(a := out a @ [m])"
  by (simp_all add: log_out_def split: option.split)

inductive sched_step :: "(size_t \<Rightarrow> bool) \<Rightarrow> 'm sched \<Rightarrow> 'm sched \<Rightarrow> bool" for alloc where
  Route: "st_mq (sc_mq s) a = Some q \<Longrightarrow> ring_room q \<Longrightarrow> task_route alloc a m s = Some s' \<Longrightarrow> sched_step alloc s s'"
| Start: "0 < sc_jobs s \<Longrightarrow> sc_workers s i = None \<Longrightarrow>
     sched_step alloc s (s\<lparr>sc_jobs := sc_jobs s - 1, sc_workers := (sc_workers s)(i \<mapsto> worker_start)\<rparr>)"
| Work: "sc_workers s i = Some w \<Longrightarrow> worker_step w (sc_mq s) = Some (w', r, st) \<Longrightarrow>
     sched_step alloc s (s\<lparr>sc_mq := st, sc_workers := (sc_workers s)(i := w'), sc_out := log_out w r (sc_out s)\<rparr>)"

inductive_cases sched_stepE: "sched_step alloc s s'"

text \<open>The start: \<open>core_init\<close> created the queues, each empty, and no worker runs.\<close>

definition sched_init :: "(addr \<Rightarrow> u32 option) \<Rightarrow> 'm sched" where
  "sched_init hs =
     \<lparr>sc_mq = skynet_mq_init \<lparr>st_mq = (\<lambda>a. map_option skynet_mq_create (hs a)), st_Q = None\<rparr>,
      sc_jobs = 0, sc_workers = Map.empty, sc_in = (\<lambda>a. []), sc_out = (\<lambda>a. [])\<rparr>"

inductive sched_reach :: "(size_t \<Rightarrow> bool) \<Rightarrow> 'm sched \<Rightarrow> bool" for alloc where
  init: "sched_reach alloc (sched_init hs)"
| step: "sched_reach alloc s \<Longrightarrow> sched_step alloc s s' \<Longrightarrow> sched_reach alloc s'"

section \<open>The invariant\<close>

text \<open>A queue is flagged exactly when it is linked into the global queue or held by a worker, never
  both and never by two workers; an unflagged queue is empty.\<close>

definition holds :: "'m sched \<Rightarrow> nat \<Rightarrow> addr \<Rightarrow> bool" where
  "holds s i a \<longleftrightarrow> (\<exists>w. sc_workers s i = Some w \<and> w_q w = Some a)"

definition sched_inv :: "'m sched \<Rightarrow> bool" where
  "sched_inv s \<longleftrightarrow> queues_wf (sc_mq s) \<and>
     (\<forall>a. flag (sc_mq s) a \<in> {0, 1}) \<and>
     (\<forall>a. flag (sc_mq s) a = 1 \<longleftrightarrow> a \<in> set (glist (sc_mq s)) \<or> (\<exists>i. holds s i a)) \<and>
     (\<forall>a i. holds s i a \<longrightarrow> a \<notin> set (glist (sc_mq s)) \<and> (\<forall>j. holds s j a \<longrightarrow> j = i)) \<and>
     (\<forall>a. flag (sc_mq s) a = 0 \<longrightarrow> msgs (sc_mq s) a = []) \<and>
     (\<forall>a. sc_out s a @ msgs (sc_mq s) a = sc_in s a)"

lemma flag_live: "flag st a \<noteq> 0 \<Longrightarrow> st_mq st a \<noteq> None"
  by (auto simp: flag_def split: option.splits)

lemma sched_inv_init: "sched_inv (sched_init hs :: 'm sched)"
proof -
  let ?st = "\<lparr>st_mq = (\<lambda>a. map_option skynet_mq_create (hs a)), st_Q = None\<rparr> :: 'm mq_state"
  have nx: "nxt ?st a = None \<or> nxt ?st a = Some None" for a
    by (cases "hs a") (auto simp: nxt_def)
  have "gq_wf (skynet_mq_init ?st)" "glist (skynet_mq_init ?st) = []"
    using nx by (rule init_gq)+
  moreover have "msgs (skynet_mq_init ?st) a = []" "flag (skynet_mq_init ?st) a = 0"
    "st_mq (skynet_mq_init ?st) a = Some q \<Longrightarrow> mq_wf q" for a q
    by (cases "hs a"; auto simp: msgs_def flag_def skynet_mq_init_def)+
  ultimately show ?thesis
    by (simp add: sched_inv_def sched_init_def holds_def queues_wf_def)
qed

abbreviation after :: "'m sched \<Rightarrow> nat \<Rightarrow> worker \<Rightarrow> worker option \<times> 'm option \<times> 'm mq_state \<Rightarrow> 'm sched" where
  "after s i w x \<equiv> (case x of (w', r, st) \<Rightarrow>
     s\<lparr>sc_mq := st, sc_workers := (sc_workers s)(i := w'), sc_out := log_out w r (sc_out s)\<rparr>)"

lemma holds_after:
  "holds (after s i w (w', r, st)) j b =
     (if j = i then (\<exists>w. w' = Some w \<and> w_q w = Some b) else holds s j b)"
  by (auto simp: holds_def)

lemma inv_facts:
  assumes "sched_inv s"
  shows "queues_wf (sc_mq s)" "gq_wf (sc_mq s)" "flag (sc_mq s) a = 0 \<or> flag (sc_mq s) a = 1"
    "flag (sc_mq s) a = 1 \<longleftrightarrow> a \<in> set (glist (sc_mq s)) \<or> (\<exists>i. holds s i a)"
    "holds s i a \<Longrightarrow> a \<notin> set (glist (sc_mq s))" "holds s i a \<Longrightarrow> holds s j a \<Longrightarrow> j = i"
    "flag (sc_mq s) a = 0 \<Longrightarrow> msgs (sc_mq s) a = []" "sc_out s a @ msgs (sc_mq s) a = sc_in s a"
  using assms unfolding sched_inv_def queues_wf_def by blast+

lemma inv_intro:
  assumes "queues_wf (sc_mq s)" "\<And>a. flag (sc_mq s) a = 0 \<or> flag (sc_mq s) a = 1"
    "\<And>a. flag (sc_mq s) a = 1 \<longleftrightarrow> a \<in> set (glist (sc_mq s)) \<or> (\<exists>i. holds s i a)"
    "\<And>a i. holds s i a \<Longrightarrow> a \<notin> set (glist (sc_mq s))" "\<And>a i j. holds s i a \<Longrightarrow> holds s j a \<Longrightarrow> j = i"
    "\<And>a. flag (sc_mq s) a = 0 \<Longrightarrow> msgs (sc_mq s) a = []" "\<And>a. sc_out s a @ msgs (sc_mq s) a = sc_in s a"
  shows "sched_inv s"
  using assms unfolding sched_inv_def by blast

text \<open>A worker at the top of its loop.\<close>

lemma worker_take:
  assumes inv: "sched_inv s" and w: "sc_workers s i = Some w" "w_q w = None"
  shows "\<exists>x. worker_step w (sc_mq s) = Some x \<and> sched_inv (after s i w x)"
proof -
  have nh: "\<not> holds s i b" for b
    using w by (simp add: holds_def)
  show ?thesis
  proof (cases "glist (sc_mq s)")
    case Nil
    have st: "worker_step w (sc_mq s) = Some (None, None, sc_mq s)"
      using globalmq_pop_empty [OF inv_facts(2) [OF inv] Nil] w by (simp add: worker_step_def)
    have h: "holds (after s i w (None, None, sc_mq s)) j b = holds s j b" for j b
      unfolding holds_after using nh by auto
    have "sched_inv (after s i w (None, None, sc_mq s))"
      using inv_facts [OF inv] w(2) unfolding sched_inv_def h by auto
    then show ?thesis
      using st by blast
  next
    case (Cons a gs)
    from globalmq_pop_ok [OF inv_facts(2) [OF inv] Cons] obtain st where
      pop: "skynet_globalmq_pop (sc_mq s) = Some (Some a, st)" "gq_wf st" "glist st = gs" "body st = body (sc_mq s)"
      by blast
    let ?w = "w\<lparr>w_q := Some a\<rparr>" and ?x = "(Some (w\<lparr>w_q := Some a\<rparr>), None, st)"
    have a: "a \<notin> set gs" "flag (sc_mq s) a = 1" "\<not> holds s j a" for j
      using gq_wf_distinct [OF inv_facts(2) [OF inv]] Cons inv_facts(4) [OF inv, of a] inv_facts(5) [OF inv, of _ a] by auto
    note v = body_views [OF pop(4)]
    have h: "holds (after s i w ?x) j b \<longleftrightarrow> holds s j b \<or> j = i \<and> b = a" for j b
      unfolding holds_after using nh by auto
    have "sched_inv (after s i w ?x)"
    proof (rule inv_intro, goal_cases)
      case 1
      then show ?case
        using pop(2) v(4) inv_facts(1) [OF inv] by (simp add: queues_wf_def)
    next
      case (3 b)
      then show ?case
        using inv_facts(4) [OF inv, of b] a pop(3) Cons unfolding h by (auto simp: v)
    next
      case (4 b j)
      then show ?case
        using inv_facts(5) [OF inv, of j b] a pop(3) Cons unfolding h by auto
    next
      case (5 b j k)
      then show ?case
        using inv_facts(6) [OF inv, of j b k] a unfolding h by auto
    qed (use inv_facts [OF inv] v w(2) in auto)
    moreover have "worker_step w (sc_mq s) = Some ?x"
      using pop(1) w by (simp add: worker_step_def)
    ultimately show ?thesis
      by blast
  qed
qed

text \<open>A worker that holds a queue.\<close>

lemma worker_held:
  assumes inv: "sched_inv s" and w: "sc_workers s i = Some w" "w_q w = Some a"
  shows "holds s i a" "flag (sc_mq s) a = 1" "a \<notin> set (glist (sc_mq s))"
    "\<exists>q. st_mq (sc_mq s) a = Some q \<and> mq_wf q \<and> msgs (sc_mq s) a = mq_list q \<and> mq_in_global q = 1"
proof -
  show h: "holds s i a"
    using w by (simp add: holds_def)
  then show f: "flag (sc_mq s) a = 1" and "a \<notin> set (glist (sc_mq s))"
    using inv_facts(4,5) [OF inv] by blast+
  then obtain q where "st_mq (sc_mq s) a = Some q"
    using flag_live [of "sc_mq s" a] by auto
  then show "\<exists>q. st_mq (sc_mq s) a = Some q \<and> mq_wf q \<and> msgs (sc_mq s) a = mq_list q \<and> mq_in_global q = 1"
    using inv_facts(1) [OF inv] f by (auto simp: queues_wf_def msgs_def flag_def)
qed

lemma holds_released:
  assumes "sched_inv s" "sc_workers s i = Some w" "w_q w = Some a" "\<And>w'. x = Some w' \<Longrightarrow> w_q w' = None"
  shows "holds (after s i w (x, r, st)) j b \<longleftrightarrow> holds s j b \<and> b \<noteq> a"
  unfolding holds_after using assms inv_facts(6) [OF assms(1), of i a] by (auto simp: holds_def)

lemma worker_pop_empty:
  assumes inv: "sched_inv s" and w: "sc_workers s i = Some w" "w_q w = Some a" "w_sands w \<noteq> 0"
    and empty: "msgs (sc_mq s) a = []"
  shows "\<exists>x. worker_step w (sc_mq s) = Some x \<and> sched_inv (after s i w x)"
proof -
  note held = worker_held [OF inv w(1,2)]
  from held(4) obtain q where q: "st_mq (sc_mq s) a = Some q" "mq_wf q" "mq_list q = []"
    using empty by auto
  from pop_empty [OF q(2,3)] obtain q' where
    q': "skynet_mq_pop q = Some (1, None, q')" "mq_wf q'" "mq_list q' = []" "mq_in_global q' = 0" "mq_next q' = mq_next q"
    by blast
  let ?x = "(Some (w\<lparr>w_q := None\<rparr>), None, upd_mq a q' (sc_mq s))"
  note v = upd_views [OF q(1) q'(5)]
  have h: "holds (after s i w ?x) j b \<longleftrightarrow> holds s j b \<and> b \<noteq> a" for j b
    by (rule holds_released [OF inv w(1,2)]) auto
  have "worker_step w (sc_mq s) = Some ?x"
    using w q q' by (simp add: worker_step_def)
  moreover have "sched_inv (after s i w ?x)"
  proof (rule inv_intro, goal_cases)
    case 1
    then show ?case
      using v inv_facts(1) [OF inv] q'(2) by (auto simp: queues_wf_def) (auto simp: upd_mq_def split: if_splits)
  next
    case (3 b)
    then show ?case
      using inv_facts(4) [OF inv, of b] held(3) unfolding h by (auto simp: v q')
  next
    case (4 b j)
    then show ?case
      using inv_facts(5) [OF inv, of j b] unfolding h by (auto simp: v)
  next
    case (5 b j k)
    then show ?case
      using inv_facts(6) [OF inv, of j b k] unfolding h by auto
  next
    case (7 b)
    then show ?case
      using inv_facts(8) [OF inv, of b] v(3) q'(3) empty by auto
  qed (use inv_facts [OF inv] v q' in auto)
  ultimately show ?thesis
    by blast
qed

lemma worker_pop_msg:
  assumes inv: "sched_inv s" and w: "sc_workers s i = Some w" "w_q w = Some a" "w_sands w \<noteq> 0"
    and msg: "msgs (sc_mq s) a = m # ms"
  shows "\<exists>x. worker_step w (sc_mq s) = Some x \<and> sched_inv (after s i w x)"
proof -
  note held = worker_held [OF inv w(1,2)]
  from held(4) obtain q where q: "st_mq (sc_mq s) a = Some q" "mq_wf q" "mq_list q = m # ms" "mq_in_global q = 1"
    using msg by auto
  from pop_next [OF q(2,3)] obtain q' where
    q': "skynet_mq_pop q = Some (0, Some m, q')" "mq_wf q'" "mq_list q' = ms" "mq_in_global q' = mq_in_global q"
      "mq_next q' = mq_next q"
    by blast
  let ?x = "(Some (w\<lparr>w_sands := w_sands w - 1\<rparr>), Some m, upd_mq a q' (sc_mq s))"
  note v = upd_views [OF q(1) q'(5)]
  have h: "holds (after s i w ?x) j b = holds s j b" for j b
    unfolding holds_after using w by (auto simp: holds_def)
  have f: "flag (upd_mq a q' (sc_mq s)) = flag (sc_mq s)"
    using v(4) q'(4) q(4) held(2) by auto
  have "worker_step w (sc_mq s) = Some ?x"
    using w q q' by (simp add: worker_step_def)
  moreover have "sched_inv (after s i w ?x)"
  proof (rule inv_intro, goal_cases)
    case 1
    then show ?case
      using v inv_facts(1) [OF inv] q'(2) by (auto simp: queues_wf_def) (auto simp: upd_mq_def split: if_splits)
  next
    case (6 b)
    then show ?case
      using inv_facts(7) [OF inv, of b] f v(3) held(2) by auto
  next
    case (7 b)
    then show ?case
      using inv_facts(8) [OF inv, of b] v(3) q'(3) w(2) msg by auto
  qed (use inv_facts [OF inv] v(1) f h in auto)
  ultimately show ?thesis
    by blast
qed

lemma worker_requeue:
  assumes inv: "sched_inv s" and w: "sc_workers s i = Some w" "w_q w = Some a" "w_sands w = 0"
  shows "\<exists>x. worker_step w (sc_mq s) = Some x \<and> sched_inv (after s i w x)"
proof -
  note held = worker_held [OF inv w(1,2)]
  from globalmq_push_ok [OF inv_facts(2) [OF inv] _ held(3)] held(4) obtain st where
    push: "skynet_globalmq_push a (sc_mq s) = Some st" "gq_wf st" "glist st = glist (sc_mq s) @ [a]"
      "body st = body (sc_mq s)"
    by auto
  let ?x = "(None, None, st)"
  note v = body_views [OF push(4)]
  have h: "holds (after s i w ?x) j b \<longleftrightarrow> holds s j b \<and> b \<noteq> a" for j b
    by (rule holds_released [OF inv w(1,2)]) auto
  have "worker_step w (sc_mq s) = Some ?x"
    using w push(1) by (simp add: worker_step_def)
  moreover have "sched_inv (after s i w ?x)"
  proof (rule inv_intro, goal_cases)
    case 1
    then show ?case
      using push(2) v(4) inv_facts(1) [OF inv] by (simp add: queues_wf_def)
  next
    case (3 b)
    then show ?case
      using inv_facts(4) [OF inv, of b] held(1,2) push(3) unfolding h by (auto simp: v)
  next
    case (4 b j)
    then show ?case
      using inv_facts(5) [OF inv, of j b] push(3) unfolding h by auto
  next
    case (5 b j k)
    then show ?case
      using inv_facts(6) [OF inv, of j b k] unfolding h by auto
  qed (use inv_facts [OF inv] v in auto)
  ultimately show ?thesis
    by blast
qed

lemma worker_step_ok:
  assumes "sched_inv s" "sc_workers s i = Some w"
  shows "\<exists>x. worker_step w (sc_mq s) = Some x \<and> sched_inv (after s i w x)"
proof (cases "w_q w")
  case None
  then show ?thesis
    using worker_take assms by blast
next
  case (Some a)
  then show ?thesis
    using worker_requeue [OF assms Some] worker_pop_empty [OF assms Some] worker_pop_msg [OF assms Some]
    by (cases "msgs (sc_mq s) a") auto
qed

text \<open>What a push does to the views keeps the invariant, whatever becomes of the jobs.\<close>

lemma route_inv:
  assumes inv: "sched_inv s"
    and st: "queues_wf st" "msgs st = (msgs (sc_mq s))(a := msgs (sc_mq s) a @ [m])"
      "flag st = (flag (sc_mq s))(a := (if flag (sc_mq s) a = 0 then 1 else flag (sc_mq s) a))"
      "glist st = (if flag (sc_mq s) a = 0 then glist (sc_mq s) @ [a] else glist (sc_mq s))"
  shows "sched_inv (s\<lparr>sc_mq := st, sc_jobs := n, sc_in := (sc_in s)(a := sc_in s a @ [m])\<rparr>)"
proof -
  let ?s = "s\<lparr>sc_mq := st, sc_jobs := n, sc_in := (sc_in s)(a := sc_in s a @ [m])\<rparr>"
  have h: "holds ?s j b = holds s j b" for j b
    by (simp add: holds_def)
  show ?thesis
  proof (rule inv_intro, goal_cases)
    case (3 b)
    then show ?case
      using inv_facts(3,4) [OF inv, of b] unfolding h by (auto simp: st)
  next
    case (4 b j)
    then show ?case
      using inv_facts(4) [OF inv, of b] inv_facts(5) [OF inv, of j b] unfolding h by (auto simp: st)
  next
    case (6 b)
    then show ?case
      using inv_facts(7) [OF inv, of b] st(2,3) by (auto split: if_splits)
  next
    case (7 b)
    then show ?case
      using inv_facts(8) [OF inv, of b] by (auto simp: st(2) append_assoc [symmetric] simp del: append_assoc)
  qed (use inv_facts [OF inv] h st in auto)
qed

lemma unflagged_unlinked: "sched_inv s \<Longrightarrow> flag (sc_mq s) a = 0 \<Longrightarrow> a \<notin> set (glist (sc_mq s))"
  using inv_facts(4) [of s a] by auto

lemma task_route_ok:
  assumes inv: "sched_inv s" and "alloc_ok alloc" and q: "st_mq (sc_mq s) a = Some q" "ring_room q"
  shows "\<exists>s'. task_route alloc a m s = Some s' \<and> sched_inv s'"
proof -
  from mq_push_ok [OF inv_facts(1) [OF inv] assms(2) q unflagged_unlinked [OF inv], of m] obtain st where
    st: "skynet_mq_push alloc a m (sc_mq s) = Some st" "queues_wf st"
      "msgs st = (msgs (sc_mq s))(a := msgs (sc_mq s) a @ [m])"
      "flag st = (flag (sc_mq s))(a := (if flag (sc_mq s) a = 0 then 1 else flag (sc_mq s) a))"
      "glist st = (if flag (sc_mq s) a = 0 then glist (sc_mq s) @ [a] else glist (sc_mq s))"
    by blast
  show ?thesis
    using route_inv [OF inv st(2-5)] st(1) by (simp add: task_route_def)
qed

lemma sched_start_ok:
  assumes "sched_inv s" "sc_workers s i = None"
  shows "sched_inv (s\<lparr>sc_jobs := n, sc_workers := (sc_workers s)(i \<mapsto> worker_start)\<rparr>)"
proof -
  have "holds (s\<lparr>sc_jobs := n, sc_workers := (sc_workers s)(i \<mapsto> worker_start)\<rparr>) j b = holds s j b" for j b
    using assms(2) by (auto simp: holds_def worker_start_def)
  then show ?thesis
    using assms(1) unfolding sched_inv_def by auto
qed

lemma sched_inv_step:
  assumes "sched_step alloc s s'" "alloc_ok alloc" "sched_inv s"
  shows "sched_inv s'"
  using assms(1)
proof cases
  case (Route a q m)
  then show ?thesis
    using task_route_ok [OF assms(3,2), of a q m] by auto
next
  case (Start i)
  then show ?thesis
    using sched_start_ok [OF assms(3)] by simp
next
  case (Work i w w' r st)
  then show ?thesis
    using worker_step_ok [OF assms(3) Work(2)] by auto
qed

lemma sched_reach_inv: "sched_reach alloc s \<Longrightarrow> alloc_ok alloc \<Longrightarrow> sched_inv s"
  by (induction rule: sched_reach.induct) (auto intro: sched_inv_init sched_inv_step)

section \<open>Properties\<close>

text \<open>C1: However workers and routers interleave, every task queue that holds messages is linked into the
  global queue or held by a worker, never both; no queue is ever held by two workers; and of every
  queue, the messages taken so far followed by those still queued are the messages routed to it, in
  order: messages of one type are neither lost nor duplicated nor reordered.\<close>

theorem sched_serial:
  assumes "sched_reach alloc s" "alloc_ok alloc"
  shows "(msgs (sc_mq s) a \<noteq> [] \<longrightarrow> (a \<in> set (glist (sc_mq s))) \<noteq> (\<exists>i. holds s i a)) \<and>
    (holds s i a \<longrightarrow> holds s j a \<longrightarrow> i = j) \<and> sc_out s a @ msgs (sc_mq s) a = sc_in s a"
  using inv_facts(3-8) [OF sched_reach_inv [OF assms]] by metis

text \<open>C16: No worker ever runs into undefined behaviour or a failing assertion in the queue module: in every
  reachable state each running worker's next call is defined, and so is routing a message to any
  queue below the ring's limit.\<close>

theorem sched_defined:
  assumes "sched_reach alloc s" "alloc_ok alloc"
  shows "(\<forall>i w. sc_workers s i = Some w \<longrightarrow> worker_step w (sc_mq s) \<noteq> None) \<and>
    (\<forall>a q m. st_mq (sc_mq s) a = Some q \<longrightarrow> ring_room q \<longrightarrow> task_route alloc a m s \<noteq> None)"
  using worker_step_ok [OF sched_reach_inv [OF assms]] task_route_ok [OF sched_reach_inv [OF assms] assms(2)]
  by (metis option.distinct(1))

text \<open>A run that leaves a message behind: its configurations.\<close>

definition stall_cfg :: "nat sched \<Rightarrow> nat \<Rightarrow> (nat \<Rightarrow> worker option) \<Rightarrow> nat \<Rightarrow> addr list \<Rightarrow> bool" where
  "stall_cfg s jobs ws k gl \<longleftrightarrow> sched_reach (\<lambda>n. True) s \<and> sc_jobs s = jobs \<and> sc_workers s = ws \<and>
     msgs (sc_mq s) 5 = replicate k 7 \<and> glist (sc_mq s) = gl \<and> st_mq (sc_mq s) 5 \<noteq> None"

lemma stall_inv: "stall_cfg s jobs ws k gl \<Longrightarrow> sched_inv s"
  using sched_reach_inv by (auto simp: stall_cfg_def alloc_ok_def)

lemma stall_route:
  assumes "stall_cfg s k Map.empty k (if k = 0 then [] else [5])" "k < 1000"
  shows "\<exists>s'. stall_cfg s' (Suc k) Map.empty (Suc k) [5]"
proof -
  note inv = stall_inv [OF assms(1)]
  from assms(1) obtain q where q: "st_mq (sc_mq s) 5 = Some q"
    by (auto simp: stall_cfg_def)
  have nh: "\<not> holds s i b" for i b
    using assms(1) by (simp add: stall_cfg_def holds_def)
  have "mq_len q = k"
    using assms(1) q by (metis length_mq_list length_replicate msgs_def option.simps(5) stall_cfg_def)
  then have room: "ring_room q"
    using assms(2) by (simp add: ring_room_def)
  have fl: "flag (sc_mq s) 5 = (if k = 0 then 0 else 1)"
    using inv_facts(3,4) [OF inv, of 5] nh assms(1) by (auto simp: stall_cfg_def split: if_splits)
  have "5 \<notin> set (glist (sc_mq s))" if "flag (sc_mq s) 5 = 0"
    using inv_facts(4) [OF inv, of 5] that by auto
  from mq_push_ok [OF inv_facts(1) [OF inv] _ q room this, of "\<lambda>n. True" 7] obtain st where
    st: "skynet_mq_push (\<lambda>n. True) 5 7 (sc_mq s) = Some st"
      "msgs st = (msgs (sc_mq s))(5 := msgs (sc_mq s) 5 @ [7])"
      "glist st = (if flag (sc_mq s) 5 = 0 then glist (sc_mq s) @ [5] else glist (sc_mq s))"
      "\<forall>b. (st_mq st b = None) = (st_mq (sc_mq s) b = None)"
    by (auto simp: alloc_ok_def)
  let ?s = "s\<lparr>sc_mq := st, sc_jobs := sc_jobs s + 1, sc_in := (sc_in s)(5 := sc_in s 5 @ [7])\<rparr>"
  have "task_route (\<lambda>n. True) 5 7 s = Some ?s"
    using st(1) by (simp add: task_route_def)
  then have "sched_reach (\<lambda>n. True) ?s"
    using assms(1) q room by (auto simp: stall_cfg_def intro: sched_reach.step sched_step.Route)
  then have "stall_cfg ?s (Suc k) Map.empty (Suc k) [5]"
    using assms(1) st fl by (auto simp: stall_cfg_def replicate_append_same split: if_splits)
  then show ?thesis ..
qed

lemma stall_work:
  assumes "stall_cfg s jobs ws k gl" "ws i = Some w" "worker_step w (sc_mq s) = Some (w', r, st)"
    and "msgs st 5 = replicate k' 7" "glist st = gl'" "st_mq st 5 \<noteq> None"
  shows "\<exists>s'. stall_cfg s' jobs (ws(i := w')) k' gl'"
proof -
  let ?s = "after s i w (w', r, st)"
  have "sched_step (\<lambda>n. True) s ?s"
    using sched_step.Work [of s i w w' r st "\<lambda>n. True"] assms(1-3) by (simp add: stall_cfg_def)
  then have "stall_cfg ?s jobs (ws(i := w')) k' gl'"
    using assms sched_reach.step by (auto simp: stall_cfg_def)
  then show ?thesis ..
qed

lemma stall_start:
  assumes "stall_cfg s (Suc jobs) ws k gl" "ws i = None"
  shows "\<exists>s'. stall_cfg s' jobs (ws(i \<mapsto> worker_start)) k gl"
proof -
  let ?s = "s\<lparr>sc_jobs := sc_jobs s - 1, sc_workers := (sc_workers s)(i \<mapsto> worker_start)\<rparr>"
  have "sched_step (\<lambda>n. True) s ?s"
    using assms by (intro sched_step.Start) (auto simp: stall_cfg_def)
  then have "stall_cfg ?s jobs (ws(i \<mapsto> worker_start)) k gl"
    using assms sched_reach.step by (auto simp: stall_cfg_def)
  then show ?thesis ..
qed

text \<open>The other jobs come while the queue is held: each finds the global queue empty and ends.\<close>

lemma stall_idle_job:
  assumes "stall_cfg s (Suc jobs) ws k []" "ws i = None"
  shows "\<exists>s'. stall_cfg s' jobs ws k []"
proof -
  from stall_start [OF assms] obtain s1 where s1: "stall_cfg s1 jobs (ws(i \<mapsto> worker_start)) k []"
    by blast
  have "gq_wf (sc_mq s1)" "glist (sc_mq s1) = []"
    using inv_facts(2) [OF stall_inv [OF s1]] s1 by (auto simp: stall_cfg_def)
  then have "worker_step worker_start (sc_mq s1) = Some (None, None, sc_mq s1)"
    by (simp add: worker_step_def worker_start_def globalmq_pop_empty)
  moreover have "msgs (sc_mq s1) 5 = replicate k 7" "glist (sc_mq s1) = []" "st_mq (sc_mq s1) 5 \<noteq> None"
    using s1 by (simp_all add: stall_cfg_def)
  ultimately obtain s2 where "stall_cfg s2 jobs (ws(i \<mapsto> worker_start, i := None)) k []"
    using stall_work [OF s1, of i worker_start None None _ k "[]"] by auto
  moreover have "ws(i \<mapsto> worker_start, i := None) = ws"
    using assms(2) by auto
  ultimately show ?thesis
    by auto
qed

abbreviation busy :: "nat \<Rightarrow> nat \<Rightarrow> worker option" where
  "busy n \<equiv> [0 \<mapsto> \<lparr>w_q = Some 5, w_sands = n\<rparr>]"

lemma stall_take:
  assumes "stall_cfg s (Suc jobs) Map.empty k [5]"
  shows "\<exists>s'. stall_cfg s' jobs (busy 100) k []"
proof -
  from stall_start [OF assms, of 0] obtain s1 where s1: "stall_cfg s1 jobs [0 \<mapsto> worker_start] k [5]"
    by auto
  from globalmq_pop_ok [OF inv_facts(2) [OF stall_inv [OF s1]], of 5 "[]"] s1 obtain st where
    st: "skynet_globalmq_pop (sc_mq s1) = Some (Some 5, st)" "glist st = []" "body st = body (sc_mq s1)"
    by (auto simp: stall_cfg_def)
  have "worker_step worker_start (sc_mq s1) = Some (Some \<lparr>w_q = Some 5, w_sands = 100\<rparr>, None, st)"
    by (simp add: worker_step_def worker_start_def st)
  moreover have "msgs st 5 = replicate k 7" "st_mq st 5 \<noteq> None"
    using s1 body_views [OF st(3)] by (simp_all add: stall_cfg_def)
  ultimately show ?thesis
    using stall_work [OF s1, of 0 worker_start] st(2) by auto
qed

lemma stall_pop:
  assumes "stall_cfg s jobs (busy (Suc n)) (Suc k) gl"
  shows "\<exists>s'. stall_cfg s' jobs (busy n) k gl"
proof -
  let ?w = "\<lparr>w_q = Some 5, w_sands = Suc n\<rparr>"
  note inv = stall_inv [OF assms]
  have "sc_workers s 0 = Some ?w" "w_q ?w = Some 5"
    using assms by (simp_all add: stall_cfg_def)
  from worker_held(4) [OF inv this] assms obtain q where
    q: "st_mq (sc_mq s) 5 = Some q" "mq_wf q" "mq_list q = 7 # replicate k 7"
    by (auto simp: stall_cfg_def)
  from pop_next [OF q(2,3)] obtain q' where
    q': "skynet_mq_pop q = Some (0, Some 7, q')" "mq_list q' = replicate k 7" "mq_next q' = mq_next q"
    by blast
  have "worker_step ?w (sc_mq s) = Some (Some \<lparr>w_q = Some 5, w_sands = n\<rparr>, Some 7, upd_mq 5 q' (sc_mq s))"
    by (simp add: worker_step_def q q')
  moreover have "msgs (upd_mq 5 q' (sc_mq s)) 5 = replicate k 7" "glist (upd_mq 5 q' (sc_mq s)) = gl"
    "st_mq (upd_mq 5 q' (sc_mq s)) 5 \<noteq> None"
    using assms upd_views [OF q(1) q'(3)] q'(2) by (simp_all add: stall_cfg_def)
  ultimately show ?thesis
    using stall_work [OF assms, of 0 ?w] by auto
qed

lemma stall_requeue:
  assumes "stall_cfg s jobs (busy 0) k []"
  shows "\<exists>s'. stall_cfg s' jobs Map.empty k [5]"
proof -
  let ?w = "\<lparr>w_q = Some 5, w_sands = 0\<rparr>"
  from globalmq_push_ok [OF inv_facts(2) [OF stall_inv [OF assms]], of 5] assms obtain st where
    st: "skynet_globalmq_push 5 (sc_mq s) = Some st" "glist st = [5]" "body st = body (sc_mq s)"
    by (auto simp: stall_cfg_def)
  have "worker_step ?w (sc_mq s) = Some (None, None, st)"
    by (simp add: worker_step_def st)
  moreover have "msgs st 5 = replicate k 7" "st_mq st 5 \<noteq> None"
    using assms body_views [OF st(3)] by (simp_all add: stall_cfg_def)
  ultimately obtain s' where "stall_cfg s' jobs ((busy 0)(0 := None)) k [5]"
    using stall_work [OF assms, of 0 ?w None None _ k "[5]"] st(2) by auto
  then show ?thesis
    by auto
qed

lemma iterate_ex:
  "P (0 :: nat) \<Longrightarrow> (\<And>k. k < n \<Longrightarrow> P k \<Longrightarrow> P (Suc k)) \<Longrightarrow> P n"
  by (induction n) auto

lemma stall_init: "stall_cfg (sched_init [5 \<mapsto> 1]) 0 Map.empty 0 []"
proof -
  have "sched_inv (sched_init [5 \<mapsto> 1] :: nat sched)" "sc_out (sched_init [5 \<mapsto> 1] :: nat sched) 5 = []"
    by (rule sched_inv_init) (simp add: sched_init_def)
  moreover have "sc_in (sched_init [5 \<mapsto> 1] :: nat sched) 5 = []"
    "glist (sc_mq (sched_init [5 \<mapsto> 1] :: nat sched)) = []"
    by (simp_all add: sched_init_def) (rule init_gq(2), simp add: nxt_def)
  ultimately show ?thesis
    using inv_facts(8) [of "sched_init [5 \<mapsto> 1] :: nat sched" 5] sched_reach.init [of _ "[5 \<mapsto> 1]"]
    by (auto simp: stall_cfg_def) (auto simp: sched_init_def skynet_mq_init_def)
qed

theorem sched_serial_witness:
  "\<exists>s :: nat sched. msgs (sc_mq s) 5 = [7] \<and> (5 \<in> set (glist (sc_mq s))) \<noteq> (\<exists>i. holds s i 5) \<and>
     sc_out s 5 @ [7] = sc_in s 5"
proof -
  from stall_route [of _ 0] stall_init obtain s where "stall_cfg s 1 Map.empty 1 [5]"
    by auto
  then have "sched_reach (\<lambda>n. True) s" "msgs (sc_mq s) 5 = [7]"
    by (simp_all add: stall_cfg_def)
  then show ?thesis
    using sched_serial [of "\<lambda>n. True" s 5 0 0] by (auto simp: alloc_ok_def)
qed

theorem sched_defined_witness:
  "\<exists>(s :: nat sched) w. sc_workers s 0 = Some w \<and> w_q w = Some 5 \<and> worker_step w (sc_mq s) \<noteq> None"
proof -
  from stall_route [of _ 0] stall_init obtain s1 where "stall_cfg s1 (Suc 0) Map.empty 1 [5]"
    by auto
  from stall_take [OF this] obtain s where "stall_cfg s 0 (busy 100) 1 []"
    by auto
  then have "sched_reach (\<lambda>n. True) s" "sc_workers s 0 = Some \<lparr>w_q = Some 5, w_sands = 100\<rparr>"
    by (simp_all add: stall_cfg_def)
  then show ?thesis
    using sched_defined [of "\<lambda>n. True" s] by (intro exI [of _ s]) (auto simp: alloc_ok_def)
qed

text \<open>C21: A message can be left behind. There is a run after which a queue still holds a message and is
  linked into the global queue, but no worker is running and no job is waiting: the worker that
  used up its budget put the queue back without a new job, and the jobs added with the messages
  had all ended because the queue was held. The message waits until some later packet is routed.\<close>

theorem sched_stall:
  "\<exists>s :: nat sched. sched_reach (\<lambda>n. True) s \<and> sc_jobs s = 0 \<and> (\<forall>i. sc_workers s i = None) \<and>
     msgs (sc_mq s) 5 = [7] \<and> glist (sc_mq s) = [5]"
proof -
  have "\<exists>s. stall_cfg s 101 Map.empty 101 (if 101 = (0 :: nat) then [] else [5])"
  proof (rule iterate_ex [where P = "\<lambda>k. \<exists>s. stall_cfg s k Map.empty k (if k = 0 then [] else [5])"])
    from stall_init show "\<exists>s. stall_cfg s 0 Map.empty 0 (if 0 = (0 :: nat) then [] else [5])"
      by auto
  qed (use stall_route in force)
  then obtain s1 where "stall_cfg s1 (Suc 100) Map.empty 101 [5]"
    by auto
  from stall_take [OF this] have "\<exists>s. stall_cfg s (100 - 0) (busy 100) 101 []"
    by simp
  from iterate_ex [where P = "\<lambda>k. \<exists>s. stall_cfg s (100 - k) (busy 100) 101 []" and n = 100, OF this]
  have "\<exists>s. stall_cfg s 0 (busy (100 - 0)) (101 - 0) []"
    using stall_idle_job [of _ _ "busy 100" 101 1] by (force simp: Suc_diff_Suc [symmetric])
  from iterate_ex [where P = "\<lambda>k. \<exists>s. stall_cfg s 0 (busy (100 - k)) (101 - k) []" and n = 100, OF this]
  obtain s where "stall_cfg s 0 (busy 0) 1 []"
    using stall_pop by (force simp: Suc_diff_Suc [symmetric])
  from stall_requeue [OF this] show ?thesis
    by (auto simp: stall_cfg_def)
qed

end
