(* ===== verification/Core.thy ===== *)
theory Core
  imports Links Sched
begin

text \<open>
  The event handlers of \<open>misaka/lib/core.c\<close>: connecting, reading, writing, processing and routing packets
  and the periodic loops.

  The event loop runs one handler at a time; the worker threads of the pool run \<open>worker_step\<close> of theory
  \<open>Sched\<close> on the queues and \<open>misaka_packet_process\<close> on what they pop. Theory \<open>Server\<close> interleaves them.
  The statistics counters of a peer wrap around.
\<close>

section \<open>Routing into the queues\<close>

text \<open>An access to \<open>queues[]\<close>; an index outside the array is undefined.\<close>

definition queue_of :: "cint \<Rightarrow> world \<Rightarrow> addr option" where
  "queue_of type w =
     (if 0 \<le> sint type \<and> nat (sint type) < length (w_queues w) then Some (w_queues w ! nat (sint type)) else None)"

text \<open>\<open>thpool_add_work\<close> returns -1 when it cannot allocate the job; the result is ignored.\<close>

definition misaka_packet_task_route :: "env \<Rightarrow> addr \<Rightarrow> world \<Rightarrow> world option" where
  "misaka_packet_task_route e s w = do {
     q \<leftarrow> w_pk w s;
     a \<leftarrow> queue_of (s_type (pk_s q)) w;
     mq \<leftarrow> skynet_mq_push (e_mq_alloc e) a s (w_mq w);
     Some (w\<lparr>w_mq := mq, w_jobs := (if e_job_mem e then w_jobs w + 1 else w_jobs w)\<rparr>)
   }"

definition misaka_packet_net_route :: "env \<Rightarrow> addr \<Rightarrow> world \<Rightarrow> world option" where
  "misaka_packet_net_route e s w = do {
     q \<leftarrow> w_pk w s;
     let w = w\<lparr>w_pk := (w_pk w)(s \<mapsto> q\<lparr>pk_s := (pk_s q)\<lparr>s_type := EVENT_NET\<rparr>\<rparr>)\<rparr>;
     a \<leftarrow> queue_of EVENT_NET w;
     m \<leftarrow> st_mq (w_mq w) a;
     mq \<leftarrow> skynet_mq_push (e_mq_alloc e) a s (upd_mq a (skynet_mq_global m 1) (w_mq w));
     Some (w\<lparr>w_mq := mq\<rparr>)
   }"

text \<open>\<open>misaka_packet_sys_route\<close> uses its queue pointer without ever setting it.\<close>

definition misaka_packet_sys_route :: "env \<Rightarrow> addr \<Rightarrow> world \<Rightarrow> world option" where
  "misaka_packet_sys_route e s w = do {
     q \<leftarrow> w_pk w s;
     None
   }"

section \<open>Routing to a peer\<close>

text \<open>Registering the write watcher of an established peer unless it is active.\<close>

definition watch_write :: "env \<Rightarrow> addr \<Rightarrow> peer \<Rightarrow> peer option" where
  "watch_write e a p =
     (if p_status p = TAT_ESTA then do {
        t \<leftarrow> p_t_write p;
        Some (if ev_is_active (e_ev e) t \<noteq> 1
          then p\<lparr>p_t_write := Some (ev_io_start (e_ev e)
            ((ev_io_init (e_ev e) t (Some CB_misaka_write) (p_fd p))\<lparr>ev_data := Some a\<rparr>))\<rparr>
          else p)
      } else Some p)"

text \<open>The loop of \<open>misaka_packet_route\<close> over the chain: pack the packet, append it to the output fifo of the
  peer and have it written.\<close>

partial_function (option) route_loop :: "env \<Rightarrow> addr \<Rightarrow> ptr \<Rightarrow> world \<Rightarrow> world option" where
  "route_loop e a ts w =
     (case ts of
        None \<Rightarrow> Some w
      | Some tt \<Rightarrow> do {
          q \<leftarrow> w_pk w tt;
          p \<leftarrow> w_peers w a;
          f \<leftarrow> p_pack p;
          (_, s) \<leftarrow> call_pack f (pk_s q) p;
          obuf \<leftarrow> p_obuf p;
          (obuf, pk) \<leftarrow> stream_fifo_push obuf tt ((w_pk w)(tt \<mapsto> \<lparr>pk_next = None, pk_s = s\<rparr>));
          p \<leftarrow> watch_write e a (p\<lparr>p_obuf := Some obuf\<rparr>);
          route_loop e a (pk_next q) (set_peer a p (w\<lparr>w_pk := pk\<rparr>))
        })"

definition misaka_packet_route :: "env \<Rightarrow> ptr \<Rightarrow> world \<Rightarrow> (int \<times> world) option" where
  "misaka_packet_route e s w =
     (case s of
        None \<Rightarrow> Some (0, w)
      | Some a \<Rightarrow> do {
          q \<leftarrow> w_pk w a;
          if stream_get_endp (pk_s q) - stream_get_getp (pk_s q) = 0
          then Some (0, w\<lparr>w_pk := stream_free s (w_pk w)\<rparr>)
          else do {
            d \<leftarrow> lookup_drole e (s_nid (pk_s q)) w;
            (case d of
               None \<Rightarrow> Some (-1, w\<lparr>w_pk := stream_free s (w_pk w)\<rparr>)
             | Some peer \<Rightarrow> do { w \<leftarrow> route_loop e peer s w; Some (0, w) })
          }
        })"

section \<open>Processing a packet\<close>

text \<open>One plugin call. A Lua or Python plugin gets the packet as a C string, for which a NUL is written
  behind it: at the read position plus the end position. The flag is \<open>False\<close> when the Lua call failed
  and \<open>misaka_packet_process\<close> returns.\<close>

definition terminate_payload :: "stream \<Rightarrow> stream option" where
  "terminate_payload s = do {
     d \<leftarrow> wr (s_data s) (s_getp s + stream_get_endp s) 0;
     Some (s\<lparr>s_data := d\<rparr>)
   }"

definition run_plugin :: "event_handle \<Rightarrow> stream \<Rightarrow> (bool \<times> stream) option" where
  "run_plugin h s =
     (case eh_plug h of
        C_PLUGIN_TYPE \<Rightarrow> Some (True, case eh_func h of Some f \<Rightarrow> f s | None \<Rightarrow> s)
      | LUA_PLUGIN_TYPE \<Rightarrow> do {
          lf \<leftarrow> eh_lhandle h;
          s \<leftarrow> terminate_payload s;
          str \<leftarrow> stream_pnt s;
          str \<leftarrow> cstr str;
          (case lf (s_type s, s_src s, s_dst s, str) of
             None \<Rightarrow> Some (False, stream_reset s)
           | Some (type, src, dst, str) \<Rightarrow> do {
               s \<leftarrow> stream_put (stream_reset s) str (case str of Some bs \<Rightarrow> of_nat (length bs) | None \<Rightarrow> 0);
               Some (True, s\<lparr>s_dst := dst, s_src := src, s_type := type\<rparr>)
             })
        }
      | PYTHON_PLUGIN_TYPE \<Rightarrow> do {
          pf \<leftarrow> eh_pFunc h;
          s \<leftarrow> terminate_payload s;
          str \<leftarrow> stream_pnt s;
          str \<leftarrow> cstr str;
          let (type, src, dst, payload) = pf (s_type s, s_src s, s_dst s, str);
          bs \<leftarrow> cstr payload;
          s \<leftarrow> stream_put ((stream_reset s)\<lparr>s_type := type, s_src := src, s_dst := dst\<rparr>) (Some payload) (of_nat (length bs) + 1);
          Some (True, s)
        }
      | _ \<Rightarrow> Some (True, s))"

text \<open>The body of the loop over the event list: the plugin, and then the routing by the type it left in the
  packet.\<close>

definition process_one :: "env \<Rightarrow> addr \<Rightarrow> event_handle \<Rightarrow> world \<Rightarrow> (bool \<times> world) option" where
  "process_one e s h w = do {
     q \<leftarrow> w_pk w s;
     (cont, st) \<leftarrow> run_plugin h (pk_s q);
     let w = w\<lparr>w_pk := (w_pk w)(s \<mapsto> q\<lparr>pk_s := st\<rparr>)\<rparr>;
     if \<not> cont then Some (False, w)
     else do {
       w \<leftarrow> (if s_type st = EVENT_NET then misaka_packet_net_route e s w
            else if s_type st = EVENT_NONE then Some (w\<lparr>w_pk := stream_free (Some s) (w_pk w)\<rparr>)
            else misaka_packet_task_route e s w);
       Some (True, w)
     }
   }"

text \<open>\<open>type\<close> is the type the packet came with.\<close>

fun process_loop :: "env \<Rightarrow> cint \<Rightarrow> addr \<Rightarrow> nat list \<Rightarrow> world \<Rightarrow> world option" where
  "process_loop e type s [] w = Some w"
| "process_loop e type s (i # is) w =
     (if eh_type (w_events w ! i) \<noteq> type then process_loop e type s is w
      else do {
        (cont, w) \<leftarrow> process_one e s (w_events w ! i) w;
        if cont then process_loop e type s is w else Some w
      })"

definition misaka_packet_process :: "env \<Rightarrow> addr \<Rightarrow> world \<Rightarrow> world option" where
  "misaka_packet_process e s w = do {
     q \<leftarrow> w_pk w s;
     let type = s_type (pk_s q);
     if sint type \<le> sint EVENT_NONE \<or> sint EVENT_NET \<le> sint type then Some w
     else process_loop e type s (w_event_list w) w
   }"

section \<open>The handlers of a peer\<close>

definition misaka_start_thread :: "env \<Rightarrow> ptr \<Rightarrow> world \<Rightarrow> world option" where
  "misaka_start_thread e data w =
     (case data of
        None \<Rightarrow> Some w
      | Some a \<Rightarrow> do {
          p \<leftarrow> w_peers w a;
          if p_status p = TAT_ESTA then Some w
          else do {
            f \<leftarrow> p_start p;
            let (status, p, closed) = call_start e f p;
            connect_status_trigger e status a (set_peer a p (w\<lparr>w_closed := closed @ w_closed w\<rparr>))
          }
        })"

definition misaka_timer_thread :: "env \<Rightarrow> ptr \<Rightarrow> world \<Rightarrow> world option" where
  "misaka_timer_thread e data w =
     (case data of
        None \<Rightarrow> Some w
      | Some s \<Rightarrow> do {
          q \<leftarrow> w_pk w s;
          let st = pk_s q;
          misaka_packet_task_route e s
            (w\<lparr>w_pk := (w_pk w)(s \<mapsto> q\<lparr>pk_s := st\<lparr>s_stype := s_type st, s_type := s_stype st\<rparr>\<rparr>)\<rparr>)
        })"

definition misaka_write :: "env \<Rightarrow> ptr \<Rightarrow> world \<Rightarrow> world option" where
  "misaka_write e data w =
     (case data of
        None \<Rightarrow> Some w
      | Some a \<Rightarrow> do {
          p \<leftarrow> w_peers w a;
          if p_status p \<noteq> TAT_ESTA then Some w
          else do {
            f \<leftarrow> p_write p;
            (cnt, w) \<leftarrow> call_write e f a w;
            p \<leftarrow> w_peers w a;
            if cnt < 0 then
              (if p_mode p = MODE_PASSIVE then do {
                 w \<leftarrow> peer_unregister e a (set_peer a (p\<lparr>p_status := TAT_IDLE\<rparr>) w);
                 peer_delete e a w
               } else misaka_reconnect e a w)
            else do {
              t \<leftarrow> p_t_write p;
              obuf \<leftarrow> p_obuf p;
              let t = (if misaka_write_proceed obuf
                       then (if ev_is_active (e_ev e) t \<noteq> 1 then ev_io_start (e_ev e) t else t)
                       else (if ev_is_active (e_ev e) t = 1 then ev_io_stop (e_ev e) t else t));
              Some (set_peer a (p\<lparr>p_scount := p_scount p + of_int cnt, p_t_write := Some t\<rparr>) w)
            }
          }
        })"

text \<open>The copy of the read buffer that is handed on; the inner \<open>None\<close> is a failed allocation.\<close>

definition clone_ibuf :: "env \<Rightarrow> stream \<Rightarrow> world \<Rightarrow> (ptr \<times> world) option" where
  "clone_ibuf e s w = do {
     c \<leftarrow> stream_clone_one (e_malloc e) (map_option snd (e_pk_mem e)) s;
     (case (c, e_pk_mem e) of
        (Some st, Some (a, _)) \<Rightarrow> Some (Some a, w\<lparr>w_pk := (w_pk w)(a \<mapsto> \<lparr>pk_next = None, pk_s = st\<rparr>)\<rparr>)
      | _ \<Rightarrow> Some (None, w))
   }"

text \<open>The \<open>IO_PACKET\<close> case: every packet is redirected to the echo event.\<close>

definition deliver_packet :: "env \<Rightarrow> addr \<Rightarrow> stream \<Rightarrow> world \<Rightarrow> world option" where
  "deliver_packet e a s w = do {
     (rs, w) \<leftarrow> clone_ibuf e s w;
     (if s_nid s = w_role w then
        (case rs of
           None \<Rightarrow> Some w
         | Some r \<Rightarrow> do {
             q \<leftarrow> w_pk w r;
             if sint EVENT_NONE < sint (s_type (pk_s q)) \<and> sint (s_type (pk_s q)) < sint EVENT_NET then do {
               p \<leftarrow> w_peers w a;
               if p_sys p \<noteq> 0 then misaka_packet_sys_route e r w else misaka_packet_task_route e r w
             }
             else Some w
           })
      else
        (case rs of
           None \<Rightarrow> Some w
         | Some r \<Rightarrow> do { (_, w) \<leftarrow> misaka_packet_route e rs w; Some w }))
   }"

definition read_io_action :: "env \<Rightarrow> io_tat \<Rightarrow> addr \<Rightarrow> world \<Rightarrow> world option" where
  "read_io_action e event a w = do {
     p \<leftarrow> w_peers w a;
     s \<leftarrow> p_ibuf p;
     let s = s\<lparr>s_src := p_drole p\<rparr>;
     (case event of
        IO_PACKET \<Rightarrow> do {
          let s = s\<lparr>s_flag := 0, s_dst := w_role w, s_type := EVENT_ECHO\<rparr>;
          w \<leftarrow> deliver_packet e a s (set_peer a (p\<lparr>p_ibuf := Some s\<rparr>) w);
          p \<leftarrow> w_peers w a;
          f \<leftarrow> p_parser p;
          Some (set_peer a (run_parser f (p\<lparr>p_ibuf := Some (stream_reset s)\<rparr>)) w)
        }
      | IO_CLEAN \<Rightarrow> Some (set_peer a (p\<lparr>p_ibuf := Some (stream_reset s)\<rparr>) w)
      | IO_CLOSE \<Rightarrow> misaka_reconnect e a (set_peer a (p\<lparr>p_ibuf := Some s\<rparr>) w)
      | IO_PASSIVE_CLOSE \<Rightarrow> do {
          w \<leftarrow> peer_unregister e a (set_peer a (p\<lparr>p_ibuf := Some s\<rparr>) w);
          peer_delete e a w
        }
      | _ \<Rightarrow> Some (set_peer a (p\<lparr>p_ibuf := Some s\<rparr>) w))
   }"

text \<open>A connection in progress is marked established when something was read; when packets are waiting, the write
  watcher is initialised with the callback NULL, and the two statements below the inner \<open>if\<close> run in any
  case.\<close>

definition mark_established :: "env \<Rightarrow> addr \<Rightarrow> peer \<Rightarrow> peer option" where
  "mark_established e a p =
     (if p_status p \<noteq> TAT_ESTA then do {
        let p = p\<lparr>p_status := TAT_ESTA\<rparr>;
        obuf \<leftarrow> p_obuf p;
        if misaka_write_proceed obuf then do {
          t \<leftarrow> p_t_write p;
          let t = (if p_status p = TAT_ESTA \<and> ev_is_active (e_ev e) t \<noteq> 1 then ev_io_init (e_ev e) t None (p_fd p) else t);
          Some (p\<lparr>p_t_write := Some (ev_io_start (e_ev e) (t\<lparr>ev_data := Some a\<rparr>))\<rparr>)
        } else Some p
      } else Some p)"

definition check_packet :: "env \<Rightarrow> addr \<Rightarrow> world \<Rightarrow> (io_tat \<times> world) option" where
  "check_packet e a w = do {
     p \<leftarrow> w_peers w a;
     s \<leftarrow> p_ibuf p;
     (ret, s, p) \<leftarrow> (case p_unpack p of Some f \<Rightarrow> call_unpack f s p | None \<Rightarrow> Some (IO_PACKET, s, p));
     p \<leftarrow> mark_established e a (p\<lparr>p_ibuf := Some s\<rparr>);
     Some (ret, set_peer a p w)
   }"

definition misaka_read :: "env \<Rightarrow> ptr \<Rightarrow> world \<Rightarrow> world option" where
  "misaka_read e data w =
     (case data of
        None \<Rightarrow> Some w
      | Some a \<Rightarrow> do {
          p \<leftarrow> w_peers w a;
          let p = (peer_uptime_reset (e_now e) p)\<lparr>p_rcount := p_rcount p + 1\<rparr>;
          let w = set_peer a p w;
          if sint (p_fd p) < 0 then Some w
          else do {
            f \<leftarrow> p_read p;
            (ret, w) \<leftarrow> call_read e f a w;
            (ret, w) \<leftarrow> (if ret = IO_CHECK then check_packet e a w else Some (ret, w));
            read_io_action e ret a w
          }
        })"

section \<open>The periodic loops\<close>

abbreviation (input) MISAKA_ROUTE_SANDS :: nat where "MISAKA_ROUTE_SANDS \<equiv> 50"
abbreviation (input) MISAKA_TIMER_SANDS :: nat where "MISAKA_TIMER_SANDS \<equiv> 50"

text \<open>One pop of the queue of a type: the message, if there was one.\<close>

definition pop_queue :: "cint \<Rightarrow> world \<Rightarrow> (addr option \<times> world) option" where
  "pop_queue type w = do {
     a \<leftarrow> queue_of type w;
     m \<leftarrow> st_mq (w_mq w) a;
     (ret, s, m) \<leftarrow> skynet_mq_pop m;
     Some (if ret = 0 then s else None, w\<lparr>w_mq := upd_mq a m (w_mq w)\<rparr>)
   }"

fun loop_route :: "env \<Rightarrow> nat \<Rightarrow> world \<Rightarrow> world option" where
  "loop_route e 0 w = Some w"
| "loop_route e (Suc sands) w = do {
     (s, w) \<leftarrow> pop_queue EVENT_NET w;
     (case s of
        None \<Rightarrow> Some w
      | Some a \<Rightarrow> do { (_, w) \<leftarrow> misaka_packet_route e (Some a) w; loop_route e sands w })
   }"

definition misaka_packet_loop_route :: "env \<Rightarrow> world \<Rightarrow> world option" where
  "misaka_packet_loop_route e w = loop_route e MISAKA_ROUTE_SANDS w"

fun loop_timer :: "env \<Rightarrow> nat \<Rightarrow> world \<Rightarrow> world option" where
  "loop_timer e 0 w = Some w"
| "loop_timer e (Suc sands) w = do {
     (s, w) \<leftarrow> pop_queue EVENT_SYS w;
     (case s of
        None \<Rightarrow> Some w
      | Some a \<Rightarrow> do {
          q \<leftarrow> w_pk w a;
          let st = (pk_s q)\<lparr>s_type := s_stype (pk_s q), s_stype := s_type (pk_s q)\<rparr>;
          let (ret, tm) = server_timer_timeout (w_timer w) (s_interval st) a;
          loop_timer e sands (w\<lparr>w_pk := (w_pk w)(a \<mapsto> q\<lparr>pk_s := st\<rparr>), w_timer := tm\<rparr>)
        })
   }"

text \<open>The timers that fire are routed to their tasks in the order of the wheel.\<close>

fun route_all :: "env \<Rightarrow> addr list \<Rightarrow> world \<Rightarrow> world option" where
  "route_all e [] w = Some w"
| "route_all e (s # ss) w = do { w \<leftarrow> misaka_packet_task_route e s w; route_all e ss w }"

definition misaka_packet_loop_timer :: "env \<Rightarrow> world \<Rightarrow> world option" where
  "misaka_packet_loop_timer e w = do {
     w \<leftarrow> loop_timer e MISAKA_TIMER_SANDS w;
     (tm, fired) \<leftarrow> server_timer_updatetime (e_clock e) (w_timer w);
     route_all e fired (w\<lparr>w_timer := tm\<rparr>)
   }"

definition misaka_loop_watch :: "env \<Rightarrow> world \<Rightarrow> world option" where
  "misaka_loop_watch e w = misaka_packet_loop_route e w"

definition misaka_loop_sys :: "env \<Rightarrow> world \<Rightarrow> world option" where
  "misaka_loop_sys e w = misaka_packet_loop_timer e w"

end
