(* ===== verification/Server.thy ===== *)
theory Server
  imports Core
begin

text \<open>
  The whole server: plugin loading and program start of \<open>misaka/lib/core.c\<close>, the echo plugin of
  \<open>misaka/task/echo_task.c\<close>, the echo application of \<open>misaka/app/echo/main.c\<close>, and the step relation that
  interleaves the handlers of the event loop with the worker threads.
\<close>

section \<open>Plugins\<close>

text \<open>\<open>register_c_event\<close> and its two siblings store the kind and the path of a plugin; an index outside
  \<open>events[]\<close> is undefined.\<close>

definition register_event :: "plugin_type \<Rightarrow> byte list \<Rightarrow> cint \<Rightarrow> world \<Rightarrow> (int \<times> world) option" where
  "register_event plug path_str type w =
     (if 0 \<le> sint type \<and> nat (sint type) < length (w_events w) then do {
        let i = nat (sint type);
        let h = w_events w ! i;
        bs \<leftarrow> snprintf_s (eh_path h) MISAKA_PATH_SIZE path_str;
        Some (0, w\<lparr>w_events := (w_events w)[i := h\<lparr>eh_plug := plug, eh_path := bs\<rparr>]\<rparr>)
      } else None)"

definition register_c_event :: "byte list \<Rightarrow> cint \<Rightarrow> world \<Rightarrow> (int \<times> world) option" where
  "register_c_event = register_event C_PLUGIN_TYPE"

definition register_lua_event :: "byte list \<Rightarrow> cint \<Rightarrow> world \<Rightarrow> (int \<times> world) option" where
  "register_lua_event = register_event LUA_PLUGIN_TYPE"

definition register_python_event :: "byte list \<Rightarrow> cint \<Rightarrow> world \<Rightarrow> (int \<times> world) option" where
  "register_python_event = register_event PYTHON_PLUGIN_TYPE"

text \<open>What loading a plugin finds: the symbols of the shared object (\<open>None\<close> when it cannot be opened),
  the Lua function after the file has run, and the results of the Python lookups, in their order:
  module, dictionary, and the three functions.\<close>

record dl_symbols =
  dl_func :: "(stream \<Rightarrow> stream) option"
  dl_init :: bool
  dl_deinit :: bool
  dl_connect :: "(peer \<Rightarrow> peer) option"
  dl_disconnect :: "(peer \<Rightarrow> peer) option"

record loader =
  ld_dlopen :: "dl_symbols option"
  ld_lua :: lua_fn
  ld_module :: bool
  ld_dict :: bool
  ld_pFunc :: "py_fn option"
  ld_pInit :: bool
  ld_pDeinit :: bool

definition set_event :: "nat \<Rightarrow> event_handle \<Rightarrow> world \<Rightarrow> world" where
  "set_event i h w = w\<lparr>w_events := (w_events w)[i := h]\<rparr>"

definition misaka_load_event :: "loader \<Rightarrow> cint \<Rightarrow> world \<Rightarrow> int \<times> world" where
  "misaka_load_event ld type w =
     (if sint type < sint EVENT_NONE \<or> sint EVENT_MAX \<le> sint type then (-1, w)
      else
        (let i = nat (sint type);
             h = (w_events w ! i)\<lparr>eh_type := type\<rparr>;
             added = (\<lambda>h. (0, (set_event i h w)\<lparr>w_event_list := w_event_list w @ [i]\<rparr>)) in
         case eh_plug h of
           NONE_PLUGIN_TYPE \<Rightarrow> (0, set_event i h w)
         | C_PLUGIN_TYPE \<Rightarrow>
             (case ld_dlopen ld of
                None \<Rightarrow> (-1, set_event i h w)
              | Some so \<Rightarrow>
                  (let h = h\<lparr>eh_func := dl_func so, eh_init := dl_init so, eh_deinit := dl_deinit so,
                             eh_connect := dl_connect so, eh_disconnect := dl_disconnect so\<rparr> in
                   if \<not> eh_init h \<or> \<not> eh_deinit h \<or> \<not> eh_deinit h \<or> eh_connect h = None \<or> eh_disconnect h = None
                   then (-1, set_event i (h\<lparr>eh_chandle := False\<rparr>) w)
                   else added (h\<lparr>eh_chandle := True\<rparr>)))
         | LUA_PLUGIN_TYPE \<Rightarrow>
             added (h\<lparr>eh_lhandle := Some (ld_lua ld), eh_init := False, eh_deinit := False, eh_connect := None, eh_disconnect := None\<rparr>)
         | PYTHON_PLUGIN_TYPE \<Rightarrow>
             (if \<not> ld_module ld then (-1, set_event i h w)
              else if \<not> ld_dict ld then (-1, set_event i h w)
              else
                (let h = h\<lparr>eh_pFunc := ld_pFunc ld\<rparr> in
                 if ld_pFunc ld = None then (-1, set_event i h w)
                 else if \<not> ld_pInit ld then (-1, set_event i h w)
                 else if \<not> ld_pDeinit ld then (-1, set_event i h w)
                 else added h))
         | _ \<Rightarrow> (-1, set_event i h w)))"

definition misaka_disload_event :: "cint \<Rightarrow> world \<Rightarrow> int \<times> world" where
  "misaka_disload_event type w =
     (if sint type < sint EVENT_NONE \<or> sint EVENT_MAX \<le> sint type then (-1, w)
      else
        (let i = nat (sint type);
             h = w_events w ! i;
             removed = (\<lambda>h. (0, (set_event i h w)\<lparr>w_event_list := remove1 i (w_event_list w)\<rparr>)) in
         case eh_plug h of
           NONE_PLUGIN_TYPE \<Rightarrow> (0, w)
         | C_PLUGIN_TYPE \<Rightarrow>
             removed (h\<lparr>eh_func := None, eh_init := False, eh_deinit := False, eh_connect := None, eh_disconnect := None, eh_chandle := False\<rparr>)
         | LUA_PLUGIN_TYPE \<Rightarrow> removed (h\<lparr>eh_lhandle := None\<rparr>)
         | PYTHON_PLUGIN_TYPE \<Rightarrow> removed h
         | _ \<Rightarrow> (-1, w)))"

text \<open>The echo plugin.\<close>

definition misaka_handle :: "stream \<Rightarrow> stream" where
  "misaka_handle s = s\<lparr>s_src := s_dst s, s_dst := s_src s, s_type := EVENT_NET\<rparr>"

definition misaka_connect :: "peer \<Rightarrow> peer" where
  "misaka_connect p = p"

definition misaka_disconnect :: "peer \<Rightarrow> peer" where
  "misaka_disconnect p = p"

definition echo_symbols :: dl_symbols where
  "echo_symbols = \<lparr>dl_func = Some misaka_handle, dl_init = True, dl_deinit = True,
     dl_connect = Some misaka_connect, dl_disconnect = Some misaka_disconnect\<rparr>"

section \<open>Program start\<close>

definition zero_event :: event_handle where
  "zero_event = \<lparr>eh_path = replicate MISAKA_PATH_SIZE 0, eh_func = None, eh_init = False, eh_deinit = False,
     eh_connect = None, eh_disconnect = None, eh_lhandle = None, eh_pFunc = None, eh_chandle = False,
     eh_type = 0, eh_plug = NONE_PLUGIN_TYPE\<rparr>"

text \<open>What \<open>core_init\<close> gets from outside: which of its allocations succeed (event loop, peer list, hash table, event list,
  identifier pool, thread pool, the two periodic watchers), the clocks, the contents of the memory of the identifier
  pool, and the addresses of the four queues. The allocations inside \<open>server_timer_init\<close>,
  \<open>skynet_mq_init\<close> and \<open>skynet_mq_create\<close> succeed.\<close>

record boot =
  bt_loop :: bool
  bt_realtime :: timespec
  bt_monotonic :: timespec
  bt_peer_list :: bool
  bt_hash :: bool
  bt_event_list :: bool
  bt_idmaker :: bool
  bt_id_garbage :: cint
  bt_queues :: "addr list"
  bt_thpool :: bool
  bt_watch :: bool
  bt_old :: bool

definition create_queues :: "addr list \<Rightarrow> addr mq_state \<Rightarrow> addr mq_state" where
  "create_queues qs st = fold (\<lambda>(i, a) st. upd_mq a (skynet_mq_create (of_nat i)) st) (enumerate 0 qs) st"

text \<open>The comparison function put into the two lists is never called: nothing sorts them.\<close>

definition core_init :: "boot \<Rightarrow> world \<Rightarrow> (int \<times> world) option" where
  "core_init b w =
     (let w = w\<lparr>w_events := replicate 4 zero_event\<rparr> in
      if \<not> bt_loop b then Some (-1, w)
      else
        (let w = w\<lparr>w_timer := server_timer_init (bt_realtime b) (bt_monotonic b)\<rparr> in
         if \<not> bt_peer_list b then Some (-1, w)
         else if \<not> bt_hash b then None
         else do {
           h \<leftarrow> hash_create (peer_key (w_peers w)) (peer_cmp (w_peers w));
           let w = w\<lparr>w_peer_list := [], w_hash := h\<rparr>;
           if \<not> bt_event_list b then Some (-1, w)
           else do {
             let w = w\<lparr>w_event_list := []\<rparr>;
             if \<not> bt_idmaker b then Some (-1, w)
             else do {
               let w = w\<lparr>w_mid := idmaker_new (bt_id_garbage b) 100 99999,
                         w_mq := create_queues (bt_queues b) (skynet_mq_init (w_mq w)), w_queues := bt_queues b\<rparr>;
               if \<not> bt_thpool b then Some (-1, w)
               else if \<not> bt_watch b \<or> \<not> bt_old b then None
               else Some (0, w)
             }
           }
         }))"

text \<open>The loop of \<open>core_run\<close> that loads the events, before the event loop is entered.\<close>

fun load_loop :: "loader \<Rightarrow> cint list \<Rightarrow> world \<Rightarrow> int \<times> world" where
  "load_loop ld [] w = (0, w)"
| "load_loop ld (i # is) w =
     (case misaka_load_event ld i w of (ret, w) \<Rightarrow> if ret < 0 then (-1, w) else load_loop ld is w)"

definition core_run_load :: "loader \<Rightarrow> world \<Rightarrow> int \<times> world" where
  "core_run_load ld w = load_loop ld [0, 1, 2, 3] w"

abbreviation (input) ROLE_TCP :: cint where "ROLE_TCP \<equiv> 2"
abbreviation (input) ROLE_SERVER :: cint where "ROLE_SERVER \<equiv> 3"
abbreviation (input) TCP_DSTPORT :: cint where "TCP_DSTPORT \<equiv> 8002"

text \<open>The echo application's \<open>core_register\<close>; \<open>lua_path\<close> is the path literal. The result of \<open>tcp_listen_init\<close> is used
  unchecked, and the number it is given is overwritten by \<open>peer_register\<close>.\<close>

definition core_register :: "env \<Rightarrow> byte list \<Rightarrow> world \<Rightarrow> (int \<times> world) option" where
  "core_register e lua_path w = do {
     (_, w) \<leftarrow> register_lua_event lua_path EVENT_ECHO w;
     let w = w\<lparr>w_role := ROLE_SERVER\<rparr>;
     let (r, w) = tcp_listen_init e TCP_DSTPORT w;
     a \<leftarrow> r;
     p \<leftarrow> w_peers w a;
     let p = p\<lparr>p_parser := Some Parser_normal, p_listens := 3, p_on_connect := 1, p_on_disconnect := 1,
               p_role := ROLE_SERVER, p_drole := ROLE_TCP\<rparr>;
     w \<leftarrow> peer_register e a (set_peer a p w);
     (_, w) \<leftarrow> misaka_start e a w;
     Some (0, w)
   }"

text \<open>\<open>main\<close> of the echo application. The options are the characters \<open>getopt\<close> returns; any but \<open>d\<close> ends the program with 1. The
  results of \<open>daemon\<close> and \<open>core_init\<close> are ignored. The result is the exit status, or \<open>None\<close> when the endless event
  loop is entered.\<close>

fun opt_loop :: "string \<Rightarrow> bool \<Rightarrow> bool option" where
  "opt_loop [] background = Some background"
| "opt_loop (opt # opts) background = (if opt = CHR ''d'' then opt_loop opts True else None)"

definition echo_main :: "string \<Rightarrow> boot \<Rightarrow> env \<Rightarrow> byte list \<Rightarrow> loader \<Rightarrow> world \<Rightarrow> (int option \<times> world) option" where
  "echo_main opts b e lua_path ld w =
     (case opt_loop opts False of
        None \<Rightarrow> Some (Some 1, w)
      | Some background \<Rightarrow> do {
          (_, w) \<leftarrow> core_init b w;
          (_, w) \<leftarrow> core_register e lua_path w;
          let (ret, w) = core_run_load ld w;
          Some (if ret < 0 then Some 0 else None, w)
        })"

section \<open>The running server\<close>

text \<open>The world and the running workers.\<close>

record server =
  sv_world :: world
  sv_workers :: "nat \<Rightarrow> worker option"

text \<open>A worker processes what it popped before its next call, unless the queue is the one of the network: then
  the packet is dropped.\<close>

definition worker_turn :: "env \<Rightarrow> worker \<Rightarrow> world \<Rightarrow> (worker option \<times> world) option" where
  "worker_turn e k w = do {
     (k', s, mq) \<leftarrow> worker_step k (w_mq w);
     let w = w\<lparr>w_mq := mq\<rparr>;
     (case (s, w_q k) of
        (Some s, Some a) \<Rightarrow> do {
          q \<leftarrow> st_mq mq a;
          (if skynet_mq_handle q \<noteq> EVENT_NET then do { w \<leftarrow> misaka_packet_process e s w; Some (k', w) }
           else Some (k', w))
        }
      | _ \<Rightarrow> Some (k', w))
   }"

text \<open>A step of the server: a handler of the event loop, a pool thread taking a job, or a turn of a running
  worker.\<close>

inductive server_step :: "server \<Rightarrow> server \<Rightarrow> bool" where
  on_connect: "misaka_start_thread e (Some a) (sv_world s) = Some w \<Longrightarrow> server_step s (s\<lparr>sv_world := w\<rparr>)"
| on_read: "misaka_read e (Some a) (sv_world s) = Some w \<Longrightarrow> server_step s (s\<lparr>sv_world := w\<rparr>)"
| on_write: "misaka_write e (Some a) (sv_world s) = Some w \<Longrightarrow> server_step s (s\<lparr>sv_world := w\<rparr>)"
| on_watch: "misaka_loop_watch e (sv_world s) = Some w \<Longrightarrow> server_step s (s\<lparr>sv_world := w\<rparr>)"
| on_sys: "misaka_loop_sys e (sv_world s) = Some w \<Longrightarrow> server_step s (s\<lparr>sv_world := w\<rparr>)"
| take_job: "0 < w_jobs (sv_world s) \<Longrightarrow> sv_workers s t = None \<Longrightarrow>
    server_step s (s\<lparr>sv_world := (sv_world s)\<lparr>w_jobs := w_jobs (sv_world s) - 1\<rparr>,
      sv_workers := (sv_workers s)(t \<mapsto> worker_start)\<rparr>)"
| work: "sv_workers s t = Some k \<Longrightarrow> worker_turn e k (sv_world s) = Some (k', w) \<Longrightarrow>
    server_step s (s\<lparr>sv_world := w, sv_workers := (sv_workers s)(t := k')\<rparr>)"

inductive server_reach :: "server \<Rightarrow> server \<Rightarrow> bool" where
  start: "server_reach s s"
| step: "server_reach s t \<Longrightarrow> server_step t u \<Longrightarrow> server_reach s u"

inductive_cases server_stepE: "server_step s t"

end
