(* ===== verification/Shutdown.thy ===== *)
theory Shutdown
  imports Server
begin

text \<open>
  What happens when a connection ends: no function of the program ever sets the \<open>disparser\<close> callback of a
  peer, and \<open>misaka_stop\<close> calls it unchecked. The theory shows that this is so in every reachable state of the
  server, whatever the environment answers, as long as the plugins leave the callback alone.
\<close>

named_theorems silent_intros "operations that leave every disparser callback NULL"

section \<open>The invariant\<close>

text \<open>The connect and disconnect functions of the plugins do not touch the callback.\<close>

definition plugins_keep :: "event_handle list \<Rightarrow> nat list \<Rightarrow> bool" where
  "plugins_keep evs is \<longleftrightarrow> (\<forall>i\<in>set is. i < length evs) \<and>
     (\<forall>h\<in>set evs. \<forall>f p. eh_connect h = Some f \<or> eh_disconnect h = Some f \<longrightarrow> p_disparser (f p) = p_disparser p)"

definition silent :: "world \<Rightarrow> bool" where
  "silent w \<longleftrightarrow> plugins_keep (w_events w) (w_event_list w) \<and> (\<forall>a p. w_peers w a = Some p \<longrightarrow> p_disparser p = None)"

lemma silentD: "silent w \<Longrightarrow> w_peers w a = Some p \<Longrightarrow> p_disparser p = None"
  by (simp add: silent_def)

lemma silent_updates [simp]:
  "silent (w\<lparr>w_pk := x1\<rparr>) = silent w" "silent (w\<lparr>w_peer_list := x2\<rparr>) = silent w" "silent (w\<lparr>w_hash := x3\<rparr>) = silent w"
  "silent (w\<lparr>w_mid := x4\<rparr>) = silent w" "silent (w\<lparr>w_role := x5\<rparr>) = silent w" "silent (w\<lparr>w_mq := x6\<rparr>) = silent w"
  "silent (w\<lparr>w_jobs := x7\<rparr>) = silent w" "silent (w\<lparr>w_timer := x8\<rparr>) = silent w" "silent (w\<lparr>w_closed := x9\<rparr>) = silent w"
  "silent (w\<lparr>w_sent := x10\<rparr>) = silent w"
  by (simp_all add: silent_def)

lemma silent_upd_peers: "silent w \<Longrightarrow> p_disparser p = None \<Longrightarrow> silent (w\<lparr>w_peers := (w_peers w)(a \<mapsto> p)\<rparr>)"
  by (simp add: silent_def)

lemma silent_set_peer: "silent w \<Longrightarrow> p_disparser p = None \<Longrightarrow> silent (set_peer a p w)"
  by (simp add: set_peer_def silent_upd_peers)

lemma fold_keeps: "(\<And>i p. i \<in> set is \<Longrightarrow> D (g i p) = D p) \<Longrightarrow> D (fold g is p) = D p"
  by (induction "is" arbitrary: p) auto

lemma plugin_keeps:
  assumes "plugins_keep evs is" "i \<in> set is" "eh_connect (evs ! i) = Some f \<or> eh_disconnect (evs ! i) = Some f"
  shows "p_disparser (f p) = p_disparser p"
  using assms nth_mem unfolding plugins_keep_def by metis

lemma run_plugins_keep:
  assumes "plugins_keep (w_events w) (w_event_list w)"
  shows "p_disparser (run_connect w p) = p_disparser p" "p_disparser (run_disconnect w p) = p_disparser p"
  unfolding run_connect_def run_disconnect_def
  by (rule fold_keeps; use plugin_keeps [OF assms] in \<open>auto split: option.split\<close>)+

lemma silent_plugins: "silent w \<Longrightarrow> plugins_keep (w_events w) (w_event_list w)"
  by (simp add: silent_def)

section \<open>The life of a peer\<close>

lemma stop_undefined: "silent w \<Longrightarrow> misaka_stop e a w = None"
  by (auto simp: misaka_stop_def peer_uptime_reset_def Let_def dest: silentD split: Option.bind_splits option.split)

lemma close_undefined:
  assumes "silent w"
  shows "misaka_reconnect e a w = None" "peer_delete e a w = None"
  using assms by (simp_all add: misaka_reconnect_def peer_delete_def stop_undefined)

lemma silent_register [silent_intros]: "peer_register e a w = Some w' \<Longrightarrow> silent w \<Longrightarrow> silent w'"
  using run_plugins_keep(1) [OF silent_plugins]
  by (auto simp: peer_register_def Let_def silentD intro!: silent_upd_peers split: Option.bind_splits)

lemma silent_unregister [silent_intros]: "peer_unregister e a w = Some w' \<Longrightarrow> silent w \<Longrightarrow> silent w'"
  using run_plugins_keep(2) [OF silent_plugins]
  by (auto simp: peer_unregister_def Let_def silentD intro!: silent_upd_peers split: Option.bind_splits)

lemma parser_keeps [simp]: "p_disparser (run_parser f p) = p_disparser p"
  by (cases f) (simp add: run_parser_def normal_parser_init_def)

lemma nonblock_keeps:
  "nonblock_fd e p w = (p', w') \<Longrightarrow> p_disparser p' = p_disparser p \<and> silent w' = silent w"
  by (auto simp: nonblock_fd_def split: if_splits)

lemma watch_keeps: "watch_read e a p = Some p' \<Longrightarrow> p_disparser p' = p_disparser p"
  by (auto simp: watch_read_def split: Option.bind_splits)

lemma silent_success [silent_intros]:
  assumes "misaka_start_success e a w = Some w'" "silent w"
  shows "silent w'"
proof -
  from assms obtain p where p: "w_peers w a = Some p"
    by (auto simp: misaka_start_success_def split: Option.bind_splits)
  let ?w = "set_peer a (peer_uptime_reset (e_now e) (p\<lparr>p_status := TAT_ESTA\<rparr>)) w"
  have "silent ?w"
    using assms(2) p by (intro silent_set_peer) (auto simp: peer_uptime_reset_def dest: silentD)
  then show ?thesis
    using assms(1) p
    by (auto simp: misaka_start_success_def Let_def dest!: nonblock_keeps watch_keeps silent_register
        dest: silentD intro!: silent_set_peer split: Option.bind_splits prod.splits if_splits)
qed

lemma silent_progress [silent_intros]:
  "misaka_start_progress e a w = Some w' \<Longrightarrow> silent w \<Longrightarrow> silent w'"
  by (auto simp: misaka_start_progress_def Let_def peer_uptime_reset_def dest!: nonblock_keeps watch_keeps
      dest: silentD intro!: silent_set_peer split: Option.bind_splits prod.splits)

lemma silent_parser:
  assumes "w_peers w a = Some p" "p_parser p = Some f" "silent w"
  shows "silent (set_peer a (run_parser f p) w)"
  using assms by (intro silent_set_peer) (auto dest: silentD)

lemma silent_start [silent_intros]:
  assumes "misaka_start e a w = Some (r, w')" "silent w"
  shows "silent w'"
proof -
  from assms obtain p where p: "w_peers w a = Some p"
    by (auto simp: misaka_start_def split: Option.bind_splits)
  have q: "silent (set_peer a (p\<lparr>p_t_connect := c\<rparr>) w)" for c
    using assms(2) p by (intro silent_set_peer) (auto dest: silentD)
  show ?thesis
  proof (cases "p_quick p \<noteq> 0")
    case True
    then obtain v where "misaka_start_success e a w = Some v"
      "do { p \<leftarrow> w_peers v a; f \<leftarrow> p_parser p; Some (0, set_peer a (run_parser f p) v) } = Some (r, w')"
      using assms(1) p by (auto simp: misaka_start_def split: Option.bind_splits)
    then show ?thesis
      using silent_success [of e a w v] assms(2) silent_parser [of v a] by (auto split: Option.bind_splits)
  next
    case False
    then show ?thesis
      using assms(1) p q silent_parser [OF _ _ q]
      by (auto simp: misaka_start_def Let_def split: Option.bind_splits option.splits)
  qed
qed

lemma silent_trigger [silent_intros]:
  "connect_status_trigger e st a w = Some w' \<Longrightarrow> silent w \<Longrightarrow> silent w'"
  by (auto simp: connect_status_trigger_def stop_connect_def dest!: silent_success silent_progress dest: silentD
      intro!: silent_set_peer split: Option.bind_splits connect_result.splits)

section \<open>The links\<close>

lemma silent_new: "peer_new e w = (r, w') \<Longrightarrow> silent w \<Longrightarrow> silent w'"
  by (auto simp: peer_new_def peer_init_def zero_peer_def Let_def intro!: silent_set_peer split: option.splits if_splits)

lemma silent_with_new:
  assumes "with_new f (r, w) = (r', w')" "\<And>p. p_disparser (f p) = p_disparser p" "silent w"
  shows "silent w'"
  using assms by (auto simp: with_new_def silent_def split: option.splits if_splits)

lemma silent_passive_init:
  assumes "tcp_passive_init e su fd w = (r, w')" "silent w"
  shows "silent w'"
proof -
  obtain r1 w1 where n: "peer_new e w = (r1, w1)"
    by fastforce
  then show ?thesis
    using assms silent_new [OF n assms(2)] by (auto simp: tcp_passive_init_def elim!: silent_with_new)
qed

lemma silent_accept [silent_intros]:
  assumes "tcp_accept e a w = Some (r, w')" "silent w"
  shows "silent w'"
proof (cases "sint (fst (e_accept e)) < 0")
  case True
  then show ?thesis
    using assms by (simp add: tcp_accept_def sockunion_accept_def split_beta)
next
  case False
  obtain c w1 where i: "tcp_passive_init e (snd (e_accept e)) (fst (e_accept e)) w = (c, w1)"
    by fastforce
  note s = silent_passive_init [OF i assms(2)]
  show ?thesis
  proof (cases c)
    case None
    then show ?thesis
      using False i assms(1) s by (auto simp: tcp_accept_def sockunion_accept_def split_beta)
  next
    case (Some b)
    then obtain p q where "w_peers w1 a = Some p" "w_peers w1 b = Some q"
      using False i assms(1) by (auto simp: tcp_accept_def sockunion_accept_def split_beta split: Option.bind_splits)
    then show ?thesis
      using False Some i assms(1) silentD [OF s]
      by (auto simp: tcp_accept_def sockunion_accept_def Let_def split_beta split: Option.bind_splits if_splits
          intro!: silent_set_peer s elim!: silent_start)
  qed
qed

lemma reads_keep:
  "tcp_read e p = Some (r, p') \<Longrightarrow> p_disparser p' = p_disparser p"
  "udp_read e p = Some (r, p') \<Longrightarrow> p_disparser p' = p_disparser p"
  "ludp_read e p = Some (r, p') \<Longrightarrow> p_disparser p' = p_disparser p"
  "sdio_read e p = Some (r, p') \<Longrightarrow> p_disparser p' = p_disparser p"
  by (auto simp: tcp_read_def udp_read_def ludp_read_def sdio_read_def Let_def split: Option.bind_splits if_splits)

lemma silent_call_read [silent_intros]:
  "call_read e f a w = Some (r, w') \<Longrightarrow> silent w \<Longrightarrow> silent w'"
  by (auto simp: call_read_def Let_def dest!: reads_keep dest: silentD intro!: silent_set_peer elim!: silent_accept
      split: read_fn.splits Option.bind_splits)

lemma silent_write_with:
  "write_with lp a w = Some (n, w') \<Longrightarrow> silent w \<Longrightarrow> silent w'"
  by (auto simp: write_with_def dest: silentD intro!: silent_set_peer split: Option.bind_splits option.splits)

lemma silent_call_write [silent_intros]:
  "call_write e f a w = Some (n, w') \<Longrightarrow> silent w \<Longrightarrow> silent w'"
  by (auto simp: call_write_def tcp_write_def udp_write_def ludp_write_def sdio_write_def
      elim!: silent_write_with split: write_fn.splits)

lemma call_start_keeps: "call_start e f p = (st, p', cl) \<Longrightarrow> p_disparser p' = p_disparser p"
  by (cases f) (auto simp: call_start_def tcp_connect_def tcp_listen_def tcp_passive_def udp_connect_def
      ludp_connect_def sdio_connect_def Let_def split: if_splits prod.splits)

lemma call_unpack_keeps: "call_unpack f s p = Some (r, s', p') \<Longrightarrow> p_disparser p' = p_disparser p"
  by (cases f) (auto simp: call_unpack_def normal_parser_unpack_def Let_def split: Option.bind_splits if_splits)

section \<open>The handlers\<close>

lemma silent_task_route [silent_intros]: "misaka_packet_task_route e s w = Some w' \<Longrightarrow> silent w \<Longrightarrow> silent w'"
  by (auto simp: misaka_packet_task_route_def split: Option.bind_splits)

lemma silent_net_route [silent_intros]: "misaka_packet_net_route e s w = Some w' \<Longrightarrow> silent w \<Longrightarrow> silent w'"
  by (auto simp: misaka_packet_net_route_def Let_def split: Option.bind_splits)

lemma watch_write_keeps: "watch_write e a p = Some p' \<Longrightarrow> p_disparser p' = p_disparser p"
  by (auto simp: watch_write_def split: Option.bind_splits if_splits)

lemma silent_route_loop:
  assumes "route_loop e a ts w = Some w'" "silent w"
  shows "silent w'"
proof -
  have "silent w \<longrightarrow> silent w'"
  proof (rule route_loop.raw_induct [where P = "\<lambda>e a ts w w'. silent w \<longrightarrow> silent w'", OF _ assms(1)], goal_cases)
    case (1 rl e a ts w w')
    have *: "silent w'" if "silent w" "w_peers w a = Some p" "watch_write e a (p\<lparr>p_obuf := ob\<rparr>) = Some p'"
      "rl e a ts' (set_peer a p' (w\<lparr>w_pk := pk\<rparr>)) = Some w'" for p ob p' ts' pk
      using 1(1) [OF that(4)] that(1) silentD [OF that(1,2)] watch_write_keeps [OF that(3)]
      by (simp add: silent_set_peer)
    from 1(2) show ?case
      using * by (auto split: option.splits Option.bind_splits)
  qed
  then show ?thesis
    using assms(2) by simp
qed

lemma silent_route [silent_intros]: "misaka_packet_route e s w = Some (r, w') \<Longrightarrow> silent w \<Longrightarrow> silent w'"
  using silent_route_loop by (auto simp: misaka_packet_route_def split: option.splits Option.bind_splits if_splits)

lemma silent_process_one:
  assumes "process_one e s h w = Some (c, w')" "silent w"
  shows "silent w'"
proof -
  have n: "silent v" if "misaka_packet_net_route e s (w\<lparr>w_pk := pk\<rparr>) = Some v" for pk v
    using silent_net_route [OF that] assms(2) by simp
  have t: "silent v" if "misaka_packet_task_route e s (w\<lparr>w_pk := pk\<rparr>) = Some v" for pk v
    using silent_task_route [OF that] assms(2) by simp
  show ?thesis
    using assms by (auto simp: process_one_def Let_def dest: n t split: if_splits Option.bind_splits)
qed

lemma silent_process_loop: "process_loop e type s is w = Some w' \<Longrightarrow> silent w \<Longrightarrow> silent w'"
proof (induction "is" arbitrary: w)
  case (Cons i "is")
  then show ?case
    by (auto dest: silent_process_one split: if_splits Option.bind_splits)
qed simp

lemma silent_process [silent_intros]: "misaka_packet_process e s w = Some w' \<Longrightarrow> silent w \<Longrightarrow> silent w'"
  by (auto simp: misaka_packet_process_def Let_def elim: silent_process_loop split: Option.bind_splits if_splits)

lemma silent_start_thread [silent_intros]:
  assumes "misaka_start_thread e d w = Some w'" "silent w"
  shows "silent w'"
proof -
  have "silent w'" if "w_peers w a = Some p" "call_start e f p = (st, p', cl)"
    "connect_status_trigger e st a (set_peer a p' (w\<lparr>w_closed := cl @ w_closed w\<rparr>)) = Some w'" for a p f st p' cl
    using silent_trigger [OF that(3)] call_start_keeps [OF that(2)] silentD [OF assms(2) that(1)] assms(2)
    by (simp add: silent_set_peer)
  then show ?thesis
    using assms by (auto simp: misaka_start_thread_def Let_def split: option.splits Option.bind_splits if_splits prod.splits)
qed

lemma silent_write: "silent w \<Longrightarrow> post (misaka_write e d w) silent"
  unfolding misaka_write_def
  by (intro post_intros)
    (auto simp: close_undefined post_def dest!: silent_unregister dest: silent_call_write silentD silentD [OF silent_call_write]
      intro!: silent_set_peer)

lemma silent_clone: "clone_ibuf e s w = Some (r, w') \<Longrightarrow> silent w \<Longrightarrow> silent w'"
  by (auto simp: clone_ibuf_def split: Option.bind_splits option.splits prod.splits)

lemma silent_deliver: "silent w \<Longrightarrow> post (deliver_packet e a s w) silent"
  unfolding deliver_packet_def
  by (intro post_intros)
    (auto simp: post_def misaka_packet_sys_route_def dest: silent_clone silent_task_route [OF _ silent_clone] silent_route [OF _ silent_clone]
      split: Option.bind_splits)

lemma action_close:
  assumes "silent w" "ev = IO_PASSIVE_CLOSE \<or> ev = IO_CLOSE"
  shows "read_io_action e ev a w = None"
proof -
  have s: "silent (set_peer a (p\<lparr>p_ibuf := ib\<rparr>) w)" if "w_peers w a = Some p" for p ib
    using that assms(1) by (auto intro!: silent_set_peer dest: silentD)
  show ?thesis
    using assms(2) close_undefined [OF s] silent_unregister [OF _ s] close_undefined(2)
    by (auto simp: read_io_action_def Let_def split: Option.bind_splits)
qed

lemma silent_action:
  assumes "silent w"
  shows "post (read_io_action e ev a w) silent"
proof -
  have s: "silent (set_peer a (p\<lparr>p_ibuf := ib\<rparr>) w)" if "w_peers w a = Some p" for p ib
    using that assms by (auto intro!: silent_set_peer dest: silentD)
  show ?thesis
  proof (cases "ev = IO_PASSIVE_CLOSE \<or> ev = IO_CLOSE")
    case True
    then show ?thesis
      using action_close [OF assms] by (simp add: post_return)
  next
    case False
    then show ?thesis
      unfolding read_io_action_def
      by (intro post_intros; cases ev)
        (auto intro!: post_intros s silent_set_peer dest!: postD [OF silent_deliver [OF s]] dest: silentD)
  qed
qed

lemma mark_keeps: "post (mark_established e a p) (\<lambda>p'. p_disparser p' = p_disparser p)"
  unfolding mark_established_def by (intro post_intros) auto

lemma silent_check: "silent w \<Longrightarrow> post (check_packet e a w) (\<lambda>(r, w'). silent w')"
  unfolding check_packet_def
  by (intro post_intros)
    (auto dest!: call_unpack_keeps postD [OF mark_keeps] dest: silentD intro!: silent_set_peer split: option.splits)

lemma silent_read:
  assumes "silent w"
  shows "post (misaka_read e d w) silent"
proof -
  have s: "silent (set_peer a ((peer_uptime_reset t p)\<lparr>p_rcount := n\<rparr>) w)" if "w_peers w a = Some p" for a p n t
    using that assms by (auto intro!: silent_set_peer dest: silentD simp: peer_uptime_reset_def)
  show ?thesis
    unfolding misaka_read_def
    by (intro post_intros)
      (auto simp: assms intro!: s post_intros silent_action dest!: silent_call_read [OF _ s] dest: postD [OF silent_check] split: if_splits)
qed

lemma silent_pop: "pop_queue type w = Some (s, w') \<Longrightarrow> silent w' = silent w"
  by (auto simp: pop_queue_def split: Option.bind_splits if_splits)

lemma silent_loop_route: "silent w \<Longrightarrow> post (loop_route e n w) silent"
proof (induction n arbitrary: w)
  case (Suc n)
  show ?case
    unfolding loop_route.simps
    by (intro post_intros) (use Suc silent_pop in \<open>auto dest: silent_route\<close>)
qed (simp add: post_intros)

lemma silent_loop_timer: "silent w \<Longrightarrow> post (loop_timer e n w) silent"
proof (induction n arbitrary: w)
  case (Suc n)
  show ?case
    unfolding loop_timer.simps
    by (intro post_intros Suc.IH) (use Suc silent_pop in auto)
qed (simp add: post_intros)

lemma silent_route_all: "silent w \<Longrightarrow> post (route_all e ss w) silent"
proof (induction ss arbitrary: w)
  case (Cons s ss)
  show ?case
    unfolding route_all.simps
    by (intro post_intros Cons.IH) (use Cons in \<open>auto dest: silent_task_route\<close>)
qed (simp add: post_intros)

lemma silent_sys: "silent w \<Longrightarrow> post (misaka_loop_sys e w) silent"
  unfolding misaka_loop_sys_def misaka_packet_loop_timer_def
  by (intro post_intros silent_route_all) (auto dest: postD [OF silent_loop_timer])

lemma silent_turn:
  assumes "silent w"
  shows "post (worker_turn e k w) (\<lambda>(k', w'). silent w')"
proof -
  have "silent v" if "misaka_packet_process e s (w\<lparr>w_mq := mq\<rparr>) = Some v" for s mq v
    using silent_process [OF that] assms by simp
  then show ?thesis
    unfolding worker_turn_def using assms by (intro post_intros) (auto intro!: post_intros split: option.split)
qed

lemma silent_server_step:
  assumes "server_step s t" "silent (sv_world s)"
  shows "silent (sv_world t)"
  using assms(1)
proof cases
  case on_connect
  then show ?thesis
    using assms(2) by (auto dest: silent_start_thread)
next
  case on_read
  then show ?thesis
    using postD [OF silent_read [OF assms(2)]] by simp
next
  case on_write
  then show ?thesis
    using postD [OF silent_write [OF assms(2)]] by simp
next
  case on_watch
  then show ?thesis
    using postD [OF silent_loop_route [OF assms(2)]] by (simp add: misaka_loop_watch_def misaka_packet_loop_route_def)
next
  case on_sys
  then show ?thesis
    using postD [OF silent_sys [OF assms(2)]] by simp
next
  case take_job
  then show ?thesis
    using assms(2) by simp
next
  case work
  then show ?thesis
    using postD [OF silent_turn [OF assms(2)]] by fastforce
qed

lemma silent_reach: "server_reach s t \<Longrightarrow> silent (sv_world s) \<Longrightarrow> silent (sv_world t)"
  by (induction rule: server_reach.induct) (auto dest: silent_server_step)

section \<open>Properties\<close>


definition doomed_peer :: peer where
  "doomed_peer = zero_peer\<lparr>p_fd := 9, p_mode := MODE_PASSIVE, p_read := Some Read_tcp, p_ibuf := Some (blank_stream 256),
     p_obuf := Some stream_fifo_new, p_packet_size := 32, p_parser := Some Parser_normal, p_status := TAT_ESTA\<rparr>"


end
