(* ===== verification/Boot.thy ===== *)
theory Boot
  imports Shutdown
begin

text \<open>
  Program start: what \<open>core_init\<close> of \<open>misaka/lib/core.c\<close> establishes. After it the invariants of the components
  hold that the other theories assume of the running server.
\<close>

section \<open>The queues of the world\<close>

text \<open>The queue of a type can take a message.\<close>

definition ready :: "cint \<Rightarrow> world \<Rightarrow> addr \<Rightarrow> bool" where
  "ready type w a \<longleftrightarrow> queue_of type w = Some a \<and> st_mq (w_mq w) a \<noteq> None \<and>
     int (length (msgs (w_mq w) a)) + 1 < 2 ^ 30 \<and> (flag (w_mq w) a = 0 \<longrightarrow> a \<notin> set (glist (w_mq w)))"

lemma queue_of_cong: "w_queues w' = w_queues w \<Longrightarrow> queue_of type w' = queue_of type w"
  by (simp add: queue_of_def)

lemma queue_of_update [simp]: "queue_of type (w_pk_update f w) = queue_of type w" "queue_of type (w_mq_update g w) = queue_of type w"
  "queue_of type (w_jobs_update h w) = queue_of type w" "queue_of type (set_peer a p w) = queue_of type w"
  by (simp_all add: queue_of_def set_peer_def)

lemma ready_update [simp]: "ready type (w_pk_update f w) = ready type w" "ready type (w_jobs_update h w) = ready type w"
  "ready type (set_peer a p w) = ready type w"
  by (simp_all add: ready_def fun_eq_iff) (simp_all add: set_peer_def)

lemma ready_room: "ready type w a \<Longrightarrow> \<exists>q. st_mq (w_mq w) a = Some q \<and> ring_room q"
  by (auto simp: ready_def msgs_def ring_room_def)

text \<open>No operation of a queue changes its handle.\<close>

definition handle_of :: "'m mq_state \<Rightarrow> addr \<Rightarrow> u32 option" where
  "handle_of st a = map_option mq_handle (st_mq st a)"

lemma handle_body: "handle_of st a = map_option mq_handle (body st a)"
  by (cases "st_mq st a") (simp_all add: handle_of_def body_def)

lemma handle_upd: "st_mq st a = Some q \<Longrightarrow> mq_handle q' = mq_handle q \<Longrightarrow> handle_of (upd_mq a q' st) = handle_of st"
  by (auto simp: handle_of_def upd_mq_def)

lemma pop_handle: "skynet_mq_pop q = Some (r, s, q') \<Longrightarrow> mq_handle q' = mq_handle q"
  by (auto simp: skynet_mq_pop_def Let_def bind_eq_Some_conv split: if_splits)

lemma ring_push_handle: "ring_push alloc q m = Some q' \<Longrightarrow> mq_handle q' = mq_handle q"
  by (auto simp: ring_push_def expand_queue_def Let_def split: if_splits)

lemma globalmq_push_handle: "skynet_globalmq_push a st = Some st' \<Longrightarrow> handle_of st' = handle_of st"
  by (auto simp: skynet_globalmq_push_def bind_eq_Some_conv handle_of_def upd_mq_def fun_eq_iff split: option.splits)

lemma push_handle: "skynet_mq_push alloc a m st = Some st' \<Longrightarrow> handle_of st' = handle_of st"
  by (auto simp: skynet_mq_push_def bind_eq_Some_conv handle_upd dest!: ring_push_handle globalmq_push_handle split: if_splits)

lemma pop_queue_handle: "pop_queue type w = Some (s, w') \<Longrightarrow> handle_of (w_mq w') = handle_of (w_mq w)"
  by (auto simp: pop_queue_def bind_eq_Some_conv handle_upd dest!: pop_handle)

section \<open>The created queues\<close>

lemma create_loop:
  assumes "distinct qs"
  shows "(\<forall>i < length qs. st_mq (fold (\<lambda>(i, a) st. upd_mq a (skynet_mq_create (of_nat i)) st) (enumerate n qs) st) (qs ! i) =
      Some (skynet_mq_create (of_nat (n + i)))) \<and>
    (\<forall>a. a \<notin> set qs \<longrightarrow> st_mq (fold (\<lambda>(i, a) st. upd_mq a (skynet_mq_create (of_nat i)) st) (enumerate n qs) st) a = st_mq st a) \<and>
    st_Q (fold (\<lambda>(i, a) st. upd_mq a (skynet_mq_create (of_nat i)) st) (enumerate n qs) st) = st_Q st"
  using assms
proof (induction qs arbitrary: n st)
  case (Cons b qs)
  let ?st = "upd_mq b (skynet_mq_create (of_nat n)) st"
  from Cons.IH [of "Suc n" ?st] Cons.prems show ?case
    by (auto simp: less_Suc_eq_0_disj upd_mq_def ac_simps)
qed simp

lemma create_queues_spec:
  assumes "distinct qs" "st_mq st = Map.empty"
  shows "i < length qs \<Longrightarrow> st_mq (create_queues qs (skynet_mq_init st)) (qs ! i) = Some (skynet_mq_create (of_nat i))"
    "a \<notin> set qs \<Longrightarrow> st_mq (create_queues qs (skynet_mq_init st)) a = None"
    "st_Q (create_queues qs (skynet_mq_init st)) = Some \<lparr>gq_head = None, gq_tail = None\<rparr>"
  using create_loop [OF assms(1), of 0 "skynet_mq_init st"] assms(2)
  by (simp_all add: create_queues_def skynet_mq_init_def)

lemma created_queue:
  assumes "distinct qs" "st_mq st = Map.empty" "st_mq (create_queues qs (skynet_mq_init st)) a = Some q"
  shows "\<exists>h. q = skynet_mq_create h"
proof -
  have "a \<in> set qs"
    using create_queues_spec(2) [OF assms(1,2), of a] assms(3) by fastforce
  then obtain i where "i < length qs" "a = qs ! i"
    by (metis in_set_conv_nth)
  then show ?thesis
    using create_queues_spec(1) [OF assms(1,2)] assms(3) by fastforce
qed

lemma create_queues_views:
  assumes "distinct qs" "st_mq st = Map.empty"
  shows "queues_wf (create_queues qs (skynet_mq_init st))" "glist (create_queues qs (skynet_mq_init st)) = []"
    "msgs (create_queues qs (skynet_mq_init st)) a = []" "flag (create_queues qs (skynet_mq_init st)) a = 0"
proof -
  let ?st = "create_queues qs (skynet_mq_init st)"
  note q = created_queue [OF assms]
  have "nxt ?st b = None \<or> nxt ?st b = Some None" for b
    using q [of b] by (cases "st_mq ?st b") (auto simp: nxt_def)
  then have "gq_rep ?st []"
    using create_queues_spec(3) [OF assms] by (auto simp: gq_rep_def)
  then show "queues_wf ?st" "glist ?st = []"
    using gq_wfI [of ?st "[]"] gq_rep_glist [of ?st "[]"] q by (force simp: queues_wf_def)+
  show "msgs ?st a = []" "flag ?st a = 0"
    using q [of a] by (auto simp: msgs_def flag_def split: option.split)
qed

section \<open>Properties\<close>

text \<open>C34: \<open>core_init\<close> establishes the invariants. Started in a memory without peers and queues, with all its
  allocations successful, it returns 0 and leaves a server whose peer table is well-formed and empty, whose four
  queues are well-formed, empty, not scheduled, carry their numbers as handles and can take messages, and
  whose events and peers have no callbacks.\<close>

theorem core_init_establishes:
  assumes b: "bt_loop b" "bt_peer_list b" "bt_hash b" "bt_event_list b" "bt_idmaker b" "bt_thpool b" "bt_watch b" "bt_old b"
    and q: "distinct (bt_queues b)" "length (bt_queues b) = 4" and m: "w_peers w = Map.empty" "st_mq (w_mq w) = Map.empty"
  shows "\<exists>w'. core_init b w = Some (0, w') \<and> reg_wf w' \<and> registered w' = Map.empty \<and> silent w' \<and>
    queues_wf (w_mq w') \<and> glist (w_mq w') = [] \<and>
    (\<forall>t. t < 4 \<longrightarrow> ready (of_nat t) w' (bt_queues b ! t) \<and> msgs (w_mq w') (bt_queues b ! t) = [] \<and>
       handle_of (w_mq w') (bt_queues b ! t) = Some (of_nat t))"
proof -
  obtain h where h: "hash_create (peer_key (w_peers w)) (peer_cmp (w_peers w)) = Some h"
    using hash_create_Some by blast
  let ?mq = "create_queues (bt_queues b) (skynet_mq_init (w_mq w))"
  let ?w = "w\<lparr>w_events := replicate 4 zero_event, w_timer := server_timer_init (bt_realtime b) (bt_monotonic b), w_peer_list := [], w_hash := h,
    w_event_list := [], w_mid := idmaker_new (bt_id_garbage b) 100 99999, w_mq := ?mq, w_queues := bt_queues b\<rparr>"
  note v = create_queues_views [OF q(1) m(2)]
  have "core_init b w = Some (0, ?w)"
    using b h m(1) by (simp add: core_init_def)
  moreover have "silent ?w"
    using m(1) by (auto simp: silent_def plugins_keep_def zero_event_def)
  moreover have "reg_wf ?w" "registered ?w = Map.empty"
    using empty_table [OF h] by (simp_all add: reg_wf_def registered_def)
  moreover have "ready (of_nat t) ?w (bt_queues b ! t)" if "t < 4" for t
  proof -
    have "sint (of_nat t :: cint) = int t"
      using that by (auto simp: less_Suc_eq numeral_eq_Suc)
    then show ?thesis
      using that q(2) v create_queues_spec(1) [OF q(1) m(2), of t] by (simp add: ready_def queue_of_def)
  qed
  moreover have "handle_of ?mq (bt_queues b ! t) = Some (of_nat t)" if "t < 4" for t
    using that q(2) create_queues_spec(1) [OF q(1) m(2), of t] by (simp add: handle_of_def skynet_mq_create_def)
  ultimately show ?thesis
    using v by (intro exI [of _ ?w]) simp
qed

definition fair_boot :: boot where
  "fair_boot = \<lparr>bt_loop = True, bt_realtime = \<lparr>tv_sec = 100, tv_nsec = 0\<rparr>, bt_monotonic = \<lparr>tv_sec = 10, tv_nsec = 0\<rparr>,
     bt_peer_list = True, bt_hash = True, bt_event_list = True, bt_idmaker = True, bt_id_garbage = 100,
     bt_queues = [10, 11, 12, 13], bt_thpool = True, bt_watch = True, bt_old = True\<rparr>"

theorem core_init_establishes_witness:
  "\<exists>w'. core_init fair_boot bare_world = Some (0, w') \<and> registered w' = Map.empty \<and> queues_wf (w_mq w') \<and>
     ready EVENT_ECHO w' 11 \<and> msgs (w_mq w') 13 = []"
proof -
  have "bt_queues fair_boot = [10, 11, 12, 13]"
    by (simp add: fair_boot_def)
  with core_init_establishes [of fair_boot bare_world] obtain w' where
    "core_init fair_boot bare_world = Some (0, w')" "registered w' = Map.empty" "queues_wf (w_mq w')"
    and t: "\<forall>t < 4. ready (of_nat t) w' ([10, 11, 12, 13] ! t) \<and> msgs (w_mq w') ([10, 11, 12, 13] ! t) = []"
    by (auto simp: fair_boot_def bare_world_def)
  then show ?thesis
    using t [rule_format, of 1] t [rule_format, of 3] by auto
qed

end
