(* ===== verification/Frame.thy ===== *)
theory Frame
  imports Boot
begin

text \<open>
  What the handlers of \<open>misaka/lib/core.c\<close> leave alone: everything but the routing functions and the polling loops keeps the message queues, the
  plugins and the timers as they are.
\<close>

section \<open>The view\<close>

definition view :: "world \<Rightarrow> addr mq_state \<times> addr list \<times> event_handle list \<times> nat list \<times> addr timer" where
  "view w = (w_mq w, w_queues w, w_events w, w_event_list w, w_timer w)"

lemma view_updates [simp]:
  "view (w\<lparr>w_peers := x1\<rparr>) = view w" "view (w\<lparr>w_pk := x2\<rparr>) = view w" "view (w\<lparr>w_peer_list := x3\<rparr>) = view w"
  "view (w\<lparr>w_hash := x4\<rparr>) = view w" "view (w\<lparr>w_mid := x5\<rparr>) = view w" "view (w\<lparr>w_role := x6\<rparr>) = view w"
  "view (w\<lparr>w_jobs := x7\<rparr>) = view w" "view (w\<lparr>w_closed := x8\<rparr>) = view w" "view (w\<lparr>w_sent := x9\<rparr>) = view w"
  "view (set_peer a p w) = view w"
  by (simp_all add: view_def set_peer_def)

section \<open>The life of a peer\<close>

lemma view_register: "peer_register e a w = Some w' \<Longrightarrow> view w' = view w"
  by (auto simp: peer_register_def Let_def split: Option.bind_splits)

lemma view_unregister: "peer_unregister e a w = Some w' \<Longrightarrow> view w' = view w"
  by (auto simp: peer_unregister_def Let_def split: Option.bind_splits)

lemma view_nonblock: "nonblock_fd e p w = (p', w') \<Longrightarrow> view w' = view w"
  by (auto simp: nonblock_fd_def split: if_splits)

lemma view_success: "misaka_start_success e a w = Some w' \<Longrightarrow> view w' = view w"
  by (auto simp: misaka_start_success_def Let_def dest!: view_register view_nonblock split: Option.bind_splits prod.splits if_splits)

lemma view_progress: "misaka_start_progress e a w = Some w' \<Longrightarrow> view w' = view w"
  by (auto simp: misaka_start_progress_def Let_def dest!: view_nonblock split: Option.bind_splits prod.splits)

lemma view_start: "misaka_start e a w = Some (r, w') \<Longrightarrow> view w' = view w"
  by (auto simp: misaka_start_def Let_def dest!: view_success split: Option.bind_splits option.splits if_splits)

lemma view_stop_connect: "stop_connect e a w = Some w' \<Longrightarrow> view w' = view w"
  by (auto simp: stop_connect_def split: Option.bind_splits)

lemma view_trigger: "connect_status_trigger e st a w = Some w' \<Longrightarrow> view w' = view w"
  by (auto simp: connect_status_trigger_def dest!: view_stop_connect view_success view_progress split: Option.bind_splits connect_result.splits)

lemma view_stop: "misaka_stop e a w = Some w' \<Longrightarrow> view w' = view w"
  by (auto simp: misaka_stop_def Let_def split: Option.bind_splits if_splits)

lemma view_reconnect: "misaka_reconnect e a w = Some w' \<Longrightarrow> view w' = view w"
  by (auto simp: misaka_reconnect_def dest!: view_stop view_start split: Option.bind_splits)

lemma view_delete: "peer_delete e a w = Some w' \<Longrightarrow> view w' = view w"
  by (auto simp: peer_delete_def Let_def dest!: view_stop split: Option.bind_splits option.splits if_splits)

lemma view_new: "peer_new e w = (r, w') \<Longrightarrow> view w' = view w"
  by (auto simp: peer_new_def Let_def split: option.splits if_splits)

lemma view_with_new: "with_new f (r, w) = (r', w') \<Longrightarrow> view w' = view w"
  by (auto simp: with_new_def split: option.splits if_splits)

lemma view_passive_init:
  assumes "tcp_passive_init e su fd w = (r, w')"
  shows "view w' = view w"
proof -
  obtain r1 w1 where n: "peer_new e w = (r1, w1)"
    by fastforce
  then show ?thesis
    using assms view_new [OF n] by (auto simp: tcp_passive_init_def dest: view_with_new)
qed

lemma view_accept:
  assumes "tcp_accept e a w = Some (r, w')"
  shows "view w' = view w"
proof -
  obtain c w1 where i: "tcp_passive_init e (snd (e_accept e)) (fst (e_accept e)) w = (c, w1)"
    by fastforce
  show ?thesis
    using assms i view_passive_init [OF i]
    by (auto simp: tcp_accept_def sockunion_accept_def Let_def split_beta dest!: view_start split: Option.bind_splits option.splits if_splits)
qed

section \<open>The links and the handlers\<close>

lemma view_call_read: "call_read e f a w = Some (r, w') \<Longrightarrow> view w' = view w"
  by (auto simp: call_read_def Let_def dest: view_accept split: read_fn.splits Option.bind_splits)

lemma view_call_write: "call_write e f a w = Some (n, w') \<Longrightarrow> view w' = view w"
  by (auto simp: call_write_def tcp_write_def udp_write_def ludp_write_def sdio_write_def write_with_def
      split: write_fn.splits Option.bind_splits option.splits)

lemma view_start_thread: "misaka_start_thread e d w = Some w' \<Longrightarrow> view w' = view w"
  by (auto simp: misaka_start_thread_def Let_def dest!: view_trigger split: option.splits Option.bind_splits if_splits prod.splits)

lemma view_write: "misaka_write e d w = Some w' \<Longrightarrow> view w' = view w"
  by (auto simp: misaka_write_def Let_def dest!: view_call_write view_unregister view_delete view_reconnect
      split: option.splits Option.bind_splits if_splits)

lemma view_route_loop:
  assumes "route_loop e a ts w = Some w'"
  shows "view w' = view w"
proof (rule route_loop.raw_induct [where P = "\<lambda>e a ts w w'. view w' = view w", OF _ assms], goal_cases)
  case (1 rl e a ts w w')
  then show ?case
    by (fastforce split: option.splits Option.bind_splits)
qed

lemma view_route: "misaka_packet_route e s w = Some (r, w') \<Longrightarrow> view w' = view w"
  by (auto simp: misaka_packet_route_def dest!: view_route_loop split: option.splits Option.bind_splits if_splits)

lemma view_clone: "clone_ibuf e s w = Some (r, w') \<Longrightarrow> view w' = view w"
  by (auto simp: clone_ibuf_def split: Option.bind_splits option.splits prod.splits)

lemma view_check: "check_packet e a w = Some (r, w') \<Longrightarrow> view w' = view w"
  by (auto simp: check_packet_def split: Option.bind_splits)

text \<open>Reading routes at most one packet, of the echo type, into the task queues.\<close>

definition echo_routed :: "env \<Rightarrow> world \<Rightarrow> world \<Rightarrow> bool" where
  "echo_routed e w w' \<longleftrightarrow> view w' = view w \<or>
     (\<exists>r q w1 w2. view w1 = view w \<and> w_pk w1 r = Some q \<and> s_type (pk_s q) = EVENT_ECHO \<and>
        misaka_packet_task_route e r w1 = Some w2 \<and> view w' = view w2)"

lemma put_type: "stream_put s src n = Some t \<Longrightarrow> s_type t = s_type s"
  by (auto simp: stream_put_def Let_def split: Option.bind_splits if_splits)

lemma clone_one_type: "stream_clone_one malloc mem s = Some (Some t) \<Longrightarrow> s_type t = s_type s"
  by (auto simp: stream_clone_one_def stream_color_one_def dest!: put_type split: Option.bind_splits option.splits)

lemma clone_type:
  "clone_ibuf e s w = Some (Some r, w') \<Longrightarrow> \<exists>q. w_pk w' r = Some q \<and> s_type (pk_s q) = s_type s"
  by (auto simp: clone_ibuf_def dest: clone_one_type split: Option.bind_splits option.splits prod.splits)

lemma deliver_routed:
  assumes "deliver_packet e a s w = Some w'" "s_type s = EVENT_ECHO"
  shows "echo_routed e w w'"
proof -
  from assms(1) obtain rs w1 where c: "clone_ibuf e s w = Some (rs, w1)"
    by (auto simp: deliver_packet_def split: Option.bind_splits)
  note v = view_clone [OF c]
  show ?thesis
  proof (cases rs)
    case None
    then show ?thesis
      using assms(1) c v by (auto simp: deliver_packet_def echo_routed_def split: if_splits)
  next
    case (Some r)
    from clone_type [OF c [unfolded Some]] obtain q where q: "w_pk w1 r = Some q" "s_type (pk_s q) = EVENT_ECHO"
      using assms(2) by auto
    show ?thesis
    proof (cases "s_nid s = w_role w1")
      case True
      with assms(1) c Some q have "misaka_packet_task_route e r w1 = Some w'"
        by (auto simp: deliver_packet_def misaka_packet_sys_route_def split: Option.bind_splits if_splits)
      then show ?thesis
        using v q unfolding echo_routed_def by blast
    next
      case False
      then show ?thesis
        using assms(1) c Some v by (auto simp: deliver_packet_def echo_routed_def dest!: view_route split: Option.bind_splits)
    qed
  qed
qed

lemma action_routed:
  assumes "read_io_action e event a w = Some w'"
  shows "echo_routed e w w'"
proof (cases "event = IO_PACKET")
  case True
  from assms obtain p s where p: "w_peers w a = Some p" "p_ibuf p = Some s"
    by (auto simp: read_io_action_def split: Option.bind_splits)
  let ?s = "s\<lparr>s_src := p_drole p, s_flag := 0, s_dst := w_role w, s_type := EVENT_ECHO\<rparr>"
  from assms p True obtain w1 p1 where
    "deliver_packet e a ?s (set_peer a (p\<lparr>p_ibuf := Some ?s\<rparr>) w) = Some w1" "w' = set_peer a p1 w1"
    by (auto simp: read_io_action_def Let_def split: Option.bind_splits)
  from deliver_routed [OF this(1)] this(2) show ?thesis
    by (simp add: echo_routed_def)
next
  case False
  then have "view w' = view w"
    using assms
    by (auto simp: read_io_action_def Let_def dest!: view_reconnect view_unregister view_delete split: Option.bind_splits io_tat.splits)
  then show ?thesis
    by (simp add: echo_routed_def)
qed

lemma read_routed:
  assumes "misaka_read e d w = Some w'"
  shows "echo_routed e w w'"
proof (cases d)
  case None
  then show ?thesis
    using assms by (simp add: misaka_read_def echo_routed_def)
next
  case (Some a)
  from assms Some obtain p where p: "w_peers w a = Some p"
    by (auto simp: misaka_read_def split: Option.bind_splits)
  let ?p = "(peer_uptime_reset (e_now e) p)\<lparr>p_rcount := p_rcount p + 1\<rparr>"
  have "view w' = view w \<or> (\<exists>ev w2. view w2 = view w \<and> read_io_action e ev a w2 = Some w')"
    using assms Some p
    by (auto simp: misaka_read_def Let_def dest!: view_call_read view_check split: Option.bind_splits if_splits)
  then show ?thesis
  proof
    assume "\<exists>ev w2. view w2 = view w \<and> read_io_action e ev a w2 = Some w'"
    then obtain ev w2 where "view w2 = view w" "read_io_action e ev a w2 = Some w'"
      by blast
    then show ?thesis
      using action_routed [of e ev a w2 w'] by (simp add: echo_routed_def)
  qed (simp add: echo_routed_def)
qed

end
