(* ===== verification/Composition.thy ===== *)
theory Composition
  imports Frame
begin

text \<open>
  The scheduler inside the server. Theory \<open>Sched\<close> shows what the workers and routers do to the queues when they are
  the only clients. In the server the event loop is a client too: it polls the queue of the network and the queue
  of the timers by itself. Here the invariant of the scheduler is carried over to the whole server of theory
  \<open>Server\<close>: the polled queues are hidden from the scheduler, and every handler either leaves the rest alone, routes
  into it or is a turn of a worker.
\<close>

section \<open>Hiding queues\<close>

definition hide :: "addr set \<Rightarrow> 'm mq_state \<Rightarrow> 'm mq_state" where
  "hide N st = st\<lparr>st_mq := (\<lambda>a. if a \<in> N then None else st_mq st a)\<rparr>"

lemma hide_get [simp]: "st_mq (hide N st) a = (if a \<in> N then None else st_mq st a)" "st_Q (hide N st) = st_Q st"
  by (simp_all add: hide_def)

lemma hide_Q [simp]: "hide N (st\<lparr>st_Q := g\<rparr>) = (hide N st)\<lparr>st_Q := g\<rparr>"
  by (cases st) (simp add: hide_def fun_eq_iff)

lemma hide_upd: "hide N (upd_mq a q st) = (if a \<in> N then hide N st else upd_mq a q (hide N st))"
  by (auto simp: hide_def upd_mq_def fun_eq_iff)

text \<open>An operation that is defined without the hidden queues does the same with them, and leaves them alone.\<close>

definition lifts :: "addr set \<Rightarrow> 'm mq_state \<Rightarrow> 'm mq_state \<Rightarrow> 'm mq_state \<Rightarrow> bool" where
  "lifts N st st1 st' \<longleftrightarrow> hide N st' = st1 \<and> (\<forall>b\<in>N. st_mq st' b = st_mq st b)"

lemma lift_globalmq_push:
  "skynet_globalmq_push a (hide N st) = Some st1 \<Longrightarrow> \<exists>st'. skynet_globalmq_push a st = Some st' \<and> lifts N st st1 st'"
  by (auto simp: skynet_globalmq_push_def lifts_def hide_upd split: Option.bind_splits option.splits if_splits)
    (auto simp: upd_mq_def)

lemma lift_globalmq_pop:
  assumes "skynet_globalmq_pop (hide N st) = Some (r, st1)"
  shows "\<exists>st'. skynet_globalmq_pop st = Some (r, st') \<and> lifts N st st1 st'"
proof -
  from assms obtain g where g: "st_Q st = Some g"
    by (auto simp: skynet_globalmq_pop_def split: Option.bind_splits)
  show ?thesis
  proof (cases "gq_head g")
    case None
    then show ?thesis
      using assms g by (auto simp: skynet_globalmq_pop_def lifts_def)
  next
    case (Some a)
    with assms g obtain m where "a \<notin> N" "st_mq st a = Some m"
      by (auto simp: skynet_globalmq_pop_def split: Option.bind_splits if_splits)
    then show ?thesis
      using assms g Some by (auto simp: skynet_globalmq_pop_def lifts_def hide_upd split: if_splits) (auto simp: upd_mq_def)
  qed
qed

lemma lift_upd: "a \<notin> N \<Longrightarrow> lifts N st (upd_mq a q (hide N st)) (upd_mq a q st)"
  by (auto simp: lifts_def hide_upd) (auto simp: upd_mq_def)

lemma lifts_same: "lifts N st (hide N st) st"
  by (simp add: lifts_def)

lemma lift_mq_push:
  assumes "skynet_mq_push alloc a m (hide N st) = Some st1"
  shows "\<exists>st'. skynet_mq_push alloc a m st = Some st' \<and> lifts N st st1 st'"
proof -
  from assms obtain q q1 where q: "a \<notin> N" "st_mq st a = Some q" "ring_push alloc q m = Some q1"
    by (auto simp: skynet_mq_push_def split: Option.bind_splits if_splits)
  show ?thesis
  proof (cases "mq_in_global q1 = 0")
    case True
    let ?q = "q1\<lparr>mq_in_global := 1\<rparr>"
    have "skynet_globalmq_push a (hide N (upd_mq a ?q st)) = Some st1"
      using assms q True by (simp add: skynet_mq_push_def hide_upd)
    from lift_globalmq_push [OF this] q True lift_upd [OF q(1), of st ?q] show ?thesis
      by (auto simp: skynet_mq_push_def lifts_def)
  next
    case False
    then show ?thesis
      using assms q lift_upd by (auto simp: skynet_mq_push_def)
  qed
qed

lemma lift_worker_step:
  assumes "worker_step k (hide N st) = Some (k', r, st1)"
  shows "\<exists>st'. worker_step k st = Some (k', r, st') \<and> lifts N st st1 st'"
proof (cases "w_q k")
  case None
  with assms obtain p where "skynet_globalmq_pop (hide N st) = Some (p, st1)"
    by (auto simp: worker_step_def split: Option.bind_splits option.splits)
  from lift_globalmq_pop [OF this] show ?thesis
    using assms None \<open>skynet_globalmq_pop (hide N st) = Some (p, st1)\<close> by (auto simp: worker_step_def split: option.splits)
next
  case (Some a)
  show ?thesis
  proof (cases "w_sands k = 0")
    case True
    with assms Some have "skynet_globalmq_push a (hide N st) = Some st1" "k' = None" "r = None"
      by (auto simp: worker_step_def split: Option.bind_splits)
    from lift_globalmq_push [OF this(1)] this(2,3) show ?thesis
      using Some True by (auto simp: worker_step_def)
  next
    case False
    with assms Some have "a \<notin> N"
      by (auto simp: worker_step_def split: if_splits)
    then show ?thesis
      using assms Some False lift_upd by (auto simp: worker_step_def split: Option.bind_splits if_splits)
  qed
qed

text \<open>What is visible is as it was.\<close>

lemma hide_views: "a \<notin> N \<Longrightarrow> msgs (hide N st) a = msgs st a" "a \<notin> N \<Longrightarrow> flag (hide N st) a = flag st a"
  by (simp_all add: msgs_def flag_def)

lemma hide_glist:
  assumes "gq_wf (hide N st)"
  shows "glist st = glist (hide N st)"
proof -
  from assms obtain q where q: "st_Q st = Some q" "path (nxt (hide N st)) (gq_head q) (glist (hide N st))"
    by (auto simp: gq_wf_def gq_rep_def)
  have "nxt (hide N st) a = nxt st a" if "a \<in> set (glist (hide N st))" for a
    using gq_wf_live [OF assms that] by (auto simp: nxt_def split: if_splits)
  with path_cong [of "glist (hide N st)" "nxt (hide N st)" "nxt st"] q(2) have "path (nxt st) (gq_head q) (glist (hide N st))"
    by simp
  then show ?thesis
    unfolding glist_def [of st] using q(1) by (intro the_equality) (auto dest: path_det)
qed

lemma sole_element: "distinct xs \<Longrightarrow> a \<in> set xs \<Longrightarrow> (\<And>x. x \<in> set xs \<Longrightarrow> x = a) \<Longrightarrow> xs = [a]"
proof (cases xs)
  case (Cons x ys)
  assume a: "distinct xs" "\<And>x. x \<in> set xs \<Longrightarrow> x = a"
  then have "x = a" "a \<notin> set ys" "\<And>y. y \<in> set ys \<Longrightarrow> y = a"
    using Cons by auto
  then have "ys = []"
    by (metis list.set_intros(1) neq_Nil_conv)
  then show ?thesis
    using Cons \<open>x = a\<close> by simp
qed simp

text \<open>The scheduler with a single visible queue.\<close>

lemma one_queue_linked:
  assumes "sched_inv s" "sc_mq s = hide (- {e}) mq" "a \<in> set (glist mq)"
  shows "a = e"
proof -
  have "flag (sc_mq s) a = 1"
    using inv_facts(2) [OF assms(1)] inv_facts(4) [OF assms(1), of a] hide_glist [of "- {e}" mq] assms(2,3) by auto
  then show ?thesis
    using assms(2) by (auto simp: flag_def split: if_splits)
qed

lemma one_queue_held:
  assumes "sched_inv s" "sc_mq s = hide (- {e}) mq" "holds s i a"
  shows "a = e" "glist mq = []"
proof -
  have "flag (sc_mq s) a = 1" and out: "a \<notin> set (glist mq)"
    using inv_facts(2) [OF assms(1)] inv_facts(4,5) [OF assms(1), where a = a] hide_glist [of "- {e}" mq] assms(2,3) by auto
  then show "a = e"
    using assms(2) by (auto simp: flag_def split: if_splits)
  then show "glist mq = []"
    using one_queue_linked [OF assms(1,2)] out by (metis last_in_set)
qed

lemma one_queue_busy:
  assumes "sched_inv s" "sc_mq s = hide (- {e}) mq" "msgs mq e \<noteq> []"
  shows "glist mq = [e] \<or> (\<exists>j. holds s j e)"
proof -
  have g: "glist mq = glist (sc_mq s)" "distinct (glist mq)"
    using hide_glist [of "- {e}" mq] gq_wf_distinct inv_facts(2) [OF assms(1)] assms(2) by auto
  have "flag (sc_mq s) e = 1"
    using inv_facts(3,7) [OF assms(1), where a = e] hide_views(1) [of e "- {e}" mq] assms(2,3) by auto
  then consider "e \<in> set (glist mq)" | j where "holds s j e"
    using inv_facts(4) [OF assms(1), of e] g(1) by auto
  then show ?thesis
    using sole_element [OF g(2)] one_queue_linked [OF assms(1,2)] by cases blast+
qed

section \<open>A wheel without timers\<close>

definition idle :: "'h timer \<Rightarrow> bool" where
  "idle T \<longleftrightarrow> (\<forall>s. chain T s = [])"

lemma idle_near [simp]: "idle T \<Longrightarrow> tm_near T i = []" "idle T \<Longrightarrow> tm_t T l j = []"
  using chain.simps unfolding idle_def by metis+

lemma idleI: "(\<And>i. tm_near T i = []) \<Longrightarrow> (\<And>l j. tm_t T l j = []) \<Longrightarrow> idle T"
  unfolding idle_def by (metis chain.elims)

lemma idle_execute: "idle T \<Longrightarrow> timer_execute T = (T, [])"
  by (simp add: timer_execute.simps)

lemma idle_move: "idle T \<Longrightarrow> move_list T l i = Some T' \<Longrightarrow> idle T'"
  by (auto simp: move_list_def timelink_clear_def intro!: idleI split: if_splits)

lemma idle_shift_loop: "idle T \<Longrightarrow> shift_loop T ct msk time i = Some T' \<Longrightarrow> idle T'"
proof (induction T ct msk time i rule: shift_loop.induct)
  case (1 T ct msk time i)
  note IH = 1(1) [OF _ refl] and prems = 1(2,3)
  show ?case
    using prems IH idle_move unfolding shift_loop.simps [of T ct msk time i] Let_def by (simp split: if_splits)
qed

lemma idle_fields [simp]:
  "idle (T\<lparr>tm_time := a\<rparr>) = idle T" "idle (T\<lparr>tm_current_point := b\<rparr>) = idle T"
  "idle (T\<lparr>tm_current := c\<rparr>) = idle T" "idle (T\<lparr>tm_starttime := d\<rparr>) = idle T"
proof -
  have "chain (T\<lparr>tm_time := a\<rparr>) s = chain T s" "chain (T\<lparr>tm_current_point := b\<rparr>) s = chain T s"
    "chain (T\<lparr>tm_current := c\<rparr>) s = chain T s" "chain (T\<lparr>tm_starttime := d\<rparr>) s = chain T s" for s
    by (cases s; simp)+
  then show "idle (T\<lparr>tm_time := a\<rparr>) = idle T" "idle (T\<lparr>tm_current_point := b\<rparr>) = idle T"
    "idle (T\<lparr>tm_current := c\<rparr>) = idle T" "idle (T\<lparr>tm_starttime := d\<rparr>) = idle T"
    by (simp_all add: idle_def)
qed

lemma idle_shift:
  assumes "idle T" "timer_shift T = Some T'"
  shows "idle T'"
proof -
  have "idle (T\<lparr>tm_time := tm_time T + 1\<rparr>)"
    using assms(1) by simp
  then show ?thesis
    using assms(2) idle_move idle_shift_loop unfolding timer_shift_def Let_def by (metis (no_types))
qed

lemma idle_update:
  assumes "idle T" "timer_update T = Some (T', out)"
  shows "idle T' \<and> out = []"
  using assms idle_shift [OF assms(1)] by (auto simp: timer_update_def idle_execute split: Option.bind_splits)

lemma idle_update_loop: "idle T \<Longrightarrow> update_loop n T = Some (T', out) \<Longrightarrow> idle T' \<and> out = []"
  by (induction n arbitrary: T T' out) (auto dest: idle_update split: Option.bind_splits)

lemma idle_updatetime:
  assumes "idle T" "server_timer_updatetime clock T = Some (T', out)"
  shows "idle T' \<and> out = []"
  using assms unfolding server_timer_updatetime_def Let_def by (auto dest!: idle_update_loop [rotated] split: if_splits)

section \<open>The invariant of the server\<close>

text \<open>A plugin that does not set timers: no packet leaves it with the type of the system queue.\<close>

definition sets_no_timer :: "event_handle \<Rightarrow> bool" where
  "sets_no_timer h \<longleftrightarrow> (\<forall>s st. run_plugin h s = Some (True, st) \<longrightarrow> s_type st \<noteq> EVENT_SYS)"

text \<open>All queues but the one of the echo event are hidden from the scheduler. The queue of the timers and the wheel
  are empty.\<close>

definition echo_queue :: "world \<Rightarrow> addr" where
  "echo_queue w = w_queues w ! 1"

definition served :: "addr list \<Rightarrow> world \<Rightarrow> (nat \<Rightarrow> worker option) \<Rightarrow> bool" where
  "served qs w ws \<longleftrightarrow> w_queues w = qs \<and> distinct (w_queues w) \<and> length (w_queues w) = 4 \<and> idle (w_timer w) \<and>
     (\<forall>i\<in>set (w_event_list w). sets_no_timer (w_events w ! i)) \<and>
     (\<exists>q. st_mq (w_mq w) (w_queues w ! 2) = Some q \<and> mq_wf q \<and> mq_list q = []) \<and>
     (\<exists>n inn out. sched_inv \<lparr>sc_mq = hide (- {echo_queue w}) (w_mq w), sc_jobs = n, sc_workers = ws, sc_in = inn, sc_out = out\<rparr>)"

lemma served_cong: "view w' = view w \<Longrightarrow> served qs w' ws = served qs w ws"
  by (simp add: view_def served_def echo_queue_def)

lemma served_queues:
  assumes "served qs w ws"
  shows "w_queues w = qs" "distinct (w_queues w)" "length (w_queues w) = 4"
  using assms unfolding served_def by blast+

lemma queue_of_cases:
  assumes "queue_of t w = Some a" "length (w_queues w) = 4"
  shows "t \<in> {0, 1, 2, 3} \<and> a = w_queues w ! unat t"
proof -
  have t: "0 \<le> sint t" "sint t < 4" "a = w_queues w ! nat (sint t)"
    using assms by (auto simp: queue_of_def split: if_splits)
  then have "t = word_of_int (sint t)" "sint t \<in> {0, 1, 2, 3}"
    by auto
  then show ?thesis
    using t(3) by (elim insertE) auto
qed

text \<open>A change of the queues that keeps what is hidden, and one that keeps what is visible.\<close>

lemma served_lift:
  assumes "served qs w ws" "lifts (- {echo_queue w}) (w_mq w) st1 mq"
    and "sched_inv \<lparr>sc_mq = st1, sc_jobs = n, sc_workers = ws', sc_in = inn, sc_out = out\<rparr>"
  shows "served qs (w\<lparr>w_mq := mq\<rparr>) ws'"
proof -
  have "distinct (w_queues w)" "length (w_queues w) = 4"
    using served_queues [OF assms(1)] by blast+
  then have "w_queues w ! 2 \<noteq> echo_queue w"
    by (simp add: echo_queue_def nth_eq_iff_index_eq)
  then show ?thesis
    using assms unfolding served_def lifts_def by (auto simp: echo_queue_def)
qed

lemma served_hidden:
  assumes "served qs w ws" "a \<noteq> echo_queue w" "a = w_queues w ! 2 \<Longrightarrow> mq_wf q \<and> mq_list q = []"
  shows "served qs (w\<lparr>w_mq := upd_mq a q (w_mq w)\<rparr>) ws"
proof -
  have "hide (- {echo_queue w}) (upd_mq a q (w_mq w)) = hide (- {echo_queue w}) (w_mq w)"
    using assms(2) by (simp add: hide_upd)
  then show ?thesis
    using assms unfolding served_def by (auto simp: echo_queue_def upd_mq_def)
qed

section \<open>The steps\<close>

lemma served_jobs [simp]: "served qs (w\<lparr>w_jobs := n\<rparr>) ws = served qs w ws" "served qs (w\<lparr>w_pk := pk\<rparr>) ws = served qs w ws"
  by (rule served_cong, simp)+

lemma task_route_served:
  assumes inv: "served qs w ws" and p: "w_pk w s = Some q" "s_type (pk_s q) \<notin> {EVENT_NONE, EVENT_SYS, EVENT_NET}"
    and r: "misaka_packet_task_route e s w = Some w'"
  shows "served qs w' ws \<and> w_events w' = w_events w"
proof -
  from r p obtain a mq where
    a: "queue_of (s_type (pk_s q)) w = Some a" "skynet_mq_push (e_mq_alloc e) a s (w_mq w) = Some mq"
      "w' = w\<lparr>w_mq := mq, w_jobs := (if e_job_mem e then w_jobs w + 1 else w_jobs w)\<rparr>"
    by (auto simp: misaka_packet_task_route_def split: Option.bind_splits)
  have e: "a = echo_queue w"
    using queue_of_cases [OF a(1)] inv p(2) by (auto simp: served_def echo_queue_def)
  let ?N = "- {echo_queue w}"
  from inv obtain n inn out where
    i: "sched_inv \<lparr>sc_mq = hide ?N (w_mq w), sc_jobs = n, sc_workers = ws, sc_in = inn, sc_out = out\<rparr>" (is "sched_inv ?s")
    by (auto simp: served_def)
  from a(2) obtain m m1 where m: "st_mq (w_mq w) a = Some m" "ring_push (e_mq_alloc e) m s = Some m1"
    by (auto simp: skynet_mq_push_def split: Option.bind_splits)
  then have hm: "st_mq (hide ?N (w_mq w)) a = Some m"
    using e by simp
  from mq_push_effect [OF inv_facts(1) [OF i, simplified] hm m(2)] unflagged_unlinked [OF i, of a] obtain st where
    st: "skynet_mq_push (e_mq_alloc e) a s (hide ?N (w_mq w)) = Some st" "queues_wf st"
      "msgs st = (msgs (hide ?N (w_mq w)))(a := msgs (hide ?N (w_mq w)) a @ [s])"
      "flag st = (flag (hide ?N (w_mq w)))(a := (if flag (hide ?N (w_mq w)) a = 0 then 1 else flag (hide ?N (w_mq w)) a))"
      "glist st = (if flag (hide ?N (w_mq w)) a = 0 then glist (hide ?N (w_mq w)) @ [a] else glist (hide ?N (w_mq w)))"
    by auto
  have l: "lifts ?N (w_mq w) st mq"
    using lift_mq_push [OF st(1)] a(2) by auto
  have "sched_inv (?s\<lparr>sc_mq := st, sc_jobs := n, sc_in := (sc_in ?s)(a := sc_in ?s a @ [s])\<rparr>)"
    by (rule route_inv [OF i st(2)]) (use st(3-5) in simp_all)
  then have "served qs (w\<lparr>w_mq := mq\<rparr>) ws"
    using served_lift [OF inv l] by simp
  then show ?thesis
    using a(3) by simp
qed

lemma net_route_served:
  assumes inv: "served qs w ws" and r: "misaka_packet_net_route e s w = Some w'"
  shows "served qs w' ws \<and> w_events w' = w_events w"
proof -
  from r obtain q a m mq where
    a: "queue_of EVENT_NET w = Some a" "st_mq (w_mq w) a = Some m"
      "skynet_mq_push (e_mq_alloc e) a s (upd_mq a (skynet_mq_global m 1) (w_mq w)) = Some mq"
      "w' = w\<lparr>w_pk := q, w_mq := mq\<rparr>"
    by (auto simp: misaka_packet_net_route_def Let_def split: Option.bind_splits)
  have "distinct (w_queues w)" "length (w_queues w) = 4"
    using served_queues [OF inv] by blast+
  with queue_of_cases [OF a(1)] have ne: "a \<noteq> echo_queue w" "a \<noteq> w_queues w ! 2"
    by (simp_all add: echo_queue_def nth_eq_iff_index_eq)
  from a(3) obtain m1 where m1: "ring_push (e_mq_alloc e) (skynet_mq_global m 1) s = Some m1"
    by (auto simp: skynet_mq_push_def upd_mq_def split: Option.bind_splits)
  then have "mq_in_global m1 = 1"
    by (auto simp: ring_push_def expand_queue_def Let_def skynet_mq_global_def split: if_splits)
  then have "mq = upd_mq a m1 (w_mq w)"
    using a(3) m1 by (auto simp: skynet_mq_push_def) (auto simp: upd_mq_def)
  then have "view w' = view (w\<lparr>w_mq := upd_mq a m1 (w_mq w)\<rparr>)"
    using a(4) by (simp add: view_def)
  then show ?thesis
    using a(4) served_cong [of w'] served_hidden [OF inv ne(1), of m1] ne(2) by auto
qed

lemma process_one_served:
  assumes inv: "served qs w ws" and h: "sets_no_timer h" and r: "process_one e s h w = Some (c, w')"
  shows "served qs w' ws \<and> w_events w' = w_events w"
proof -
  from r obtain q c1 st where q: "w_pk w s = Some q" "run_plugin h (pk_s q) = Some (c1, st)"
    by (auto simp: process_one_def split: Option.bind_splits)
  let ?w = "w\<lparr>w_pk := (w_pk w)(s \<mapsto> q\<lparr>pk_s := st\<rparr>)\<rparr>"
  have w: "served qs ?w ws" "w_pk ?w s = Some (q\<lparr>pk_s := st\<rparr>)"
    using inv by simp_all
  consider "w' = ?w" | pk where "w' = ?w\<lparr>w_pk := pk\<rparr>" | "misaka_packet_net_route e s ?w = Some w'"
    | "c1" "s_type st \<noteq> EVENT_NET" "s_type st \<noteq> EVENT_NONE" "misaka_packet_task_route e s ?w = Some w'"
    using r q by (auto simp: process_one_def Let_def split: Option.bind_splits if_splits)
  then show ?thesis
  proof cases
    case 3
    then show ?thesis
      using net_route_served [OF w(1)] by simp
  next
    case 4
    then have "s_type st \<noteq> EVENT_SYS"
      using h q(2) by (auto simp: sets_no_timer_def)
    then show ?thesis
      using task_route_served [OF w _ 4(4)] 4(2,3) by simp
  qed (use w in simp_all)
qed

lemma process_loop_served:
  assumes "served qs w ws" "process_loop e type s is w = Some w'" "\<forall>i\<in>set is. sets_no_timer (w_events w ! i)"
  shows "served qs w' ws"
  using assms
proof (induction e type s "is" w rule: process_loop.induct)
  case (2 e type s i "is" w)
  show ?case
  proof (cases "eh_type (w_events w ! i) = type")
    case True
    with 2(4) obtain c w1 where w1: "process_one e s (w_events w ! i) w = Some (c, w1)"
        "(if c then process_loop e type s is w1 else Some w1) = Some w'"
      by (auto split: Option.bind_splits)
    have "served qs w1 ws \<and> w_events w1 = w_events w"
      using process_one_served [OF 2(3) _ w1(1)] 2(5) by simp
    then show ?thesis
      using 2(2) [of "(c, w1)" c w1] True w1 2(5) by (auto split: if_splits)
  next
    case False
    then show ?thesis
      using 2 by simp
  qed
qed simp

lemma process_served:
  assumes "served qs w ws" "misaka_packet_process e s w = Some w'"
  shows "served qs w' ws"
proof -
  have "\<forall>i\<in>set (w_event_list w). sets_no_timer (w_events w ! i)"
    using assms(1) by (simp add: served_def)
  then show ?thesis
    using assms process_loop_served [OF assms(1)]
    by (auto simp: misaka_packet_process_def Let_def split: Option.bind_splits if_splits)
qed

lemma worker_step_served:
  assumes inv: "served qs w ws" and k: "ws t = Some k"
  shows "\<exists>k' r mq. worker_step k (w_mq w) = Some (k', r, mq) \<and> served qs (w\<lparr>w_mq := mq\<rparr>) (ws(t := k'))"
proof -
  from inv obtain n inn out where
    i: "sched_inv \<lparr>sc_mq = hide (- {echo_queue w}) (w_mq w), sc_jobs = n, sc_workers = ws, sc_in = inn, sc_out = out\<rparr>"
    by (auto simp: served_def)
  from worker_step_ok [OF i, of t k] k obtain k' r st where
    x: "worker_step k (hide (- {echo_queue w}) (w_mq w)) = Some (k', r, st)"
      "sched_inv \<lparr>sc_mq = st, sc_jobs = n, sc_workers = ws(t := k'), sc_in = inn, sc_out = log_out k r out\<rparr>"
    by auto
  from lift_worker_step [OF x(1)] served_lift [OF inv _ x(2)] show ?thesis
    by blast
qed

lemma worker_turn_served:
  assumes inv: "served qs w ws" and k: "ws t = Some k" and r: "worker_turn e k w = Some (k', w')"
  shows "served qs w' (ws(t := k'))"
proof -
  from worker_step_served [OF inv k] obtain k1 s mq where
    x: "worker_step k (w_mq w) = Some (k1, s, mq)" "served qs (w\<lparr>w_mq := mq\<rparr>) (ws(t := k1))"
    by blast
  from r x(1) have "k' = k1" "w' = w\<lparr>w_mq := mq\<rparr> \<or> (\<exists>s. misaka_packet_process e s (w\<lparr>w_mq := mq\<rparr>) = Some w')"
    by (auto simp: worker_turn_def Let_def split: Option.bind_splits option.splits if_splits)
  then show ?thesis
    using x(2) process_served by blast
qed

lemma pop_queue_served:
  assumes inv: "served qs w ws" and t: "type \<in> {EVENT_SYS, EVENT_NET}" and r: "pop_queue type w = Some (s, w')"
  shows "served qs w' ws \<and> (type = EVENT_SYS \<longrightarrow> s = None)"
proof -
  from r obtain a m ret s1 m1 where a: "queue_of type w = Some a" "st_mq (w_mq w) a = Some m"
      "skynet_mq_pop m = Some (ret, s1, m1)" "s = (if ret = 0 then s1 else None)" "w' = w\<lparr>w_mq := upd_mq a m1 (w_mq w)\<rparr>"
    by (auto simp: pop_queue_def split: Option.bind_splits)
  have q: "distinct (w_queues w)" "length (w_queues w) = 4"
    using served_queues [OF inv] by blast+
  with queue_of_cases [OF a(1)] t have ne: "a \<noteq> echo_queue w" "type = EVENT_NET \<Longrightarrow> a \<noteq> w_queues w ! 2" "type = EVENT_SYS \<Longrightarrow> a = w_queues w ! 2"
    by (auto simp: echo_queue_def nth_eq_iff_index_eq)
  have sys: "ret = 1 \<and> mq_wf m1 \<and> mq_list m1 = []" if "type = EVENT_SYS"
    using inv a(2,3) ne(3) [OF that] pop_empty [of m] by (auto simp: served_def)
  have "served qs w' ws"
    using served_hidden [OF inv ne(1), of m1] sys ne(2) t a(5) by auto
  then show ?thesis
    using sys a(4) by auto
qed

lemma loop_route_served: "served qs w ws \<Longrightarrow> loop_route e n w = Some w' \<Longrightarrow> served qs w' ws"
proof (induction n arbitrary: w)
  case (Suc n)
  from Suc.prems(2) obtain s w1 where
    p: "pop_queue EVENT_NET w = Some (s, w1)"
      "(case s of None \<Rightarrow> Some w1 | Some a \<Rightarrow> do { (_, w) \<leftarrow> misaka_packet_route e (Some a) w1; loop_route e n w }) = Some w'"
    by (auto split: Option.bind_splits)
  have s1: "served qs w1 ws"
    using pop_queue_served [OF Suc.prems(1) _ p(1)] by simp
  show ?case
  proof (cases s)
    case (Some a)
    with p(2) obtain r w2 where "misaka_packet_route e (Some a) w1 = Some (r, w2)" "loop_route e n w2 = Some w'"
      by (auto split: Option.bind_splits)
    then show ?thesis
      using Suc.IH [of w2] s1 served_cong [OF view_route] by blast
  qed (use p(2) s1 in simp)
qed simp

lemma loop_timer_served:
  assumes "served qs w ws" "loop_timer e n w = Some w'"
  shows "served qs w' ws"
proof (cases n)
  case (Suc m)
  with assms(2) obtain s w1 where p: "pop_queue EVENT_SYS w = Some (s, w1)"
    by (auto split: Option.bind_splits)
  with pop_queue_served [OF assms(1) _ p] assms(2) Suc show ?thesis
    by simp
qed (use assms in simp)

lemma loop_sys_served:
  assumes "served qs w ws" "misaka_loop_sys e w = Some w'"
  shows "served qs w' ws"
proof -
  from assms(2) obtain w1 tm fired where l: "loop_timer e MISAKA_TIMER_SANDS w = Some w1"
      "server_timer_updatetime (e_clock e) (w_timer w1) = Some (tm, fired)" "route_all e fired (w1\<lparr>w_timer := tm\<rparr>) = Some w'"
    by (auto simp: misaka_loop_sys_def misaka_packet_loop_timer_def split: Option.bind_splits)
  note s1 = loop_timer_served [OF assms(1) l(1)]
  have "idle tm" "fired = []"
    using idle_updatetime [OF _ l(2)] s1 by (simp_all add: served_def)
  then show ?thesis
    using l(3) s1 by (auto simp: served_def echo_queue_def) blast
qed

lemma echo_routed_served:
  assumes "served qs w ws" "echo_routed e w w'"
  shows "served qs w' ws"
  using assms(2) unfolding echo_routed_def
proof (elim disjE exE conjE)
  fix r q w1 w2
  assume a: "view w1 = view w" "w_pk w1 r = Some q" "s_type (pk_s q) = EVENT_ECHO" "misaka_packet_task_route e r w1 = Some w2" "view w' = view w2"
  then have "served qs w2 ws"
    using task_route_served [of qs w1 ws r q e w2] assms(1) served_cong [of w1 w] by simp
  then show ?thesis
    using a(5) served_cong by blast
qed (use assms(1) served_cong in blast)

lemma server_step_served:
  assumes "server_step s t" "served qs (sv_world s) (sv_workers s)"
  shows "served qs (sv_world t) (sv_workers t)"
  using assms(1)
proof cases
  case (on_connect e a w)
  then show ?thesis
    using assms(2) served_cong [OF view_start_thread] by simp
next
  case (on_read e a w)
  then show ?thesis
    using echo_routed_served [OF assms(2) read_routed] by simp
next
  case (on_write e a w)
  then show ?thesis
    using assms(2) served_cong [OF view_write] by simp
next
  case (on_watch e w)
  then show ?thesis
    using assms(2) loop_route_served by (auto simp: misaka_loop_watch_def misaka_packet_loop_route_def)
next
  case (on_sys e w)
  then show ?thesis
    using assms(2) loop_sys_served by simp
next
  case (take_job i)
  have "served qs (sv_world s) ((sv_workers s)(i \<mapsto> worker_start))"
    using assms(2) sched_start_ok [where i = i] take_job(3) unfolding served_def by fastforce
  then show ?thesis
    using take_job(1) by simp
next
  case (work i k e k' w)
  then show ?thesis
    using worker_turn_served [OF assms(2)] by simp
qed

lemma server_reach_served:
  "server_reach s t \<Longrightarrow> served qs (sv_world s) (sv_workers s) \<Longrightarrow> served qs (sv_world t) (sv_workers t)"
  by (induction rule: server_reach.induct) (auto dest: server_step_served)

end
