(* ===== verification/Program.thy ===== *)
theory Program
  imports Composition
begin

text \<open>
  The echo program as a whole: \<open>main\<close> of \<open>misaka/app/echo/main.c\<close> establishes the invariant of theory \<open>Composition\<close> and starts the
  listening peer, and the running server keeps the invariant.
\<close>

section \<open>The start\<close>

text \<open>After \<open>core_init\<close>.\<close>

lemma core_init_served:
  assumes "core_init b w = Some (0, w')" "st_mq (w_mq w) = Map.empty" "distinct (bt_queues b)" "length (bt_queues b) = 4"
  shows "served (bt_queues b) w' Map.empty" "w_events w' = replicate 4 zero_event" "w_event_list w' = []"
proof -
  let ?mq = "create_queues (bt_queues b) (skynet_mq_init (w_mq w))"
  from assms(1) have w': "w_mq w' = ?mq" "w_queues w' = bt_queues b" "w_timer w' = server_timer_init (bt_realtime b) (bt_monotonic b)"
    and ev: "w_events w' = replicate 4 zero_event" "w_event_list w' = []"
    by (auto simp: core_init_def Let_def split: Option.bind_splits if_splits)
  show "w_events w' = replicate 4 zero_event" "w_event_list w' = []"
    by (fact ev)+
  have sys: "st_mq ?mq (bt_queues b ! 2) = Some (skynet_mq_create 2)"
    using create_queues_spec(1) [OF assms(3,2), of 2] assms(4) by simp
  let ?s = "\<lparr>sc_mq = hide (- {bt_queues b ! 1}) ?mq, sc_jobs = 0, sc_workers = Map.empty, sc_in = (\<lambda>a. []), sc_out = (\<lambda>a. [])\<rparr> :: addr sched"
  note v = create_queues_views [OF assms(3,2)]
  have nx: "nxt (sc_mq ?s) a = None \<or> nxt (sc_mq ?s) a = Some None" for a
    using created_queue [OF assms(3,2), of a] by (cases "st_mq ?mq a") (auto simp: nxt_def)
  then have "gq_rep (sc_mq ?s) []"
    using create_queues_spec(3) [OF assms(3,2)] by (auto simp: gq_rep_def)
  then have g: "gq_wf (sc_mq ?s)" "glist (sc_mq ?s) = []"
    by (rule gq_wfI, rule gq_rep_glist)
  have "msgs (sc_mq ?s) a = []" "flag (sc_mq ?s) a = 0" for a
    using v(3,4) [of a] by (auto simp: msgs_def flag_def)
  then have "sched_inv ?s"
    using g v(1) by (simp add: sched_inv_def queues_wf_def holds_def)
  moreover have "idle (server_timer_init c d :: addr timer)" for c d
    by (auto simp: server_timer_init_def server_timer_create_timer_def Let_def split_beta intro!: idleI)
  ultimately show "served (bt_queues b) w' Map.empty"
    unfolding served_def w' ev echo_queue_def using assms(3,4) sys by auto
qed

lemma view_listen_init:
  assumes "tcp_listen_init e port w = (r, w')"
  shows "view w' = view w"
proof -
  obtain r1 w1 where c: "peer_tcp_create e None 0 (ucast port) w = (r1, w1)"
    by fastforce
  then have "view w1 = view w"
    by (auto simp: peer_tcp_create_def dest!: view_new split: prod.splits option.splits)
  then show ?thesis
    using assms c by (auto simp: tcp_listen_init_def dest: view_with_new)
qed

text \<open>After \<open>core_register\<close> the only plugin is the one of the echo event.\<close>

lemma core_register_view:
  assumes "core_register e file w = Some (r, w')" "length (w_events w) = 4"
  shows "\<exists>bs. view w' = view (w\<lparr>w_events := (w_events w)[1 := (w_events w ! 1)\<lparr>eh_plug := LUA_PLUGIN_TYPE, eh_path := bs\<rparr>]\<rparr>)"
proof -
  from assms obtain bs where bs: "register_lua_event file EVENT_ECHO w =
      Some (0, w\<lparr>w_events := (w_events w)[1 := (w_events w ! 1)\<lparr>eh_plug := LUA_PLUGIN_TYPE, eh_path := bs\<rparr>]\<rparr>)" (is "_ = Some (0, ?w)")
    by (auto simp: core_register_def register_lua_event_def register_event_def Let_def split: Option.bind_splits if_splits)
  obtain p w1 where l: "tcp_listen_init e TCP_DSTPORT (?w\<lparr>w_role := ROLE_SERVER\<rparr>) = (p, w1)"
    by fastforce
  have "view w' = view w1"
    using assms(1) bs l by (auto simp: core_register_def Let_def dest!: view_register view_start split: Option.bind_splits)
  then show ?thesis
    using view_listen_init [OF l] by auto
qed

text \<open>After the loading loop the list of events is that event, with the loaded function.\<close>

lemma core_run_load_echo:
  assumes "core_run_load ld w = (0, w')" "w_events w = [zero_event, h, zero_event, zero_event]" "eh_plug h = LUA_PLUGIN_TYPE" "w_event_list w = []"
  shows "\<exists>ev h'. w_event_list w' = [1] \<and> w_events w' ! 1 = h' \<and> eh_plug h' = LUA_PLUGIN_TYPE \<and> eh_lhandle h' = Some (ld_lua ld) \<and>
    view w' = view (w\<lparr>w_events := ev, w_event_list := [1]\<rparr>)"
proof -
  have z: "eh_plug zero_event = NONE_PLUGIN_TYPE"
    by (simp add: zero_event_def)
  show ?thesis
    using assms by (auto simp: core_run_load_def misaka_load_event_def set_event_def z Let_def view_def numeral_eq_Suc)
qed

lemma lua_sets_no_timer:
  assumes "eh_plug h = LUA_PLUGIN_TYPE" "eh_lhandle h = Some f"
    and "\<And>x t src dst str. f x = Some (t, src, dst, str) \<Longrightarrow> t \<noteq> EVENT_SYS"
  shows "sets_no_timer h"
  using assms by (auto simp: sets_no_timer_def run_plugin_def split: Option.bind_splits option.splits)

text \<open>All allocations of \<open>core_init\<close> succeed.\<close>

definition boot_ok :: "boot \<Rightarrow> bool" where
  "boot_ok b \<longleftrightarrow> bt_loop b \<and> bt_peer_list b \<and> bt_hash b \<and> bt_event_list b \<and> bt_idmaker b \<and> bt_thpool b \<and> bt_watch b \<and> bt_old b"

lemma core_init_zero: "boot_ok b \<Longrightarrow> core_init b w = Some (r, w') \<Longrightarrow> r = 0"
  by (auto simp: core_init_def boot_ok_def Let_def split: Option.bind_splits)

lemma load_loop_ret: "load_loop ld is w = (r, w') \<Longrightarrow> r = 0 \<or> r = -1"
  by (induction "is" arbitrary: w) (auto split: prod.splits if_splits)

lemma opt_loop_d: "set opts \<subseteq> {CHR ''d''} \<Longrightarrow> \<exists>bg. opt_loop opts x = Some bg"
  by (induction opts arbitrary: x) auto

lemma echo_main_parts:
  assumes "echo_main opts b e file ld w = Some (None, w3)" "boot_ok b"
  obtains w1 r w2 where "core_init b w = Some (0, w1)" "core_register e file w1 = Some (r, w2)" "core_run_load ld w2 = (0, w3)"
proof -
  from assms(1) obtain i w1 r w2 where p: "core_init b w = Some (i, w1)" "core_register e file w1 = Some (r, w2)"
    by (auto simp: echo_main_def Let_def split: Option.bind_splits option.splits)
  obtain ret w' where l: "core_run_load ld w2 = (ret, w')"
    by fastforce
  with p assms(1) have "\<not> ret < 0" "w' = w3"
    by (auto simp: echo_main_def Let_def split: option.splits if_splits)
  moreover have "ret = 0 \<or> ret = -1"
    using l load_loop_ret unfolding core_run_load_def by blast
  ultimately have "core_run_load ld w2 = (0, w3)"
    using l by auto
  then show thesis
    using that [OF _ p(2)] p(1) core_init_zero [OF assms(2) p(1)] by simp
qed

text \<open>The echo program up to its event loop: \<open>core_init\<close>, \<open>core_register\<close> and the loading loop of \<open>core_run\<close>.\<close>

lemma echo_program_served:
  assumes main: "echo_main opts b e file ld w = Some (None, w3)" "boot_ok b"
    and m: "st_mq (w_mq w) = Map.empty" "distinct (bt_queues b)" "length (bt_queues b) = 4"
    and f: "\<And>x t src dst str. ld_lua ld x = Some (t, src, dst, str) \<Longrightarrow> t \<noteq> EVENT_SYS"
  shows "served (bt_queues b) w3 Map.empty"
proof -
  from echo_main_parts [OF main] obtain w1 r w2 where
    s: "core_init b w = Some (0, w1)" "core_register e file w1 = Some (r, w2)" "core_run_load ld w2 = (0, w3)"
    by blast
  note i = core_init_served [OF s(1) m]
  from core_register_view [OF s(2)] i(2) obtain bs where
    v: "view w2 = view (w1\<lparr>w_events := (w_events w1)[1 := (w_events w1 ! 1)\<lparr>eh_plug := LUA_PLUGIN_TYPE, eh_path := bs\<rparr>]\<rparr>)"
    by auto
  let ?h = "zero_event\<lparr>eh_plug := LUA_PLUGIN_TYPE, eh_path := bs\<rparr>"
  have "w_events w2 = [zero_event, ?h, zero_event, zero_event]" "w_event_list w2 = []"
    using v i(2,3) by (simp_all add: view_def numeral_eq_Suc)
  from core_run_load_echo [OF s(3) this(1) _ this(2)] obtain ev h where
    l: "w_event_list w3 = [1]" "w_events w3 ! 1 = h" "eh_plug h = LUA_PLUGIN_TYPE" "eh_lhandle h = Some (ld_lua ld)"
      "view w3 = view (w2\<lparr>w_events := ev, w_event_list := [1]\<rparr>)"
    by auto
  have "sets_no_timer (w_events w3 ! 1)"
    using lua_sets_no_timer [OF l(3,4)] f l(2) by blast
  moreover have eq: "w_mq w3 = w_mq w1" "w_queues w3 = w_queues w1" "w_timer w3 = w_timer w1"
    using l(5) v by (simp_all add: view_def)
  ultimately show ?thesis
    using i(1) unfolding served_def echo_queue_def eq l(1) by (elim conjE, intro conjI) simp_all
qed

section \<open>The echo program starts\<close>

text \<open>The memory \<open>tcp_listen_init\<close>, \<open>peer_register\<close> and \<open>misaka_start\<close> ask for.\<close>

definition listen_mem :: "env \<Rightarrow> addr \<Rightarrow> bool" where
  "listen_mem e a \<longleftrightarrow> e_peer_mem e = Some a \<and> stream_new (e_malloc e) (e_ibuf_mem e) MISAKA_MAX_PACKET_SIZE \<noteq> None \<and> e_fifo_mem e \<and>
     e_read_mem e \<noteq> None \<and> e_write_mem e \<noteq> None \<and> e_connect_mem e \<noteq> None \<and> e_hash_mem e"

lemma core_init_ok:
  assumes "boot_ok b" "w_peers w = Map.empty"
  shows "\<exists>w'. core_init b w = Some (0, w') \<and> w_peers w' = Map.empty \<and> (\<forall>ps. table_wf ps (w_hash w') \<and> table_map ps (w_hash w') = Map.empty) \<and>
    (\<forall>a. \<not> in_table (w_hash w') a) \<and> w_events w' = replicate 4 zero_event \<and> w_event_list w' = [] \<and> w_mid w' = idmaker_new (bt_id_garbage b) 100 99999"
proof -
  obtain h where h: "hash_create (peer_key (w_peers w)) (peer_cmp (w_peers w)) = Some h"
    using hash_create_Some by blast
  show ?thesis
    using assms h empty_table [OF h] by (auto simp: core_init_def boot_ok_def Let_def)
qed

lemma listen_init_ok:
  assumes "listen_mem e a"
  shows "\<exists>w' p. tcp_listen_init e port w = (Some a, w') \<and> w_peers w' a = Some p \<and> w_hash w' = w_hash w \<and> w_mid w' = w_mid w \<and>
    w_event_list w' = w_event_list w \<and> p_start p = Some Start_tcp_listen \<and> p_read p = Some Read_tcp_accept \<and> p_mode p = MODE_LISTEN \<and> p_quick p = 0"
  using assms
  by (auto simp: listen_mem_def tcp_listen_init_def peer_tcp_create_def peer_new_def with_new_def set_peer_def peer_init_def zero_peer_def Let_def)

text \<open>Registering without loaded plugins, and starting without quick connect.\<close>

lemma register_quiet:
  assumes "reg_wf w" "w_peers w a = Some p" "\<not> in_table (w_hash w) a" "idmaker_get (w_mid w) = Some ((i, fl), mid)" "registered w i = None"
    and "e_hash_mem e" "w_event_list w = []"
  shows "\<exists>w'. peer_register e a w = Some w' \<and> registered w' = (registered w)(i \<mapsto> a) \<and> w_peers w' = (w_peers w)(a \<mapsto> p\<lparr>p_drole := i\<rparr>)"
proof -
  have "connect_keeps w"
    using assms(7) by (simp add: connect_keeps_def run_connect_def run_disconnect_def)
  from register_adds [OF assms(1-6) this] obtain w' where w': "peer_register e a w = Some w'" "registered w' = (registered w)(i \<mapsto> a)"
    by blast
  then have "w_peers w' = (w_peers w)(a \<mapsto> p\<lparr>p_drole := i\<rparr>)"
    using assms(2,4,7) by (auto simp: peer_register_def run_connect_def Let_def split: Option.bind_splits if_splits)
  with w' show ?thesis
    by blast
qed

lemma start_timer:
  assumes "w_peers w a = Some p" "p_quick p = 0" "p_parser p = Some f" "e_connect_mem e = Some c"
  shows "\<exists>t w'. t = ev_periodic_start (e_ev e) (ev_periodic_init (e_ev e) (c\<lparr>ev_data := Some a\<rparr>) CB_misaka_start_thread) \<and>
    misaka_start e a w = Some (0, w') \<and> w' = set_peer a (run_parser f (p\<lparr>p_t_connect := Some t\<rparr>)) w"
  using assms by (auto simp: misaka_start_def set_peer_def Let_def)

text \<open>\<open>core_register\<close> in a world with an empty table: the listening peer is registered and its start is scheduled.\<close>

definition listening :: "env \<Rightarrow> addr \<Rightarrow> peer \<Rightarrow> bool" where
  "listening e a p \<longleftrightarrow> p_start p = Some Start_tcp_listen \<and> p_read p = Some Read_tcp_accept \<and> p_mode p = MODE_LISTEN \<and> p_role p = ROLE_SERVER \<and>
     (\<exists>c. e_connect_mem e = Some c \<and>
        p_t_connect p = Some (ev_periodic_start (e_ev e) (ev_periodic_init (e_ev e) (c\<lparr>ev_data := Some a\<rparr>) CB_misaka_start_thread)))"

lemma core_register_ok:
  assumes m: "listen_mem e a" and f: "0 \<in> set file"
    and w: "w_peers w = Map.empty" "\<forall>ps. table_wf ps (w_hash w) \<and> table_map ps (w_hash w) = Map.empty" "\<forall>a. \<not> in_table (w_hash w) a"
      "w_events w = replicate 4 zero_event" "w_event_list w = []"
    and g: "w_mid w = idmaker_new g 100 99999" "g \<noteq> 99999" "sint g \<noteq> INT_MAX"
  shows "\<exists>w' p. core_register e file w = Some (0, w') \<and> registered w' g = Some a \<and> w_peers w' a = Some p \<and> listening e a p"
proof -
  from f obtain bs where "cstr file = Some bs"
    by (auto simp: cstr_def)
  then obtain ev where l: "register_lua_event file EVENT_ECHO w = Some (0, w\<lparr>w_events := ev\<rparr>)"
    using w(4) by (auto simp: register_lua_event_def register_event_def snprintf_s_def wr_seg_def zero_event_def Let_def)
  from listen_init_ok [OF m, of TCP_DSTPORT "w\<lparr>w_events := ev, w_role := ROLE_SERVER\<rparr>"] obtain w1 p where
    i: "tcp_listen_init e TCP_DSTPORT (w\<lparr>w_events := ev, w_role := ROLE_SERVER\<rparr>) = (Some a, w1)" "w_peers w1 a = Some p" "w_hash w1 = w_hash w"
      "w_mid w1 = w_mid w" "w_event_list w1 = []" "p_start p = Some Start_tcp_listen" "p_read p = Some Read_tcp_accept" "p_mode p = MODE_LISTEN" "p_quick p = 0"
    using w(5) by auto
  let ?p = "p\<lparr>p_parser := Some Parser_normal, p_listens := 3, p_on_connect := 1, p_on_disconnect := 1, p_role := ROLE_SERVER, p_drole := ROLE_TCP\<rparr>"
  let ?w = "set_peer a ?p w1"
  have im: "idmaker_get (w_mid ?w) = Some ((g, 1), (w_mid w)\<lparr>im_curr := g + 1\<rparr>)"
    using i(4) g by (simp add: set_peer_def idmaker_get_def idmaker_new_def)
  have t: "reg_wf ?w" "registered ?w = Map.empty" "\<not> in_table (w_hash ?w) a" "w_peers ?w a = Some ?p" "e_hash_mem e" "w_event_list ?w = []"
    using w(2,3) i(3,5) m by (simp_all add: reg_wf_def registered_def set_peer_def listen_mem_def)
  from t(2) have "registered ?w g = None"
    by simp
  from register_quiet [OF t(1,4,3) im this t(5,6)] t(2) obtain w2 where w2: "peer_register e a ?w = Some w2" "registered w2 = [g \<mapsto> a]" "w_peers w2 a = Some (?p\<lparr>p_drole := g\<rparr>)"
    by auto
  obtain c where c: "e_connect_mem e = Some c"
    using m by (auto simp: listen_mem_def)
  let ?t = "ev_periodic_start (e_ev e) (ev_periodic_init (e_ev e) (c\<lparr>ev_data := Some a\<rparr>) CB_misaka_start_thread)"
  let ?q = "run_parser Parser_normal (?p\<lparr>p_drole := g, p_t_connect := Some ?t\<rparr>)"
  have "core_register e file w = Some (0, set_peer a ?q w2)"
    using l i(1,2) w2(1) start_timer [OF w2(3) _ _ c] i(9) by (simp add: core_register_def)
  moreover have "registered (set_peer a ?q w2) = registered w2"
    using table_same_drole(2) [of "w_peers w2" a, OF w2(3)] by (simp add: registered_def set_peer_def run_parser_def normal_parser_init_def)
  moreover have "listening e a ?q"
    using i(6-8) c by (simp add: listening_def run_parser_def normal_parser_init_def)
  ultimately show ?thesis
    using w2(2) by (auto simp: set_peer_def)
qed

lemma start_runs:
  assumes "set opts \<subseteq> {CHR ''d''}" "boot_ok b" "w_peers w = Map.empty" "listen_mem e a" "0 \<in> set file" "bt_id_garbage b \<noteq> 99999" "sint (bt_id_garbage b) \<noteq> INT_MAX"
  shows "\<exists>w3 p. echo_main opts b e file ld w = Some (None, w3) \<and> registered w3 (bt_id_garbage b) = Some a \<and> w_peers w3 a = Some p \<and> listening e a p \<and>
    w_event_list w3 = [1] \<and> eh_lhandle (w_events w3 ! 1) = Some (ld_lua ld)"
proof -
  from core_init_ok [OF assms(2,3)] obtain w1 where
    i: "core_init b w = Some (0, w1)" "w_peers w1 = Map.empty" "\<forall>ps. table_wf ps (w_hash w1) \<and> table_map ps (w_hash w1) = Map.empty"
      "\<forall>a. \<not> in_table (w_hash w1) a" "w_events w1 = replicate 4 zero_event" "w_event_list w1 = []" "w_mid w1 = idmaker_new (bt_id_garbage b) 100 99999"
    by blast
  from core_register_ok [OF assms(4,5) i(2-7) assms(6,7)] obtain w2 p where
    r: "core_register e file w1 = Some (0, w2)" "registered w2 (bt_id_garbage b) = Some a" "w_peers w2 a = Some p" "listening e a p"
    by blast
  from core_register_view [OF r(1)] i(5) obtain bs where
    "view w2 = view (w1\<lparr>w_events := (w_events w1)[1 := (w_events w1 ! 1)\<lparr>eh_plug := LUA_PLUGIN_TYPE, eh_path := bs\<rparr>]\<rparr>)"
    by auto
  then have v: "w_events w2 = [zero_event, zero_event\<lparr>eh_plug := LUA_PLUGIN_TYPE, eh_path := bs\<rparr>, zero_event, zero_event]" "w_event_list w2 = []"
    using i(5,6) by (simp_all add: view_def numeral_eq_Suc)
  have "eh_plug zero_event = NONE_PLUGIN_TYPE"
    by (simp add: zero_event_def)
  with v have "\<exists>w3. core_run_load ld w2 = (0, w3) \<and> w_peers w3 = w_peers w2 \<and> w_hash w3 = w_hash w2"
    by (simp add: core_run_load_def misaka_load_event_def set_event_def Let_def numeral_eq_Suc)
  then obtain w3 where l: "core_run_load ld w2 = (0, w3)" "w_peers w3 = w_peers w2" "w_hash w3 = w_hash w2"
    by blast
  from opt_loop_d [OF assms(1)] obtain bg where "opt_loop opts False = Some bg"
    by blast
  then have "echo_main opts b e file ld w = Some (None, w3)"
    using i(1) r(1) l(1) by (simp add: echo_main_def)
  with core_run_load_echo [OF l(1) v(1) _ v(2)] show ?thesis
    using r l by (auto simp: registered_def)
qed

section \<open>Properties\<close>


text \<open>C7: The echo program starts. With its allocations successful, with no option but \<open>d\<close> and whatever the loader finds,
  \<open>main\<close> enters the event loop. Then the listening peer is registered under the number the uninitialised counter
  of the identifier pool held, its timer for \<open>misaka_start_thread\<close> is started, and the loaded Lua function is the only plugin.\<close>

theorem echo_program_starts:
  assumes "set opts \<subseteq> {CHR ''d''}" "boot_ok b" "w_peers w = Map.empty" "listen_mem e a" "0 \<in> set file" "bt_id_garbage b \<noteq> 99999" "sint (bt_id_garbage b) \<noteq> INT_MAX"
  shows "\<exists>w3 p. echo_main opts b e file ld w = Some (None, w3) \<and> registered w3 (bt_id_garbage b) = Some a \<and> w_peers w3 a = Some p \<and> listening e a p \<and>
    w_event_list w3 = [1] \<and> eh_lhandle (w_events w3 ! 1) = Some (ld_lua ld)"
  by (rule start_runs [OF assms])

text \<open>A script that answers every packet.\<close>

definition echo_loader :: loader where
  "echo_loader = \<lparr>ld_dlopen = None, ld_lua = (\<lambda>(type, src, dst, str). Some (EVENT_NET, dst, src, Some str)), ld_module = False,
     ld_dict = False, ld_pFunc = None, ld_pInit = False, ld_pDeinit = False\<rparr>"

lemma plain_start: "boot_ok fair_boot" "w_peers bare_world = Map.empty" "st_mq (w_mq bare_world) = Map.empty" "listen_mem plain_env 1"
  "bt_queues fair_boot = [10, 11, 12, 13]" "bt_id_garbage fair_boot = 100"
  by (simp_all add: boot_ok_def fair_boot_def bare_world_def listen_mem_def plain_env_def stream_new_def misakamalloc_def zero_malloc_def)

theorem echo_program_starts_witness:
  "\<exists>w p. echo_main ''d'' fair_boot plain_env [47, 0] echo_loader bare_world = Some (None, w) \<and> registered w 100 = Some 1 \<and>
     w_peers w 1 = Some p \<and> listening plain_env 1 p"
  using echo_program_starts [of "''d''" fair_boot bare_world plain_env 1 "[47, 0]" echo_loader] plain_start by (auto 0 3)


end
