(* ===== verification/Echo.thy ===== *)
theory Echo
  imports Boot
begin

text \<open>
  A packet on its way through the server: from the read buffer of its peer into a task queue, through the
  plugin into the network queue, and from there to the output fifo of a peer. The lemmas give the effect of
  each station on the queues and stores; the properties compose them.
\<close>

section \<open>Routing into the queues\<close>

lemma task_route_effect:
  assumes "queues_wf (w_mq w)" "alloc_ok (e_mq_alloc e)" "w_pk w s = Some q" "ready (s_type (pk_s q)) w a"
  shows "\<exists>mq. misaka_packet_task_route e s w =
      Some (w\<lparr>w_mq := mq, w_jobs := (if e_job_mem e then w_jobs w + 1 else w_jobs w)\<rparr>) \<and> queues_wf mq \<and>
    msgs mq = (msgs (w_mq w))(a := msgs (w_mq w) a @ [s]) \<and>
    flag mq = (flag (w_mq w))(a := (if flag (w_mq w) a = 0 then 1 else flag (w_mq w) a)) \<and>
    glist mq = (if flag (w_mq w) a = 0 then glist (w_mq w) @ [a] else glist (w_mq w)) \<and>
    (\<forall>b. (st_mq mq b = None) = (st_mq (w_mq w) b = None)) \<and> handle_of mq = handle_of (w_mq w)"
proof -
  from ready_room [OF assms(4)] obtain m where m: "st_mq (w_mq w) a = Some m" "ring_room m"
    by blast
  have "flag (w_mq w) a = 0 \<Longrightarrow> a \<notin> set (glist (w_mq w))" "queue_of (s_type (pk_s q)) w = Some a"
    using assms(4) by (simp_all add: ready_def)
  with mq_push_ok [OF assms(1,2) m, of s] show ?thesis
    using assms(3) by (auto simp: misaka_packet_task_route_def dest: push_handle)
qed

text \<open>The network queue is marked as scheduled before the push, so the push does not link it.\<close>

lemma net_route_effect:
  assumes wf: "queues_wf (w_mq w)" and alloc: "alloc_ok (e_mq_alloc e)" and s: "w_pk w s = Some q" and r: "ready EVENT_NET w a"
  shows "\<exists>mq. misaka_packet_net_route e s w =
      Some (w\<lparr>w_pk := (w_pk w)(s \<mapsto> q\<lparr>pk_s := (pk_s q)\<lparr>s_type := EVENT_NET\<rparr>\<rparr>), w_mq := mq\<rparr>) \<and> queues_wf mq \<and>
    msgs mq = (msgs (w_mq w))(a := msgs (w_mq w) a @ [s]) \<and> flag mq = (flag (w_mq w))(a := 1) \<and>
    glist mq = glist (w_mq w)"
proof -
  from ready_room [OF r] obtain m where m: "st_mq (w_mq w) a = Some m" "ring_room m"
    by blast
  let ?m = "skynet_mq_global m 1"
  let ?st = "upd_mq a ?m (w_mq w)"
  have v: "glist ?st = glist (w_mq w)" "gq_wf ?st = gq_wf (w_mq w)" "msgs ?st = (msgs (w_mq w))(a := mq_list ?m)"
    "flag ?st = (flag (w_mq w))(a := 1)"
    using upd_views [OF m(1), of ?m] by (simp_all add: skynet_mq_global_def)
  have l: "mq_list ?m = mq_list m" "mq_wf ?m = mq_wf m"
    by (simp_all add: skynet_mq_global_def)
  have "queues_wf ?st"
    using wf v(2) l(2) m(1) by (auto simp: queues_wf_def upd_mq_def)
  moreover have "ring_room ?m"
    using m(2) l(1) by (metis length_mq_list ring_room_def)
  ultimately have "\<exists>mq. skynet_mq_push (e_mq_alloc e) a s ?st = Some mq \<and> queues_wf mq \<and>
      msgs mq = (msgs ?st)(a := msgs ?st a @ [s]) \<and>
      flag mq = (flag ?st)(a := (if flag ?st a = 0 then 1 else flag ?st a)) \<and>
      glist mq = (if flag ?st a = 0 then glist ?st @ [a] else glist ?st)"
    using mq_push_ok [of ?st "e_mq_alloc e" a ?m s] alloc v(4) by (auto simp: upd_mq_def)
  moreover have "queue_of EVENT_NET w = Some a" "msgs (w_mq w) a = mq_list m"
    using r m(1) by (auto simp: ready_def msgs_def)
  ultimately show ?thesis
    using s m(1) v l by (auto simp: misaka_packet_net_route_def Let_def)
qed

section \<open>From the read buffer into the task queue\<close>

text \<open>The memory a clone is made in.\<close>

definition clone_ok :: "env \<Rightarrow> addr \<Rightarrow> stream \<Rightarrow> bool" where
  "clone_ok e r mem \<longleftrightarrow> malloc_ok (e_malloc e) \<and> e_malloc e MISAKA_MAX_PACKET_SIZE \<noteq> None \<and> e_pk_mem e = Some (r, mem)"

text \<open>What the clone of a packet carries.\<close>

definition clone_of :: "stream \<Rightarrow> stream \<Rightarrow> stream \<Rightarrow> bool" where
  "clone_of mem s st \<longleftrightarrow> stream_wf st \<and> contents st = contents s \<and> s_type st = s_type s \<and> s_src st = s_src s \<and>
     s_dst st = s_dst s \<and> s_nid st = s_nid mem"

lemma clone_effect:
  assumes "clone_ok e r mem" "stream_wf s" "length (contents s) \<le> 256"
  shows "\<exists>st. clone_ibuf e s w = Some (Some r, w\<lparr>w_pk := (w_pk w)(r \<mapsto> \<lparr>pk_next = None, pk_s = st\<rparr>)\<rparr>) \<and> clone_of mem s st"
  using clone_one_spec [OF assms(2,3), of "e_malloc e" mem] assms(1)
  by (auto simp: clone_ok_def clone_ibuf_def clone_of_def)

lemma reset_views [simp]: "contents (s\<lparr>s_dst := d\<rparr>) = contents s"
  by (simp add: contents_def)

lemma action_local:
  assumes p: "w_peers w a = Some p" "p_ibuf p = Some s" "p_sys p = 0" "p_parser p = Some f"
    and s: "stream_wf s" "length (contents s) \<le> 256" "s_nid s = w_role w"
    and c: "clone_ok e r mem" and q: "queues_wf (w_mq w)" "alloc_ok (e_mq_alloc e)" "ready EVENT_ECHO w qe"
  shows "\<exists>st mq w'. read_io_action e IO_PACKET a w = Some w' \<and>
    w_pk w' = (w_pk w)(r \<mapsto> \<lparr>pk_next = None, pk_s = st\<rparr>) \<and> w_mq w' = mq \<and> queues_wf mq \<and>
    msgs mq = (msgs (w_mq w))(qe := msgs (w_mq w) qe @ [r]) \<and>
    glist mq = (if flag (w_mq w) qe = 0 then glist (w_mq w) @ [qe] else glist (w_mq w)) \<and>
    flag mq = (flag (w_mq w))(qe := (if flag (w_mq w) qe = 0 then 1 else flag (w_mq w) qe)) \<and>
    (\<forall>b. (st_mq mq b = None) = (st_mq (w_mq w) b = None)) \<and> handle_of mq = handle_of (w_mq w) \<and>
    stream_wf st \<and> contents st = contents s \<and> s_type st = EVENT_ECHO \<and> s_src st = p_drole p \<and> s_dst st = w_role w \<and>
    s_nid st = s_nid mem \<and> w_jobs w' = (if e_job_mem e then w_jobs w + 1 else w_jobs w) \<and>
    w_peers w' = (w_peers w)(a \<mapsto> run_parser f (p\<lparr>p_ibuf := Some (stream_reset
      (s\<lparr>s_src := p_drole p, s_flag := 0, s_dst := w_role w, s_type := EVENT_ECHO\<rparr>))\<rparr>)) \<and>
    w_hash w' = w_hash w \<and> w_queues w' = w_queues w \<and> w_events w' = w_events w \<and> w_event_list w' = w_event_list w"
proof -
  let ?s = "s\<lparr>s_src := p_drole p, s_flag := 0, s_dst := w_role w, s_type := EVENT_ECHO\<rparr>"
  let ?w = "set_peer a (p\<lparr>p_ibuf := Some ?s\<rparr>) w"
  have "stream_wf ?s" "contents ?s = contents s"
    using s(1) by (simp_all add: stream_wf_iff contents_def)
  with clone_effect [OF c, of ?s ?w] s(2) obtain st where
    st: "clone_ibuf e ?s ?w = Some (Some r, ?w\<lparr>w_pk := (w_pk ?w)(r \<mapsto> \<lparr>pk_next = None, pk_s = st\<rparr>)\<rparr>)" "clone_of mem ?s st"
      "contents st = contents s"
    by (auto simp: clone_of_def)
  let ?w1 = "?w\<lparr>w_pk := (w_pk ?w)(r \<mapsto> \<lparr>pk_next = None, pk_s = st\<rparr>)\<rparr>"
  have t: "s_type st = EVENT_ECHO" "stream_wf st" "s_src st = p_drole p" "s_dst st = w_role w" "s_nid st = s_nid mem"
    using st(2) by (simp_all add: clone_of_def)
  have "ready (s_type st) ?w1 qe"
    using q(3) t(1) by simp
  with task_route_effect [of ?w1 e r "\<lparr>pk_next = None, pk_s = st\<rparr>" qe] q obtain mq where
    mq: "misaka_packet_task_route e r ?w1 = Some (?w1\<lparr>w_mq := mq, w_jobs := (if e_job_mem e then w_jobs w + 1 else w_jobs w)\<rparr>)"
      "queues_wf mq" "msgs mq = (msgs (w_mq w))(qe := msgs (w_mq w) qe @ [r])"
      "glist mq = (if flag (w_mq w) qe = 0 then glist (w_mq w) @ [qe] else glist (w_mq w))"
      "flag mq = (flag (w_mq w))(qe := (if flag (w_mq w) qe = 0 then 1 else flag (w_mq w) qe))"
      "\<forall>b. (st_mq mq b = None) = (st_mq (w_mq w) b = None)" "handle_of mq = handle_of (w_mq w)"
    by (cases "e_job_mem e") (auto simp: set_peer_def)
  have "deliver_packet e a ?s ?w = Some (?w1\<lparr>w_mq := mq, w_jobs := (if e_job_mem e then w_jobs w + 1 else w_jobs w)\<rparr>)"
    using st(1) mq(1) t(1) s(3) p(3) by (simp add: deliver_packet_def set_peer_def)
  then have "read_io_action e IO_PACKET a w = Some (set_peer a (run_parser f (p\<lparr>p_ibuf := Some (stream_reset ?s)\<rparr>))
      (?w1\<lparr>w_mq := mq, w_jobs := (if e_job_mem e then w_jobs w + 1 else w_jobs w)\<rparr>))"
    using p by (simp add: read_io_action_def Let_def set_peer_def)
  then show ?thesis
    using t st(3) mq by (auto simp: set_peer_def)
qed

section \<open>Popping a queue of the world\<close>

lemma upd_queues_wf: "queues_wf st \<Longrightarrow> st_mq st a = Some q \<Longrightarrow> mq_wf q' \<Longrightarrow> mq_next q' = mq_next q \<Longrightarrow> queues_wf (upd_mq a q' st)"
  using upd_views(2) [of st a q q'] by (auto simp: queues_wf_def upd_mq_def)

lemma live_queue:
  assumes "queues_wf (w_mq w)" "st_mq (w_mq w) a \<noteq> None"
  obtains m where "st_mq (w_mq w) a = Some m" "mq_wf m" "mq_list m = msgs (w_mq w) a"
  using assms by (auto simp: queues_wf_def msgs_def)

lemma pop_queue_next:
  assumes wf: "queues_wf (w_mq w)" and a: "queue_of type w = Some a" "st_mq (w_mq w) a \<noteq> None" and m: "msgs (w_mq w) a = x # xs"
  shows "\<exists>mq. pop_queue type w = Some (Some x, w\<lparr>w_mq := mq\<rparr>) \<and> queues_wf mq \<and> msgs mq = (msgs (w_mq w))(a := xs) \<and>
    flag mq = flag (w_mq w) \<and> st_mq mq a \<noteq> None \<and> glist mq = glist (w_mq w)"
proof -
  obtain q where q: "st_mq (w_mq w) a = Some q" "mq_wf q" "mq_list q = x # xs"
    using live_queue [OF wf a(2)] m by metis
  from pop_next [OF q(2,3)] obtain q' where
    q': "skynet_mq_pop q = Some (0, Some x, q')" "mq_wf q'" "mq_list q' = xs" "mq_in_global q' = mq_in_global q" "mq_next q' = mq_next q"
    by blast
  have "(flag (w_mq w))(a := mq_in_global q') = flag (w_mq w)"
    using q(1) q'(4) by (auto simp: flag_def)
  then show ?thesis
    using a(1) q q' upd_views [OF q(1) q'(5)] upd_queues_wf [OF wf q(1) q'(2,5)]
    by (intro exI [of _ "upd_mq a q' (w_mq w)"]) (simp add: pop_queue_def upd_mq_def)
qed

text \<open>Popping an empty queue marks it as not scheduled.\<close>

lemma pop_queue_empty:
  assumes wf: "queues_wf (w_mq w)" and a: "queue_of type w = Some a" "st_mq (w_mq w) a \<noteq> None" and m: "msgs (w_mq w) a = []"
  shows "\<exists>mq. pop_queue type w = Some (None, w\<lparr>w_mq := mq\<rparr>) \<and> queues_wf mq \<and> msgs mq = msgs (w_mq w) \<and>
    flag mq = (flag (w_mq w))(a := 0) \<and> glist mq = glist (w_mq w) \<and> st_mq mq a \<noteq> None"
proof -
  obtain q where q: "st_mq (w_mq w) a = Some q" "mq_wf q" "mq_list q = []"
    using live_queue [OF wf a(2)] m by metis
  from pop_empty [OF q(2,3)] obtain q' where
    q': "skynet_mq_pop q = Some (1, None, q')" "mq_wf q'" "mq_list q' = []" "mq_in_global q' = 0" "mq_next q' = mq_next q"
    by blast
  have "(msgs (w_mq w))(a := []) = msgs (w_mq w)"
    using m by auto
  then show ?thesis
    using a(1) q q' upd_views [OF q(1) q'(5)] upd_queues_wf [OF wf q(1) q'(2,5)]
    by (intro exI [of _ "upd_mq a q' (w_mq w)"]) (simp add: pop_queue_def upd_mq_def)
qed

section \<open>From the plugin into the network queue\<close>

text \<open>A plugin of the event list that is the only one for its type.\<close>

definition sole_plugin :: "cint \<Rightarrow> event_handle \<Rightarrow> world \<Rightarrow> bool" where
  "sole_plugin type h w \<longleftrightarrow> (\<exists>xs i ys. w_event_list w = xs @ i # ys \<and> w_events w ! i = h \<and> eh_type h = type \<and>
     (\<forall>j \<in> set xs \<union> set ys. eh_type (w_events w ! j) \<noteq> type))"

lemma process_skips:
  "\<forall>j \<in> set xs. eh_type (w_events w ! j) \<noteq> type \<Longrightarrow> process_loop e type s (xs @ zs) w = process_loop e type s zs w"
  by (induction xs) auto

lemma process_sole:
  assumes "sole_plugin type h w" "process_one e s h w = Some (c, w')" "w_events w' = w_events w"
  shows "process_loop e type s (w_event_list w) w = Some w'"
proof -
  from assms(1) obtain xs i ys where l: "w_event_list w = xs @ i # ys" "w_events w ! i = h" "eh_type h = type"
      "\<forall>j \<in> set xs. eh_type (w_events w ! j) \<noteq> type" "\<forall>j \<in> set ys. eh_type (w_events w ! j) \<noteq> type"
    by (auto simp: sole_plugin_def)
  have "process_loop e type s ys w' = Some w'"
    using process_skips [of ys w' type e s "[]"] l(5) assms(3) by simp
  then show ?thesis
    using l assms(2) process_skips [OF l(4)] by (cases c) auto
qed

text \<open>A packet whose plugin sends it to the network is appended to the network queue.\<close>

lemma process_to_net:
  assumes s: "w_pk w s = Some q" "sint EVENT_NONE < sint (s_type (pk_s q))" "sint (s_type (pk_s q)) < sint EVENT_NET"
    and h: "sole_plugin (s_type (pk_s q)) h w" "run_plugin h (pk_s q) = Some (True, st)" "s_type st = EVENT_NET"
    and q: "queues_wf (w_mq w)" "alloc_ok (e_mq_alloc e)" "ready EVENT_NET w a"
  shows "\<exists>mq. misaka_packet_process e s w = Some (w\<lparr>w_pk := (w_pk w)(s \<mapsto> q\<lparr>pk_s := st\<rparr>), w_mq := mq\<rparr>) \<and> queues_wf mq \<and>
    msgs mq = (msgs (w_mq w))(a := msgs (w_mq w) a @ [s]) \<and> glist mq = glist (w_mq w)"
proof -
  let ?w = "w\<lparr>w_pk := (w_pk w)(s \<mapsto> q\<lparr>pk_s := st\<rparr>)\<rparr>"
  have st: "st\<lparr>s_type := EVENT_NET\<rparr> = st"
    using h(3) by (cases st) simp
  from net_route_effect [of ?w e s "q\<lparr>pk_s := st\<rparr>" a] q obtain mq where
    mq: "misaka_packet_net_route e s ?w = Some (w\<lparr>w_pk := (w_pk w)(s \<mapsto> q\<lparr>pk_s := st\<rparr>), w_mq := mq\<rparr>)" "queues_wf mq"
      "msgs mq = (msgs (w_mq w))(a := msgs (w_mq w) a @ [s])" "glist mq = glist (w_mq w)"
    by (auto simp: st)
  have "process_one e s h w = Some (True, w\<lparr>w_pk := (w_pk w)(s \<mapsto> q\<lparr>pk_s := st\<rparr>), w_mq := mq\<rparr>)"
    using s(1) h(2,3) mq(1) by (simp add: process_one_def Let_def)
  from process_sole [OF h(1) this] show ?thesis
    using s mq by (intro exI [of _ mq]) (simp add: misaka_packet_process_def Let_def)
qed

section \<open>From the network queue to the output of a peer\<close>

text \<open>A peer that takes a packet: its pack callback turns the packet into \<open>st\<close>, its output fifo is linked, and
  the packet is not already in it.\<close>

definition takes :: "addr \<Rightarrow> stream \<Rightarrow> addr \<Rightarrow> addr list \<Rightarrow> world \<Rightarrow> bool" where
  "takes r st d as w \<longleftrightarrow> (\<exists>p f q io obuf t. w_peers w d = Some p \<and> p_pack p = Some f \<and> w_pk w r = Some q \<and>
     call_pack f (pk_s q) p = Some (io, st) \<and> p_obuf p = Some obuf \<and> p_t_write p = Some t \<and> fifo_rep obuf (w_pk w) as \<and> r \<notin> set as)"

text \<open>What a peer looks like that has packets to write: the fifo holds them, with the contents they had, and when
  the peer is established its write watcher is active.\<close>

definition holds_output :: "libev \<Rightarrow> addr \<Rightarrow> addr list \<Rightarrow> world \<Rightarrow> bool" where
  "holds_output ev d as w \<longleftrightarrow> (\<exists>p obuf t. w_peers w d = Some p \<and> p_obuf p = Some obuf \<and> fifo_rep obuf (w_pk w) as \<and>
     p_t_write p = Some t \<and> (p_status p = TAT_ESTA \<longrightarrow> ev_is_active ev t = 1))"

lemma route_empty:
  assumes "w_pk w r = Some q" "stream_wf (pk_s q)" "contents (pk_s q) = []"
  shows "misaka_packet_route e (Some r) w = Some (0, w\<lparr>w_pk := (w_pk w)(r := None)\<rparr>)"
proof -
  have "unat (s_endp (pk_s q)) = unat (s_getp (pk_s q))"
    using length_contents [OF assms(2)] assms(2,3) by (simp add: stream_wf_iff)
  then have "s_endp (pk_s q) = s_getp (pk_s q)"
    by (metis unsigned_word_eqI)
  then show ?thesis
    using assms(1) by (simp add: misaka_packet_route_def stream_get_endp_def stream_get_getp_def stream_free_def)
qed

lemma nonempty_cursor:
  assumes "stream_wf s" "contents s \<noteq> []"
  shows "stream_get_endp s - stream_get_getp s \<noteq> 0"
  using assms by (auto simp: stream_get_endp_def stream_get_getp_def contents_def)

lemma route_unknown:
  assumes "w_pk w r = Some q" "stream_wf (pk_s q)" "contents (pk_s q) \<noteq> []"
    and "reg_wf w" "w_peers w (e_stack e) = None" "registered w (s_nid (pk_s q)) = None"
  shows "misaka_packet_route e (Some r) w = Some (-1, w\<lparr>w_pk := (w_pk w)(r := None)\<rparr>)"
  using assms(1,6) nonempty_cursor [OF assms(2,3)] lookup_registered [OF assms(4,5)]
  by (simp add: misaka_packet_route_def stream_free_def)

lemma route_loop_end [simp]: "route_loop e d None w = Some w"
  by (subst route_loop.simps) simp

lemma watch_write_active:
  assumes "p_t_write p = Some t" "\<forall>t. ev_is_active (e_ev e) (ev_io_start (e_ev e) t) = 1"
  shows "\<exists>p' t'. watch_write e d p = Some p' \<and> p_obuf p' = p_obuf p \<and> p_t_write p' = Some t' \<and>
    (p_status p' = TAT_ESTA \<longrightarrow> ev_is_active (e_ev e) t' = 1)"
proof (cases "p_status p = TAT_ESTA \<and> ev_is_active (e_ev e) t \<noteq> 1")
  case True
  then show ?thesis
    using assms by (simp add: watch_write_def)
next
  case False
  then have "watch_write e d p = Some p"
    using assms(1) by (auto simp: watch_write_def)
  then show ?thesis
    using assms(1) False by blast
qed

lemma fifo_rep_other:
  assumes "fifo_rep f pk as" "r \<notin> set as"
  shows "fifo_rep f (pk(r \<mapsto> q)) as"
proof -
  have "pk_nxt (pk(r \<mapsto> q)) a = pk_nxt pk a" if "a \<in> set as" for a
    using that assms(2) by (auto simp: pk_nxt_def)
  from path_cong [OF this] show ?thesis
    using assms(1) by (simp add: fifo_rep_def)
qed

lemma route_known:
  assumes r: "w_pk w r = Some q" "pk_next q = None" "stream_wf (pk_s q)" "contents (pk_s q) \<noteq> []"
    and reg: "reg_wf w" "w_peers w (e_stack e) = None" "registered w (s_nid (pk_s q)) = Some d"
    and d: "takes r st d as w" and ev: "\<forall>t. ev_is_active (e_ev e) (ev_io_start (e_ev e) t) = 1"
  shows "\<exists>w'. misaka_packet_route e (Some r) w = Some (0, w') \<and> holds_output (e_ev e) d (as @ [r]) w' \<and>
    (\<forall>a. map_option pk_s (w_pk w' a) = (if a = r then Some st else map_option pk_s (w_pk w a)))"
proof -
  from d r(1) obtain p f io obuf t where p: "w_peers w d = Some p" "p_pack p = Some f" "call_pack f (pk_s q) p = Some (io, st)"
      "p_obuf p = Some obuf" "p_t_write p = Some t" "fifo_rep obuf (w_pk w) as" "r \<notin> set as"
    by (auto simp: takes_def)
  let ?pk = "(w_pk w)(r \<mapsto> \<lparr>pk_next = None, pk_s = st\<rparr>)"
  from fifo_push_rep [OF fifo_rep_other [OF p(6,7)], of _ r "\<lparr>pk_next = None, pk_s = st\<rparr>"] p(7) obtain obuf' pk' where
    f: "stream_fifo_push obuf r ?pk = Some (obuf', pk')" "fifo_rep obuf' pk' (as @ [r])"
      "\<forall>a. map_option pk_s (pk' a) = map_option pk_s (?pk a)"
    by (metis fun_upd_same packet.select_convs(1))
  let ?p = "p\<lparr>p_obuf := Some obuf'\<rparr>"
  have "p_t_write ?p = Some t"
    using p(5) by simp
  from watch_write_active [OF this ev, of d] obtain p' t' where p': "watch_write e d ?p = Some p'" "p_obuf p' = Some obuf'"
      "p_t_write p' = Some t'" "p_status p' = TAT_ESTA \<longrightarrow> ev_is_active (e_ev e) t' = 1"
    by auto
  let ?w = "set_peer d p' (w\<lparr>w_pk := pk'\<rparr>)"
  have "route_loop e d (Some r) w = Some ?w"
    using r(1,2) p(1-4) f(1) p'(1) by (subst route_loop.simps) (simp del: fun_upd_apply)
  then have "misaka_packet_route e (Some r) w = Some (0, ?w)"
    using r(1) nonempty_cursor [OF r(3,4)] lookup_registered [OF reg(1,2)] reg(3) by (simp add: misaka_packet_route_def)
  moreover have "holds_output (e_ev e) d (as @ [r]) ?w"
    using f(2) p'(2-4) by (auto simp: holds_output_def set_peer_def)
  ultimately show ?thesis
    using f(3) by (intro exI [of _ ?w]) (auto simp: set_peer_def)
qed

section \<open>The two halves of a network route\<close>

text \<open>\<open>misaka_packet_net_route\<close> marks the queue as scheduled and pushes, each under the lock of the queue but
  not together: between the two calls another thread can run.\<close>

definition net_route_mark :: "addr \<Rightarrow> world \<Rightarrow> world option" where
  "net_route_mark s w = do {
     q \<leftarrow> w_pk w s;
     let w = w\<lparr>w_pk := (w_pk w)(s \<mapsto> q\<lparr>pk_s := (pk_s q)\<lparr>s_type := EVENT_NET\<rparr>\<rparr>)\<rparr>;
     a \<leftarrow> queue_of EVENT_NET w;
     m \<leftarrow> st_mq (w_mq w) a;
     Some (w\<lparr>w_mq := upd_mq a (skynet_mq_global m 1) (w_mq w)\<rparr>)
   }"

definition net_route_push :: "env \<Rightarrow> addr \<Rightarrow> world \<Rightarrow> world option" where
  "net_route_push e s w = do {
     a \<leftarrow> queue_of EVENT_NET w;
     mq \<leftarrow> skynet_mq_push (e_mq_alloc e) a s (w_mq w);
     Some (w\<lparr>w_mq := mq\<rparr>)
   }"

lemma net_route_halves: "misaka_packet_net_route e s w = Option.bind (net_route_mark s w) (net_route_push e s)"
  by (cases "queue_of EVENT_NET w")
    (auto simp: misaka_packet_net_route_def net_route_mark_def net_route_push_def Let_def split: Option.bind_split)

lemma net_mark_effect:
  assumes "queues_wf (w_mq w)" "w_pk w s = Some q" "ready EVENT_NET w a"
  shows "\<exists>mq. net_route_mark s w = Some (w\<lparr>w_pk := (w_pk w)(s \<mapsto> q\<lparr>pk_s := (pk_s q)\<lparr>s_type := EVENT_NET\<rparr>\<rparr>), w_mq := mq\<rparr>) \<and>
    queues_wf mq \<and> msgs mq = msgs (w_mq w) \<and> glist mq = glist (w_mq w) \<and> st_mq mq a \<noteq> None \<and> handle_of mq = handle_of (w_mq w)"
proof -
  from ready_room [OF assms(3)] obtain m where m: "st_mq (w_mq w) a = Some m"
    by blast
  let ?m = "skynet_mq_global m 1"
  have "mq_next ?m = mq_next m" "mq_list ?m = mq_list m" "mq_wf ?m"
    using assms(1) m by (auto simp: skynet_mq_global_def queues_wf_def)
  moreover from this have "(msgs (w_mq w))(a := mq_list ?m) = msgs (w_mq w)"
    using m by (auto simp: msgs_def)
  ultimately show ?thesis
    using assms(2,3) m upd_views [OF m, of ?m] upd_queues_wf [OF assms(1) m, of ?m] handle_upd [OF m, of ?m]
    by (intro exI [of _ "upd_mq a ?m (w_mq w)"]) (auto simp: net_route_mark_def Let_def ready_def upd_mq_def skynet_mq_global_def)
qed

lemma loop_route_empty:
  assumes "queues_wf (w_mq w)" "queue_of EVENT_NET w = Some a" "st_mq (w_mq w) a \<noteq> None" "msgs (w_mq w) a = []"
  shows "\<exists>mq. misaka_packet_loop_route e w = Some (w\<lparr>w_mq := mq\<rparr>) \<and> queues_wf mq \<and> msgs mq = msgs (w_mq w) \<and>
    flag mq = (flag (w_mq w))(a := 0) \<and> glist mq = glist (w_mq w) \<and> st_mq mq a \<noteq> None \<and> handle_of mq = handle_of (w_mq w)"
proof -
  from pop_queue_empty [OF assms] obtain mq where
    mq: "pop_queue EVENT_NET w = Some (None, w\<lparr>w_mq := mq\<rparr>)" "queues_wf mq" "msgs mq = msgs (w_mq w)"
      "flag mq = (flag (w_mq w))(a := 0)" "glist mq = glist (w_mq w)" "st_mq mq a \<noteq> None"
    by blast
  have "misaka_packet_loop_route e w = Some (w\<lparr>w_mq := mq\<rparr>)"
    using mq(1) by (simp add: misaka_packet_loop_route_def numeral_eq_Suc)
  then show ?thesis
    using mq pop_queue_handle [OF mq(1)] by (intro exI [of _ mq]) simp
qed

lemma net_push_scheduled:
  assumes "queues_wf (w_mq w)" "alloc_ok (e_mq_alloc e)" "ready EVENT_NET w a" "flag (w_mq w) a = 0"
  shows "\<exists>mq. net_route_push e s w = Some (w\<lparr>w_mq := mq\<rparr>) \<and> queues_wf mq \<and> msgs mq = (msgs (w_mq w))(a := msgs (w_mq w) a @ [s]) \<and>
    glist mq = glist (w_mq w) @ [a] \<and> handle_of mq = handle_of (w_mq w)"
proof -
  from ready_room [OF assms(3)] obtain m where m: "st_mq (w_mq w) a = Some m" "ring_room m"
    by blast
  have "a \<notin> set (glist (w_mq w))" "queue_of EVENT_NET w = Some a"
    using assms(3,4) by (simp_all add: ready_def)
  with mq_push_ok [OF assms(1,2) m, of s] assms(4) show ?thesis
    by (auto simp: net_route_push_def dest: push_handle)
qed

section \<open>The turns of a worker\<close>

text \<open>A fresh worker takes the first scheduled queue, and with its next turn the first message; it processes it
  unless the queue is the one of the network.\<close>

lemma worker_takes:
  assumes wf: "queues_wf (w_mq w)" and g: "glist (w_mq w) = a # gs" and m: "msgs (w_mq w) a = s # ss" and h: "handle_of (w_mq w) a = Some v"
  shows "\<exists>k mq k' mq'. worker_turn e worker_start w = Some (Some k, w\<lparr>w_mq := mq\<rparr>) \<and>
    worker_turn e k (w\<lparr>w_mq := mq\<rparr>) =
      (if v = EVENT_NET then Some (Some k', w\<lparr>w_mq := mq'\<rparr>)
       else map_option (Pair (Some k')) (misaka_packet_process e s (w\<lparr>w_mq := mq'\<rparr>))) \<and>
    queues_wf mq' \<and> msgs mq' = (msgs (w_mq w))(a := ss) \<and> glist mq' = gs \<and> flag mq' = flag (w_mq w) \<and>
    (\<forall>b. (st_mq mq' b = None) = (st_mq (w_mq w) b = None))"
proof -
  have gw: "gq_wf (w_mq w)"
    using wf by (simp add: queues_wf_def)
  from globalmq_pop_ok [OF gw g] obtain mq where
    mq: "skynet_globalmq_pop (w_mq w) = Some (Some a, mq)" "gq_wf mq" "glist mq = gs" "body mq = body (w_mq w)"
    by auto
  have v: "msgs mq = msgs (w_mq w)" "flag mq = flag (w_mq w)" "queues_wf mq" "handle_of mq a = Some v"
    using body_views [OF mq(4)] mq(2,4) wf h by (simp_all add: queues_wf_def handle_body)
  have "msgs mq a = s # ss"
    using v(1) m by simp
  with v(3,4) obtain q where q: "st_mq mq a = Some q" "mq_wf q" "mq_list q = s # ss" "mq_handle q = v"
    by (cases "st_mq mq a") (auto simp: handle_of_def queues_wf_def msgs_def)
  from pop_next [OF q(2,3)] obtain q' where
    q': "skynet_mq_pop q = Some (0, Some s, q')" "mq_wf q'" "mq_list q' = ss" "mq_in_global q' = mq_in_global q" "mq_next q' = mq_next q"
    by blast
  let ?k = "worker_start\<lparr>w_q := Some a\<rparr>" and ?mq = "upd_mq a q' mq"
  have "worker_turn e worker_start w = Some (Some ?k, w\<lparr>w_mq := mq\<rparr>)"
    using mq(1) by (simp add: worker_turn_def worker_step_def worker_start_def)
  moreover have "worker_turn e ?k (w\<lparr>w_mq := mq\<rparr>) =
      (if v = EVENT_NET then Some (Some (?k\<lparr>w_sands := w_sands ?k - 1\<rparr>), w\<lparr>w_mq := ?mq\<rparr>)
       else map_option (Pair (Some (?k\<lparr>w_sands := w_sands ?k - 1\<rparr>))) (misaka_packet_process e s (w\<lparr>w_mq := ?mq\<rparr>)))"
    using q q' pop_handle [OF q'(1)]
    by (cases "misaka_packet_process e s (w\<lparr>w_mq := ?mq\<rparr>)")
      (auto simp: worker_turn_def worker_step_def worker_start_def upd_mq_def skynet_mq_handle_def)
  moreover have "(flag (w_mq w))(a := mq_in_global q') = flag (w_mq w)"
    using q(1) q'(4) v(2) [symmetric] by (auto simp: flag_def)
  moreover have "(st_mq ?mq b = None) = (st_mq (w_mq w) b = None)" for b
    using upd_views(5) [OF q(1) q'(5)] body_views(3) [OF mq(4)] by simp
  ultimately show ?thesis
    using upd_views [OF q(1) q'(5)] upd_queues_wf [OF v(3) q(1) q'(2,5)] v(1,2) q'(3) mq(3)
    by (intro exI [of _ ?k] exI [of _ mq] exI [of _ "?k\<lparr>w_sands := w_sands ?k - 1\<rparr>"] exI [of _ ?mq]) simp
qed

section \<open>Properties\<close>

text \<open>C6: A packet for this node is turned around by the echo plugin. The read handler clones the read buffer into a
  new packet and schedules the echo queue; the worker that takes the queue runs the plugin, and the packet
  ends in the network queue with the payload it came with, addressed to the peer it came from. The number the reply
  will be routed by is what the memory of the clone held before.\<close>

theorem echo_turns_around:
  assumes p: "w_peers w a = Some p" "p_ibuf p = Some s" "p_sys p = 0" "p_parser p = Some f"
    and s: "stream_wf s" "length (contents s) \<le> 256" "s_nid s = w_role w"
    and c: "clone_ok e r mem" and q: "queues_wf (w_mq w)" "alloc_ok (e_mq_alloc e)" "alloc_ok (e_mq_alloc e')"
    and qe: "ready EVENT_ECHO w qe" "glist (w_mq w) = []" "flag (w_mq w) qe = 0" "msgs (w_mq w) qe = []" "handle_of (w_mq w) qe = Some EVENT_ECHO"
    and qn: "ready EVENT_NET w qn" "qn \<noteq> qe"
    and h: "sole_plugin EVENT_ECHO h w" "eh_plug h = C_PLUGIN_TYPE" "eh_func h = Some misaka_handle"
  shows "\<exists>w1 k w2 k' w3 st. read_io_action e IO_PACKET a w = Some w1 \<and> worker_turn e' worker_start w1 = Some (Some k, w2) \<and>
    worker_turn e' k w2 = Some (k', w3) \<and> msgs (w_mq w3) qe = [] \<and> msgs (w_mq w3) qn = msgs (w_mq w) qn @ [r] \<and>
    w_pk w3 r = Some \<lparr>pk_next = None, pk_s = st\<rparr> \<and> contents st = contents s \<and> s_type st = EVENT_NET \<and>
    s_src st = w_role w \<and> s_dst st = p_drole p \<and> s_nid st = s_nid mem"
proof -
  from action_local [OF p s c q(1,2) qe(1)] obtain st mq w1 where
    w1: "read_io_action e IO_PACKET a w = Some w1" "w_pk w1 = (w_pk w)(r \<mapsto> \<lparr>pk_next = None, pk_s = st\<rparr>)" "w_mq w1 = mq" "queues_wf mq"
      "msgs mq = (msgs (w_mq w))(qe := [r])" "glist mq = [qe]" "flag mq = (flag (w_mq w))(qe := 1)"
      "\<forall>b. (st_mq mq b = None) = (st_mq (w_mq w) b = None)" "handle_of mq = handle_of (w_mq w)"
      "stream_wf st" "contents st = contents s" "s_type st = EVENT_ECHO" "s_src st = p_drole p" "s_dst st = w_role w" "s_nid st = s_nid mem"
      "w_queues w1 = w_queues w" "w_events w1 = w_events w" "w_event_list w1 = w_event_list w"
    using qe(2-4) by auto
  from worker_takes [of w1 qe "[]" r "[]" EVENT_ECHO e'] w1 qe(5) obtain k mq1 k' mq2 where
    k: "worker_turn e' worker_start w1 = Some (Some k, w1\<lparr>w_mq := mq1\<rparr>)"
      "worker_turn e' k (w1\<lparr>w_mq := mq1\<rparr>) = map_option (Pair (Some k')) (misaka_packet_process e' r (w1\<lparr>w_mq := mq2\<rparr>))"
      "queues_wf mq2" "msgs mq2 = (msgs (w_mq w))(qe := [])" "glist mq2 = []" "\<forall>b. (st_mq mq2 b = None) = (st_mq (w_mq w) b = None)"
    by auto
  let ?w = "w1\<lparr>w_mq := mq2\<rparr>" and ?q = "\<lparr>pk_next = None, pk_s = st\<rparr>"
  have "ready EVENT_NET ?w qn"
    using qn k(4-6) queue_of_cong [OF w1(16)] by (auto simp: ready_def)
  moreover have "sole_plugin EVENT_ECHO h ?w"
    using h(1) w1(17,18) by (simp add: sole_plugin_def)
  moreover have "run_plugin h st = Some (True, misaka_handle st)"
    using h(2,3) by (simp add: run_plugin_def)
  ultimately obtain mq3 where m: "misaka_packet_process e' r ?w = Some (?w\<lparr>w_pk := (w_pk ?w)(r \<mapsto> ?q\<lparr>pk_s := misaka_handle st\<rparr>), w_mq := mq3\<rparr>)"
      "msgs mq3 = (msgs mq2)(qn := msgs mq2 qn @ [r])"
    using process_to_net [of ?w r ?q h "misaka_handle st" e' qn] w1(2,12) k(3) q(3) by (auto simp: misaka_handle_def)
  then show ?thesis
    using w1 k qn(2) by (auto simp: misaka_handle_def contents_def)
qed

text \<open>A server with the echo plugin loaded and a peer that has read two bytes for this node.\<close>

definition echo_event :: event_handle where
  "echo_event = zero_event\<lparr>eh_type := EVENT_ECHO, eh_plug := C_PLUGIN_TYPE, eh_func := Some misaka_handle\<rparr>"

definition echo_ibuf :: stream where
  "echo_ibuf = (app [104, 105] (blank_stream 256))\<lparr>s_nid := 3\<rparr>"

definition echo_client :: peer where
  "echo_client = zero_peer\<lparr>p_ibuf := Some echo_ibuf, p_drole := 100, p_parser := Some Parser_normal\<rparr>"

definition echo_queues :: "addr mq_state" where
  "echo_queues = create_queues [10, 11, 12, 13] (skynet_mq_init \<lparr>st_mq = Map.empty, st_Q = None\<rparr>)"

definition echo_world :: world where
  "echo_world = bare_world\<lparr>w_events := [zero_event, echo_event, zero_event, zero_event], w_event_list := [1],
     w_queues := [10, 11, 12, 13], w_mq := echo_queues, w_peers := [1 \<mapsto> echo_client]\<rparr>"

lemma echo_queues_facts:
  "queues_wf echo_queues" "glist echo_queues = []" "msgs echo_queues a = []" "flag echo_queues a = 0"
  "st_mq echo_queues 11 \<noteq> None" "st_mq echo_queues 13 \<noteq> None"
  "handle_of echo_queues 11 = Some EVENT_ECHO" "handle_of echo_queues 13 = Some EVENT_NET"
proof -
  let ?st = "\<lparr>st_mq = Map.empty, st_Q = None\<rparr> :: addr mq_state" and ?qs = "[10, 11, 12, 13] :: addr list"
  have d: "distinct ?qs" "st_mq ?st = Map.empty"
    by simp_all
  show "queues_wf echo_queues" "glist echo_queues = []" "msgs echo_queues a = []" "flag echo_queues a = 0"
    using create_queues_views [OF d] by (simp_all add: echo_queues_def)
  show "st_mq echo_queues 11 \<noteq> None" "st_mq echo_queues 13 \<noteq> None"
    "handle_of echo_queues 11 = Some EVENT_ECHO" "handle_of echo_queues 13 = Some EVENT_NET"
    using create_queues_spec(1) [OF d, of 1] create_queues_spec(1) [OF d, of 3]
    by (simp_all add: echo_queues_def handle_of_def skynet_mq_create_def)
qed

lemma echo_ready: "ready EVENT_ECHO echo_world 11" "ready EVENT_NET echo_world 13"
  using echo_queues_facts by (simp_all add: ready_def echo_world_def queue_of_def)

lemma echo_ibuf_facts: "stream_wf echo_ibuf" "contents echo_ibuf = [104, 105]"
proof -
  have "stream_wf (app [104, 105] (blank_stream 256))" "contents (app [104, 105] (blank_stream 256)) = [104, 105]"
    using blank_room [of 256] by (simp_all add: app_wf contents_app blank_stream_wf)
  then show "stream_wf echo_ibuf" "contents echo_ibuf = [104, 105]"
    by (simp_all add: echo_ibuf_def stream_wf_iff contents_def)
qed

theorem echo_turns_around_witness:
  "\<exists>w1 k w2 k' w3 st. read_io_action plain_env IO_PACKET 1 echo_world = Some w1 \<and>
     worker_turn plain_env worker_start w1 = Some (Some k, w2) \<and> worker_turn plain_env k w2 = Some (k', w3) \<and>
     msgs (w_mq w3) 13 = [50] \<and> w_pk w3 50 = Some \<lparr>pk_next = None, pk_s = st\<rparr> \<and> contents st = [104, 105] \<and> s_dst st = 100"
proof -
  have "clone_ok plain_env 50 (blank_stream 0)"
    by (simp add: clone_ok_def plain_env_def zero_malloc_ok) (simp add: zero_malloc_def)
  moreover have "sole_plugin EVENT_ECHO echo_event echo_world"
    unfolding sole_plugin_def by (rule exI [of _ "[]"], rule exI [of _ 1], rule exI [of _ "[]"]) (simp add: echo_world_def bare_world_def echo_event_def)
  moreover have "alloc_ok (e_mq_alloc plain_env)"
    by (simp add: alloc_ok_def plain_env_def)
  moreover have "eh_plug echo_event = C_PLUGIN_TYPE" "eh_func echo_event = Some misaka_handle"
    by (simp_all add: echo_event_def)
  moreover have "w_peers echo_world 1 = Some echo_client" "w_mq echo_world = echo_queues" "w_role echo_world = 3"
    by (simp_all add: echo_world_def bare_world_def)
  moreover have "p_ibuf echo_client = Some echo_ibuf" "p_sys echo_client = 0" "p_parser echo_client = Some Parser_normal"
      "p_drole echo_client = 100" "s_nid echo_ibuf = 3"
    by (simp_all add: echo_client_def zero_peer_def echo_ibuf_def)
  ultimately show ?thesis
    using echo_turns_around [of echo_world 1 echo_client echo_ibuf Parser_normal plain_env 50 "blank_stream 0" plain_env 11 13 echo_event]
      echo_ready echo_queues_facts echo_ibuf_facts
    by fastforce
qed

text \<open>C35: Every packet that is routed has one of three fates. An empty packet is freed and 0 returned; a packet for a number
  that no peer is registered under is freed and -1 returned; any other packet is packed by its peer and appended
  behind the packets that already wait for it, and an established peer then has an active write watcher. No
  other packet is touched.\<close>

theorem packet_route_fates:
  assumes r: "w_pk w r = Some q" "pk_next q = None" "stream_wf (pk_s q)"
    and reg: "reg_wf w" "w_peers w (e_stack e) = None"
    and d: "\<forall>d. registered w (s_nid (pk_s q)) = Some d \<longrightarrow> takes r st d as w"
    and ev: "\<forall>t. ev_is_active (e_ev e) (ev_io_start (e_ev e) t) = 1"
  shows "\<exists>w'. if contents (pk_s q) = [] then misaka_packet_route e (Some r) w = Some (0, w') \<and> w_pk w' = (w_pk w)(r := None)
    else case registered w (s_nid (pk_s q)) of
        None \<Rightarrow> misaka_packet_route e (Some r) w = Some (-1, w') \<and> w_pk w' = (w_pk w)(r := None)
      | Some d \<Rightarrow> misaka_packet_route e (Some r) w = Some (0, w') \<and> holds_output (e_ev e) d (as @ [r]) w' \<and>
          (\<forall>a. map_option pk_s (w_pk w' a) = (if a = r then Some st else map_option pk_s (w_pk w a)))"
proof (cases "contents (pk_s q) = []")
  case True
  then show ?thesis
    using route_empty [OF r(1,3)] by auto
next
  case False
  then show ?thesis
    using route_unknown [OF r(1,3) False reg] route_known [OF r False reg _ _ ev] d
    by (cases "registered w (s_nid (pk_s q))") auto
qed

text \<open>An established peer registered under 100 with an empty output fifo, and a packet for it.\<close>

definition route_peer :: peer where
  "route_peer = zero_peer\<lparr>p_obuf := Some stream_fifo_new, p_pack := Some Pack_default, p_t_write := Some blank_watcher, p_status := TAT_ESTA\<rparr>"

definition route_packet :: packet where
  "route_packet = \<lparr>pk_next = None, pk_s = echo_ibuf\<lparr>s_nid := 100\<rparr>\<rparr>"

theorem packet_route_fates_witness:
  "\<exists>w w'. peer_register plain_env 1 ((set_peer 1 route_peer bare_world)\<lparr>w_pk := [40 \<mapsto> route_packet]\<rparr>) = Some w \<and>
     misaka_packet_route plain_env (Some 40) w = Some (0, w') \<and> holds_output plain_ev 1 [40] w'"
proof -
  let ?w = "(set_peer 1 route_peer bare_world)\<lparr>w_pk := [40 \<mapsto> route_packet]\<rparr>"
  obtain h where h: "hash_create (peer_key Map.empty) (peer_cmp Map.empty) = Some h"
    using hash_create_Some by blast
  have "reg_wf ?w" "registered ?w = Map.empty" "\<not> in_table (w_hash ?w) 1"
    using empty_table [OF h] h by (simp_all add: reg_wf_def registered_def set_peer_def bare_world_def)
  moreover have "connect_keeps ?w" "w_peers ?w 1 = Some route_peer"
    by (simp_all add: connect_keeps_def run_connect_def run_disconnect_def set_peer_def bare_world_def)
  moreover have "idmaker_get (w_mid ?w) = Some ((100, 1), (idmaker_new 100 100 99999)\<lparr>im_curr := 101\<rparr>)"
    by (simp add: idmaker_get_def set_peer_def bare_world_def idmaker_new_def)
  moreover have "e_hash_mem plain_env"
    by (simp add: plain_env_def)
  moreover have on: "p_on_connect route_peer = 0"
    by (simp add: route_peer_def zero_peer_def)
  ultimately obtain w where w: "peer_register plain_env 1 ?w = Some w" "reg_wf w" "registered w = [100 \<mapsto> 1]"
      "w_peers w 1 = Some (route_peer\<lparr>p_drole := 100\<rparr>)" "\<forall>b. b \<noteq> 1 \<longrightarrow> w_peers w b = w_peers ?w b" "w_pk w = w_pk ?w"
    using register_adds [of ?w 1 route_peer 100 1 "(idmaker_new 100 100 99999)\<lparr>im_curr := 101\<rparr>" plain_env] by auto
  have pk: "w_pk w 40 = Some route_packet" "pk_next route_packet = None" "stream_wf (pk_s route_packet)" "contents (pk_s route_packet) \<noteq> []"
      "s_nid (pk_s route_packet) = 100"
    using w(6) echo_ibuf_facts by (simp_all add: route_packet_def stream_wf_iff contents_def)
  have "takes 40 (pk_s route_packet) 1 [] w"
    using w(4) pk(1) fifo_new_rep by (simp add: takes_def route_peer_def call_pack_def)
  moreover have "w_peers w (e_stack plain_env) = None"
    using w(5) by (simp add: plain_env_def set_peer_def bare_world_def)
  ultimately show ?thesis
    using packet_route_fates [of w 40 route_packet plain_env "pk_s route_packet" "[]"] w pk
    by (auto simp: plain_env_def plain_ev_def)
qed

text \<open>C36: A reply can be lost between the worker and the event loop. \<open>misaka_packet_net_route\<close> marks the network queue as scheduled,
  so that no worker touches it, and then pushes. When the event loop polls the empty queue between the two calls, the
  pop clears the mark, the push schedules the queue for the workers, and the worker that takes it drops the packet: it
  is in no queue any more, the next poll of the event loop finds nothing, and its memory is never freed.\<close>

theorem net_reply_lost:
  assumes "queues_wf (w_mq w)" "alloc_ok (e_mq_alloc e)" "w_pk w s = Some q" "ready EVENT_NET w a"
    and "msgs (w_mq w) a = []" "glist (w_mq w) = []" "handle_of (w_mq w) a = Some EVENT_NET"
  shows "misaka_packet_net_route e s w = Option.bind (net_route_mark s w) (net_route_push e s) \<and>
    (\<exists>w1 w2 w3 k w4 k' w5 w6. net_route_mark s w = Some w1 \<and> misaka_packet_loop_route e w1 = Some w2 \<and> net_route_push e s w2 = Some w3 \<and>
       worker_turn e worker_start w3 = Some (Some k, w4) \<and> worker_turn e k w4 = Some (k', w5) \<and> misaka_packet_loop_route e w5 = Some w6 \<and>
       msgs (w_mq w6) = msgs (w_mq w) \<and> w_pk w6 s \<noteq> None \<and> w_peers w6 = w_peers w)"
proof -
  from net_mark_effect [OF assms(1,3,4)] obtain mq1 where
    1: "net_route_mark s w = Some (w\<lparr>w_pk := (w_pk w)(s \<mapsto> q\<lparr>pk_s := (pk_s q)\<lparr>s_type := EVENT_NET\<rparr>\<rparr>), w_mq := mq1\<rparr>)"
      "queues_wf mq1" "msgs mq1 = msgs (w_mq w)" "glist mq1 = glist (w_mq w)" "st_mq mq1 a \<noteq> None" "handle_of mq1 = handle_of (w_mq w)"
    by blast
  let ?w = "w\<lparr>w_pk := (w_pk w)(s \<mapsto> q\<lparr>pk_s := (pk_s q)\<lparr>s_type := EVENT_NET\<rparr>\<rparr>), w_mq := mq1\<rparr>"
  have qa: "queue_of EVENT_NET w = Some a"
    using assms(4) by (simp add: ready_def)
  with loop_route_empty [of ?w a e] 1 assms(5) obtain mq2 where
    2: "misaka_packet_loop_route e ?w = Some (?w\<lparr>w_mq := mq2\<rparr>)" "queues_wf mq2" "msgs mq2 = msgs (w_mq w)" "flag mq2 a = 0"
      "glist mq2 = glist (w_mq w)" "st_mq mq2 a \<noteq> None" "handle_of mq2 = handle_of (w_mq w)"
    by auto
  have "ready EVENT_NET (?w\<lparr>w_mq := mq2\<rparr>) a"
    using qa 2(3,5,6) assms(5,6) by (simp add: ready_def)
  with net_push_scheduled [of "?w\<lparr>w_mq := mq2\<rparr>" e a s] 2 assms(2,5,6) obtain mq3 where
    3: "net_route_push e s (?w\<lparr>w_mq := mq2\<rparr>) = Some (?w\<lparr>w_mq := mq3\<rparr>)" "queues_wf mq3" "msgs mq3 = (msgs (w_mq w))(a := [s])"
      "glist mq3 = [a]" "handle_of mq3 = handle_of (w_mq w)"
    by auto
  from worker_takes [of "?w\<lparr>w_mq := mq3\<rparr>" a "[]" s "[]" EVENT_NET e] 3 assms(7) obtain k mq4 k' mq5 where
    4: "worker_turn e worker_start (?w\<lparr>w_mq := mq3\<rparr>) = Some (Some k, ?w\<lparr>w_mq := mq4\<rparr>)"
      "worker_turn e k (?w\<lparr>w_mq := mq4\<rparr>) = Some (Some k', ?w\<lparr>w_mq := mq5\<rparr>)" "queues_wf mq5" "msgs mq5 = (msgs (w_mq w))(a := [])"
      "(st_mq mq5 a = None) = (st_mq mq3 a = None)"
    by auto
  have "st_mq mq5 a \<noteq> None"
    using 4(5) 3(3) by (auto simp: msgs_def fun_eq_iff dest: spec [of _ a])
  with loop_route_empty [of "?w\<lparr>w_mq := mq5\<rparr>" a e] qa 4(3,4) obtain mq6 where
    5: "misaka_packet_loop_route e (?w\<lparr>w_mq := mq5\<rparr>) = Some (?w\<lparr>w_mq := mq6\<rparr>)" "msgs mq6 = (msgs (w_mq w))(a := [])"
    by auto
  have "(msgs (w_mq w))(a := []) = msgs (w_mq w)"
    using assms(5) by auto
  then show ?thesis
    using net_route_halves 1(1) 2(1) 3(1) 4(1,2) 5 by auto
qed

theorem net_reply_lost_witness:
  "\<exists>w1 w2 w3 k w4 k' w5. net_route_mark 40 (echo_world\<lparr>w_pk := [40 \<mapsto> route_packet]\<rparr>) = Some w1 \<and>
     misaka_packet_loop_route plain_env w1 = Some w2 \<and> net_route_push plain_env 40 w2 = Some w3 \<and>
     worker_turn plain_env worker_start w3 = Some (Some k, w4) \<and> worker_turn plain_env k w4 = Some (k', w5)"
proof -
  let ?w = "echo_world\<lparr>w_pk := [40 \<mapsto> route_packet]\<rparr>"
  have "w_mq ?w = echo_queues" "w_pk ?w 40 = Some route_packet" "alloc_ok (e_mq_alloc plain_env)"
    by (simp_all add: echo_world_def alloc_ok_def plain_env_def)
  moreover have "ready EVENT_NET ?w 13"
    using echo_ready(2) by simp
  ultimately show ?thesis
    using net_reply_lost [of ?w plain_env 40 route_packet 13] echo_queues_facts by auto
qed

end
