(* ===== verification/Polling.thy ===== *)
theory Polling
  imports Echo
begin

text \<open>
  The queue of the timers has two consumers. \<open>misaka_packet_task_route\<close> of \<open>misaka/lib/core.c\<close> pushes a packet of the system type like
  any other and thereby schedules its queue for the workers, and \<open>misaka_packet_loop_timer\<close> polls the same
  queue from the event loop without taking it from the global queue. Theory \<open>Sched\<close> shows that the workers
  alone never hold a queue twice; here is the run in which the two consumers together make it happen.
\<close>

section \<open>A poll with one packet\<close>

text \<open>The clock has not moved since the last update of the wheel.\<close>

definition same_tick :: "env \<Rightarrow> world \<Rightarrow> bool" where
  "same_tick e w \<longleftrightarrow> gettime (e_clock e) = tm_current_point (w_timer w)"

lemma timeout_tick [simp]: "tm_current_point (snd (server_timer_timeout T t h)) = tm_current_point T"
  by (simp add: server_timer_timeout_def timer_add_def add_node_def Let_def)

lemma updatetime_still: "gettime clock = tm_current_point T \<Longrightarrow> server_timer_updatetime clock T = Some (T, [])"
  by (simp add: server_timer_updatetime_def)

text \<open>The poll takes the packet, finds the queue empty and marks it as not scheduled. The link of the global queue stays.\<close>

lemma loop_sys_one:
  assumes wf: "queues_wf (w_mq w)" and a: "queue_of EVENT_SYS w = Some a" "st_mq (w_mq w) a \<noteq> None" and m: "msgs (w_mq w) a = [s]"
    and s: "w_pk w s = Some q" and t: "same_tick e w"
  shows "\<exists>w'. misaka_loop_sys e w = Some w' \<and> queues_wf (w_mq w') \<and> msgs (w_mq w') = (msgs (w_mq w))(a := []) \<and>
    flag (w_mq w') = (flag (w_mq w))(a := 0) \<and> glist (w_mq w') = glist (w_mq w) \<and> st_mq (w_mq w') a \<noteq> None \<and>
    w_queues w' = w_queues w \<and> (\<forall>r. r \<noteq> s \<longrightarrow> w_pk w' r = w_pk w r)"
proof -
  from pop_queue_next [OF wf a m] obtain mq1 where
    1: "pop_queue EVENT_SYS w = Some (Some s, w\<lparr>w_mq := mq1\<rparr>)" "queues_wf mq1" "msgs mq1 = (msgs (w_mq w))(a := [])" "flag mq1 = flag (w_mq w)"
      "st_mq mq1 a \<noteq> None" "glist mq1 = glist (w_mq w)"
    by blast
  let ?st = "(pk_s q)\<lparr>s_type := s_stype (pk_s q), s_stype := s_type (pk_s q)\<rparr>"
  let ?tm = "snd (server_timer_timeout (w_timer w) (s_interval ?st) s)"
  let ?w = "w\<lparr>w_mq := mq1, w_pk := (w_pk w)(s \<mapsto> q\<lparr>pk_s := ?st\<rparr>), w_timer := ?tm\<rparr>"
  have "queue_of EVENT_SYS ?w = Some a"
    using a(1) queue_of_cong [of ?w w] by simp
  with pop_queue_empty [of ?w EVENT_SYS a] 1 obtain mq2 where
    2: "pop_queue EVENT_SYS ?w = Some (None, ?w\<lparr>w_mq := mq2\<rparr>)" "queues_wf mq2" "msgs mq2 = (msgs (w_mq w))(a := [])"
      "flag mq2 = (flag (w_mq w))(a := 0)" "glist mq2 = glist (w_mq w)" "st_mq mq2 a \<noteq> None"
    by auto
  have "loop_timer e (Suc (Suc 48)) w = Some (?w\<lparr>w_mq := mq2\<rparr>)"
    using 1(1) 2(1) s by (simp only: loop_timer.simps) (simp add: Let_def split_beta)
  then have "misaka_loop_sys e w = Some (?w\<lparr>w_mq := mq2\<rparr>)"
    using t updatetime_still [of "e_clock e" ?tm]
    by (simp add: misaka_loop_sys_def misaka_packet_loop_timer_def same_tick_def numeral_eq_Suc)
  then show ?thesis
    using 2 by simp
qed

section \<open>A push of a queue that is still linked\<close>

text \<open>The only queue of the global queue, marked as not scheduled, is linked behind itself, and two pops return it.\<close>

lemma push_linked_twice:
  assumes wf: "queues_wf st" and q: "st_mq st a = Some q" "ring_push alloc q m = Some q1" and g: "glist st = [a]" and f: "flag st a = 0"
  shows "\<exists>st1 st2 st3. skynet_mq_push alloc a m st = Some st1 \<and> nxt st1 a = Some (Some a) \<and>
    skynet_globalmq_pop st1 = Some (Some a, st2) \<and> skynet_globalmq_pop st2 = Some (Some a, st3)"
proof -
  from wf g obtain gq where gq: "st_Q st = Some gq" "gq_head gq = Some a" "gq_tail gq = Some a"
    by (auto simp: queues_wf_def gq_wf_def gq_rep_def)
  have "mq_in_global q1 = 0"
    using push_defined [OF _ q(2)] wf q(1) f by (auto simp: queues_wf_def flag_def)
  then show ?thesis
    using q gq by (simp add: skynet_mq_push_def skynet_globalmq_push_def skynet_globalmq_pop_def upd_mq_def nxt_def)
qed

section \<open>Properties\<close>

text \<open>C37: The timer queue can be held by two workers at once. A packet of the system type schedules the queue; the event loop polls it
  before a worker comes, takes the packet and, on finding the queue empty, marks it as not scheduled although it is still linked into
  the global queue; the next packet of the type links the queue behind itself, and two workers that start now both get it.\<close>

theorem timer_queue_taken_twice:
  assumes "queues_wf (w_mq w)" "alloc_ok (e_mq_alloc e)" "ready EVENT_SYS w a" "msgs (w_mq w) a = []" "flag (w_mq w) a = 0" "glist (w_mq w) = []"
    and "w_pk w s = Some q" "s_type (pk_s q) = EVENT_SYS" "w_pk w s' = Some q'" "s_type (pk_s q') = EVENT_SYS" "s \<noteq> s'" "same_tick e w"
  shows "\<exists>w1 w2 w3 k w4 k' w5. misaka_packet_task_route e s w = Some w1 \<and> misaka_loop_sys e w1 = Some w2 \<and>
    misaka_packet_task_route e s' w2 = Some w3 \<and> nxt (w_mq w3) a = Some (Some a) \<and>
    worker_turn e worker_start w3 = Some (Some k, w4) \<and> worker_turn e worker_start w4 = Some (Some k', w5) \<and>
    w_q k = Some a \<and> w_q k' = Some a"
proof -
  have qa: "queue_of EVENT_SYS w = Some a" "st_mq (w_mq w) a \<noteq> None"
    using assms(3) by (simp_all add: ready_def)
  let ?n = "if e_job_mem e then w_jobs w + 1 else w_jobs w"
  from task_route_effect [OF assms(1,2,7), of a] assms(3-6,8) obtain mq1 where
    1: "misaka_packet_task_route e s w = Some (w\<lparr>w_mq := mq1, w_jobs := ?n\<rparr>)" "queues_wf mq1" "msgs mq1 = (msgs (w_mq w))(a := [s])"
      "flag mq1 = (flag (w_mq w))(a := 1)" "glist mq1 = [a]" "\<forall>b. (st_mq mq1 b = None) = (st_mq (w_mq w) b = None)"
    by auto
  have n1: "st_mq mq1 a \<noteq> None"
    using 1(6) qa(2) by simp
  let ?w1 = "w\<lparr>w_mq := mq1, w_jobs := ?n\<rparr>"
  have "queue_of EVENT_SYS ?w1 = Some a" "same_tick e ?w1"
    using qa(1) assms(12) by (simp_all add: same_tick_def)
  with loop_sys_one [of ?w1 a s q e] 1(2-5) n1 assms(7) obtain w2 where
    2: "misaka_loop_sys e ?w1 = Some w2" "queues_wf (w_mq w2)" "msgs (w_mq w2) a = []" "flag (w_mq w2) a = 0" "glist (w_mq w2) = [a]"
      "st_mq (w_mq w2) a \<noteq> None" "w_queues w2 = w_queues w" "w_pk w2 s' = Some q'"
    using assms(9,11) by auto
  from 2(2,6) obtain m where m: "st_mq (w_mq w2) a = Some m" "mq_wf m" "mq_list m = []"
    using 2(3) by (auto simp: queues_wf_def msgs_def)
  then have "mq_len m = 0"
    by (metis length_mq_list list.size(3))
  then have "ring_room m"
    by (simp add: ring_room_def)
  from push_appends [OF m(2) this assms(2)] obtain m1 where "ring_push (e_mq_alloc e) m s' = Some m1"
    by blast
  from push_linked_twice [OF 2(2) m(1) this 2(5,4)] obtain st1 st2 st3 where
    st: "skynet_mq_push (e_mq_alloc e) a s' (w_mq w2) = Some st1" "nxt st1 a = Some (Some a)"
      "skynet_globalmq_pop st1 = Some (Some a, st2)" "skynet_globalmq_pop st2 = Some (Some a, st3)"
    by blast
  have "queue_of EVENT_SYS w2 = Some a"
    using qa(1) queue_of_cong [OF 2(7)] by simp
  then show ?thesis
    using 1(1) 2(1,8) assms(10) st by (simp add: misaka_packet_task_route_def worker_turn_def worker_step_def worker_start_def)
qed

text \<open>Two timer packets in the world of the echo server.\<close>

definition timer_packet :: packet where
  "timer_packet = \<lparr>pk_next = None, pk_s = echo_ibuf\<lparr>s_type := EVENT_SYS\<rparr>\<rparr>"

definition timer_world :: world where
  "timer_world = echo_world\<lparr>w_pk := [40 \<mapsto> timer_packet, 41 \<mapsto> timer_packet],
     w_timer := server_timer_init \<lparr>tv_sec = 100, tv_nsec = 0\<rparr> \<lparr>tv_sec = 10, tv_nsec = 0\<rparr>\<rparr>"

theorem timer_queue_taken_twice_witness:
  "\<exists>w1 w2 w3 k w4 k' w5. misaka_packet_task_route plain_env 40 timer_world = Some w1 \<and> misaka_loop_sys plain_env w1 = Some w2 \<and>
     misaka_packet_task_route plain_env 41 w2 = Some w3 \<and> worker_turn plain_env worker_start w3 = Some (Some k, w4) \<and>
     worker_turn plain_env worker_start w4 = Some (Some k', w5) \<and> w_q k = Some 12 \<and> w_q k' = Some 12"
proof -
  have mq: "w_mq timer_world = echo_queues" "w_queues timer_world = [10, 11, 12, 13]"
    "w_pk timer_world = [40 \<mapsto> timer_packet, 41 \<mapsto> timer_packet]" "s_type (pk_s timer_packet) = EVENT_SYS"
    by (simp_all add: timer_world_def echo_world_def timer_packet_def)
  have "st_mq echo_queues 12 = Some (skynet_mq_create 2)"
    using create_queues_spec(1) [of "[10, 11, 12, 13]" "\<lparr>st_mq = Map.empty, st_Q = None\<rparr> :: addr mq_state" 2] by (simp add: echo_queues_def)
  then have "ready EVENT_SYS timer_world 12"
    using mq echo_queues_facts by (simp add: ready_def queue_of_def)
  moreover have "same_tick plain_env timer_world" "alloc_ok (e_mq_alloc plain_env)"
    by (simp_all add: same_tick_def plain_env_def timer_world_def server_timer_init_def server_timer_create_timer_def alloc_ok_def Let_def split_beta)
  ultimately show ?thesis
    using timer_queue_taken_twice [of timer_world plain_env 12 40 timer_packet 41 timer_packet] mq echo_queues_facts by auto
qed

end
