(* ===== verification/Thpool.thy ===== *)
theory Thpool
  imports Queues
begin

text \<open>
  The thread pool of \<open>misaka/lib/thpool.c\<close>: the job queue with its binary semaphore, the life of a pool
  thread, and adding work, waiting, pausing and destroying.

  The jobs are in a store of addresses. A thread is its program counter in \<open>thread_do\<close>; every
  \<open>thread_turn\<close> is one critical section or one read of a shared flag, and the step relation interleaves the turns of
  all threads with the calls of the users of the pool. \<open>None\<close> is undefined behaviour; a thread that has
  to wait has no turn.
\<close>

section \<open>The job queue\<close>

record 'f job =
  j_prev :: ptr
  j_function :: 'f
  j_arg :: ptr

type_synonym 'f jobs = "addr \<Rightarrow> 'f job option"

text \<open>\<open>jq_has_jobs\<close> is the value of the binary semaphore.\<close>

record jobqueue =
  jq_front :: ptr
  jq_rear :: ptr
  jq_has_jobs :: int
  jq_len :: int

text \<open>\<open>bsem_init\<close> leaves the process on any other value than 0 and 1: then there is no result.\<close>

definition bsem_init :: "int \<Rightarrow> jobqueue \<Rightarrow> jobqueue option" where
  "bsem_init value q = (if value < 0 \<or> 1 < value then None else Some (q\<lparr>jq_has_jobs := value\<rparr>))"

definition bsem_reset :: "jobqueue \<Rightarrow> jobqueue option" where
  "bsem_reset q = bsem_init 0 q"

definition bsem_post :: "jobqueue \<Rightarrow> jobqueue" where
  "bsem_post q = q\<lparr>jq_has_jobs := 1\<rparr>"

definition bsem_post_all :: "jobqueue \<Rightarrow> jobqueue" where
  "bsem_post_all q = q\<lparr>jq_has_jobs := 1\<rparr>"

text \<open>\<open>bsem_wait\<close> gets past its loop only when the value is 1.\<close>

definition bsem_may_pass :: "jobqueue \<Rightarrow> bool" where
  "bsem_may_pass q \<longleftrightarrow> jq_has_jobs q = 1"

definition bsem_wait :: "jobqueue \<Rightarrow> jobqueue" where
  "bsem_wait q = q\<lparr>jq_has_jobs := 0\<rparr>"

text \<open>\<open>jobqueue_init\<close>: the two allocations and what the semaphore's memory held.\<close>

definition jobqueue_init :: "bool \<Rightarrow> bool \<Rightarrow> int \<Rightarrow> jobqueue option option" where
  "jobqueue_init mem sem_mem garbage =
     (if \<not> mem then Some None
      else if \<not> sem_mem then Some None
      else do {
        q \<leftarrow> bsem_init 0 \<lparr>jq_front = None, jq_rear = None, jq_has_jobs = garbage, jq_len = 0\<rparr>;
        Some (Some q)
      })"

definition jobqueue_push :: "addr \<Rightarrow> jobqueue \<Rightarrow> 'f jobs \<Rightarrow> (jobqueue \<times> 'f jobs) option" where
  "jobqueue_push newjob q js = do {
     j \<leftarrow> js newjob;
     let js = js(newjob \<mapsto> j\<lparr>j_prev := None\<rparr>);
     (q, js) \<leftarrow>
       (if jq_len q = 0 then Some (q\<lparr>jq_front := Some newjob, jq_rear := Some newjob\<rparr>, js)
        else do {
          r \<leftarrow> jq_rear q;
          jr \<leftarrow> js r;
          Some (q\<lparr>jq_rear := Some newjob\<rparr>, js(r \<mapsto> jr\<lparr>j_prev := Some newjob\<rparr>))
        });
     if jq_len q = INT_MAX then None
     else Some (bsem_post (q\<lparr>jq_len := jq_len q + 1\<rparr>), js)
   }"

definition jobqueue_pull :: "jobqueue \<Rightarrow> 'f jobs \<Rightarrow> (ptr \<times> jobqueue) option" where
  "jobqueue_pull q js =
     (if jq_len q = 0 then Some (jq_front q, q)
      else if jq_len q = 1 then Some (jq_front q, q\<lparr>jq_front := None, jq_rear := None, jq_len := 0\<rparr>)
      else do {
        a \<leftarrow> jq_front q;
        j \<leftarrow> js a;
        Some (Some a, bsem_post (q\<lparr>jq_front := j_prev j, jq_len := jq_len q - 1\<rparr>))
      })"

text \<open>The loop of \<open>jobqueue_clear\<close> pulls and frees until the length is 0; \<open>free\<close> of NULL does nothing.\<close>

partial_function (option) clear_jobs :: "jobqueue \<Rightarrow> 'f jobs \<Rightarrow> (jobqueue \<times> 'f jobs) option" where
  "clear_jobs q js =
     (if jq_len q = 0 then Some (q, js)
      else do {
        (a, q) \<leftarrow> jobqueue_pull q js;
        clear_jobs q (case a of Some a \<Rightarrow> js(a := None) | None \<Rightarrow> js)
      })"

definition jobqueue_clear :: "jobqueue \<Rightarrow> 'f jobs \<Rightarrow> (jobqueue \<times> 'f jobs) option" where
  "jobqueue_clear q js = do {
     (q, js) \<leftarrow> clear_jobs q js;
     q \<leftarrow> bsem_reset (q\<lparr>jq_front := None, jq_rear := None\<rparr>);
     Some (q\<lparr>jq_len := 0\<rparr>, js)
   }"

text \<open>\<open>jobqueue_destroy\<close> clears the queue; then the semaphore is freed.\<close>

definition jobqueue_destroy :: "jobqueue \<Rightarrow> 'f jobs \<Rightarrow> 'f jobs option" where
  "jobqueue_destroy q js = do { (q, js) \<leftarrow> jobqueue_clear q js; Some js }"

section \<open>The queue as a list\<close>

definition j_nxt :: "'f jobs \<Rightarrow> addr \<Rightarrow> ptr option" where
  "j_nxt js a = map_option j_prev (js a)"

definition jq_rep :: "jobqueue \<Rightarrow> 'f jobs \<Rightarrow> addr list \<Rightarrow> bool" where
  "jq_rep q js as \<longleftrightarrow> path (j_nxt js) (jq_front q) as \<and> jq_rear q = (if as = [] then None else Some (last as)) \<and>
     jq_len q = int (length as)"

lemma jq_live: "jq_rep q js as \<Longrightarrow> a \<in> set as \<Longrightarrow> \<exists>j. js a = Some j"
  by (fastforce simp: jq_rep_def j_nxt_def dest: path_live)

lemma jq_sem [simp]: "jq_rep (q\<lparr>jq_has_jobs := v\<rparr>) js as = jq_rep q js as"
  by (simp add: jq_rep_def)

lemma jq_frame: "jq_rep q js as \<Longrightarrow> (\<And>a. a \<in> set as \<Longrightarrow> js' a = js a) \<Longrightarrow> jq_rep q js' as"
  using path_cong [of as "j_nxt js'" "j_nxt js" "jq_front q"] by (simp add: jq_rep_def j_nxt_def)

text \<open>The function and the argument of a job.\<close>

definition work :: "'f jobs \<Rightarrow> addr \<Rightarrow> 'f \<times> ptr" where
  "work js a = (j_function (the (js a)), j_arg (the (js a)))"

lemma push_rep:
  assumes rep: "jq_rep q js as" and j: "js a = Some j" "a \<notin> set as" and len: "int (length as) < INT_MAX"
  shows "\<exists>q' js'. jobqueue_push a q js = Some (q', js') \<and> jq_rep q' js' (as @ [a]) \<and> jq_has_jobs q' = 1 \<and>
    (\<forall>b. work js' b = work js b) \<and> (\<forall>b. (js' b = None) = (js b = None))"
proof (cases "as = []")
  case True
  then show ?thesis
    using rep j by (auto simp: jobqueue_push_def jq_rep_def j_nxt_def bsem_post_def work_def)
next
  case False
  let ?js = "js(a \<mapsto> j\<lparr>j_prev := None\<rparr>)"
  from False obtain r where r: "js (last as) = Some r" "last as \<noteq> a"
    using jq_live [OF rep last_in_set] j(2) last_in_set by metis
  let ?js' = "?js(last as \<mapsto> r\<lparr>j_prev := Some a\<rparr>)"
  have "jq_rep q ?js as"
    by (rule jq_frame [OF rep]) (use j(2) in auto)
  then have "path (j_nxt ?js) (jq_front q) as"
    by (simp add: jq_rep_def)
  moreover have "j_nxt ?js' (last as) = Some (Some a)" "j_nxt ?js a = Some None"
    by (simp_all add: j_nxt_def)
  moreover have "j_nxt ?js' b = j_nxt ?js b" if "b \<noteq> last as \<or> as = []" for b
    using that False by (simp add: j_nxt_def)
  ultimately have "path (j_nxt ?js') (jq_front q) (as @ [a])"
    using path_snoc [of "j_nxt ?js" "jq_front q" as a "j_nxt ?js'"] j(2) False by simp
  then show ?thesis
    using rep r j False len
    by (intro exI [of _ "bsem_post (q\<lparr>jq_rear := Some a, jq_len := jq_len q + 1\<rparr>)"] exI [of _ ?js'])
      (auto simp: jobqueue_push_def jq_rep_def bsem_post_def work_def)
qed

lemma pull_rep:
  assumes "jq_rep q js (a # as)"
  shows "\<exists>q'. jobqueue_pull q js = Some (Some a, q') \<and> jq_rep q' js as \<and> (as \<noteq> [] \<longrightarrow> jq_has_jobs q' = 1) \<and>
    (as = [] \<longrightarrow> jq_has_jobs q' = jq_has_jobs q)"
proof -
  from assms obtain j where j: "js a = Some j" "path (j_nxt js) (j_prev j) as" "jq_front q = Some a" "jq_len q = int (length as) + 1"
      "jq_rear q = Some (last (a # as))"
    by (auto simp: jq_rep_def j_nxt_def)
  show ?thesis
  proof (cases as)
    case Nil
    then show ?thesis
      using j by (simp add: jobqueue_pull_def jq_rep_def)
  next
    case (Cons b bs)
    then show ?thesis
      using j by (simp add: jobqueue_pull_def jq_rep_def bsem_post_def)
  qed
qed

lemma pull_empty: "jq_rep q js [] \<Longrightarrow> jobqueue_pull q js = Some (None, q)"
  by (simp add: jobqueue_pull_def jq_rep_def)

text \<open>Header and store together are a queue.\<close>

definition jq_chain :: "jobqueue \<times> 'f jobs \<Rightarrow> addr list" where
  "jq_chain x = (THE as. path (j_nxt (snd x)) (jq_front (fst x)) as)"

definition jq_wf :: "jobqueue \<times> 'f jobs \<Rightarrow> bool" where
  "jq_wf x \<longleftrightarrow> jq_rep (fst x) (snd x) (jq_chain x)"

definition jq_ok :: "jobqueue \<times> 'f jobs \<Rightarrow> addr \<Rightarrow> bool" where
  "jq_ok x a \<longleftrightarrow> snd x a \<noteq> None \<and> a \<notin> set (jq_chain x) \<and> int (length (jq_chain x)) < INT_MAX"

definition jq_enq :: "jobqueue \<times> 'f jobs \<Rightarrow> addr \<Rightarrow> (jobqueue \<times> 'f jobs) option" where
  "jq_enq x a = jobqueue_push a (fst x) (snd x)"

definition jq_deq :: "jobqueue \<times> 'f jobs \<Rightarrow> (ptr \<times> jobqueue \<times> 'f jobs) option" where
  "jq_deq x = map_option (\<lambda>(a, q). (a, q, snd x)) (jobqueue_pull (fst x) (snd x))"

lemma jq_chain_eq: "jq_rep q js as \<Longrightarrow> jq_chain (q, js) = as"
  unfolding jq_chain_def by (rule the_equality) (auto simp: jq_rep_def dest: path_det)

lemma jq_wfI: "jq_rep q js as \<Longrightarrow> jq_wf (q, js) \<and> jq_chain (q, js) = as"
  by (simp add: jq_wf_def jq_chain_eq)

interpretation jobq: fifo_queue jq_wf jq_chain jq_ok jq_enq jq_deq
proof
  fix x :: "jobqueue \<times> 'a jobs" and a
  assume x: "jq_wf x" "jq_ok x a"
  obtain q js where xp: "x = (q, js)"
    by (cases x)
  from x xp obtain j where "js a = Some j" "a \<notin> set (jq_chain x)" "int (length (jq_chain x)) < INT_MAX" "jq_rep q js (jq_chain x)"
    by (auto simp: jq_ok_def jq_wf_def)
  from push_rep [OF this(4,1,2,3)] show "\<exists>q'. jq_enq x a = Some q' \<and> jq_wf q' \<and> jq_chain q' = jq_chain x @ [a]"
    using xp jq_wfI by (force simp: jq_enq_def)
next
  fix x :: "jobqueue \<times> 'a jobs"
  assume x: "jq_wf x" "jq_chain x = []"
  then show "\<exists>q'. jq_deq x = Some (None, q') \<and> jq_wf q' \<and> jq_chain q' = []"
    using pull_empty [of "fst x" "snd x"] by (auto simp: jq_wf_def jq_deq_def)
next
  fix x :: "jobqueue \<times> 'a jobs" and a as
  assume x: "jq_wf x" "jq_chain x = a # as"
  then show "\<exists>q'. jq_deq x = Some (Some a, q') \<and> jq_wf q' \<and> jq_chain q' = as"
    using pull_rep [of "fst x" "snd x" a as] jq_wfI by (fastforce simp: jq_wf_def jq_deq_def)
qed

section \<open>The pool\<close>

text \<open>Where a thread is in \<open>thread_do\<close>: before it counts itself as alive, at the head of the loop, in \<open>bsem_wait\<close>, behind it,
  before it counts itself as working, before the pull, running a job, behind it, before it stops counting, ended.\<close>

datatype thread_pc = T_start | T_loop | T_wait | T_test | T_count | T_pull | T_job addr | T_done | T_exit | T_dead

text \<open>The pool with the flags of the file, the jobs, the threads, and the signals sent to and handled by
  each. The last three fields record the history: the work added, the work started, the number of jobs finished.\<close>

record 'f pool =
  pl_queue :: jobqueue
  pl_jobs :: "'f jobs"
  pl_threads :: "thread_pc list"
  pl_alive :: int
  pl_working :: int
  pl_keepalive :: bool
  pl_on_hold :: bool
  pl_signal :: "nat \<Rightarrow> bool"
  pl_held :: "nat \<Rightarrow> bool"
  pl_added :: "('f \<times> ptr) list"
  pl_taken :: "('f \<times> ptr) list"
  pl_finished :: nat

text \<open>\<open>thpool_init\<close> up to the loop that waits for the threads to come up, \<open>thpool_up\<close>. The inner \<open>None\<close> is the result NULL.
  \<open>thread_init\<close> tests the pointer it was given instead of the one it got from \<open>malloc\<close>, so a thread
  structure that cannot be allocated is written through NULL.\<close>

definition thread_init :: "bool \<Rightarrow> thread_pc option" where
  "thread_init mem = (if mem then Some T_start else None)"

record pool_mem =
  pm_pool :: bool
  pm_queue :: bool
  pm_bsem :: bool
  pm_garbage :: int
  pm_threads :: bool
  pm_thread :: "nat \<Rightarrow> bool"

fun init_threads :: "pool_mem \<Rightarrow> nat \<Rightarrow> thread_pc list option" where
  "init_threads m 0 = Some []"
| "init_threads m (Suc n) = do { ts \<leftarrow> init_threads m n; t \<leftarrow> thread_init (pm_thread m n); Some (ts @ [t]) }"

definition thpool_init :: "pool_mem \<Rightarrow> int \<Rightarrow> 'f pool option option" where
  "thpool_init m num_threads =
     (let num_threads = (if num_threads < 0 then 0 else num_threads) in
      if \<not> pm_pool m then Some None
      else do {
        q \<leftarrow> jobqueue_init (pm_queue m) (pm_bsem m) (pm_garbage m);
        (case q of
           None \<Rightarrow> Some None
         | Some q \<Rightarrow>
             (if \<not> pm_threads m then do { js \<leftarrow> jobqueue_destroy q (Map.empty :: 'f jobs); Some None }
              else do {
                ts \<leftarrow> init_threads m (nat num_threads);
                Some (Some \<lparr>pl_queue = q, pl_jobs = Map.empty, pl_threads = ts, pl_alive = 0, pl_working = 0, pl_keepalive = True,
                  pl_on_hold = False, pl_signal = (\<lambda>t. False), pl_held = (\<lambda>t. False), pl_added = [], pl_taken = [], pl_finished = 0\<rparr>)
              }))
      })"

definition thpool_up :: "'f pool \<Rightarrow> bool" where
  "thpool_up p \<longleftrightarrow> pl_alive p = int (length (pl_threads p))"

definition thpool_add_work :: "ptr \<Rightarrow> 'f \<Rightarrow> ptr \<Rightarrow> 'f pool \<Rightarrow> (int \<times> 'f pool) option" where
  "thpool_add_work mem function_p arg_p p =
     (case mem of
        None \<Rightarrow> Some (-1, p)
      | Some newjob \<Rightarrow> do {
          (q, js) \<leftarrow> jobqueue_push newjob (pl_queue p)
            ((pl_jobs p)(newjob \<mapsto> \<lparr>j_prev = None, j_function = function_p, j_arg = arg_p\<rparr>));
          Some (0, p\<lparr>pl_queue := q, pl_jobs := js, pl_added := pl_added p @ [(function_p, arg_p)]\<rparr>)
        })"

text \<open>\<open>thpool_wait\<close> returns when its condition does not hold any more.\<close>

definition thpool_wait_over :: "'f pool \<Rightarrow> bool" where
  "thpool_wait_over p \<longleftrightarrow> \<not> (jq_len (pl_queue p) \<noteq> 0 \<or> pl_working p \<noteq> 0)"

text \<open>\<open>thpool_pause\<close> signals the first threads, as many as are alive; the handler of a thread is \<open>thread_hold\<close>: it
  sets the flag and spins until it is cleared.\<close>

definition thpool_pause :: "'f pool \<Rightarrow> 'f pool" where
  "thpool_pause p = p\<lparr>pl_signal := (\<lambda>t. pl_signal p t \<or> int t < pl_alive p)\<rparr>"

definition thpool_resume :: "'f pool \<Rightarrow> 'f pool" where
  "thpool_resume p = p\<lparr>pl_on_hold := False\<rparr>"

definition thread_hold :: "nat \<Rightarrow> 'f pool \<Rightarrow> 'f pool" where
  "thread_hold t p = p\<lparr>pl_signal := (pl_signal p)(t := False), pl_on_hold := True, pl_held := (pl_held p)(t := True)\<rparr>"

text \<open>\<open>thpool_destroy\<close>: it clears the flag, posts until no thread is alive, and then cleans up.\<close>

definition destroy_begin :: "'f pool \<Rightarrow> 'f pool" where
  "destroy_begin p = p\<lparr>pl_keepalive := False\<rparr>"

definition destroy_poll :: "'f pool \<Rightarrow> 'f pool" where
  "destroy_poll p = p\<lparr>pl_queue := bsem_post_all (pl_queue p)\<rparr>"

definition destroy_end :: "'f pool \<Rightarrow> 'f jobs option" where
  "destroy_end p = jobqueue_destroy (pl_queue p) (pl_jobs p)"

section \<open>The threads\<close>

definition goto :: "nat \<Rightarrow> thread_pc \<Rightarrow> 'f pool \<Rightarrow> 'f pool" where
  "goto t pc p = p\<lparr>pl_threads := (pl_threads p)[t := pc]\<rparr>"

definition may_run :: "nat \<Rightarrow> 'f pool \<Rightarrow> bool" where
  "may_run t p \<longleftrightarrow> t < length (pl_threads p) \<and> \<not> pl_held p t \<and> pl_threads p ! t \<noteq> T_dead \<and>
     (pl_threads p ! t = T_wait \<longrightarrow> bsem_may_pass (pl_queue p))"

definition thread_turn :: "nat \<Rightarrow> 'f pool \<Rightarrow> 'f pool option" where
  "thread_turn t p =
     (case pl_threads p ! t of
        T_start \<Rightarrow> Some (goto t T_loop (p\<lparr>pl_alive := pl_alive p + 1\<rparr>))
      | T_loop \<Rightarrow> Some (goto t (if pl_keepalive p then T_wait else T_exit) p)
      | T_wait \<Rightarrow> Some (goto t T_test (p\<lparr>pl_queue := bsem_wait (pl_queue p)\<rparr>))
      | T_test \<Rightarrow> Some (goto t (if pl_keepalive p then T_count else T_loop) p)
      | T_count \<Rightarrow> Some (goto t T_pull (p\<lparr>pl_working := pl_working p + 1\<rparr>))
      | T_pull \<Rightarrow> do {
          (a, q) \<leftarrow> jobqueue_pull (pl_queue p) (pl_jobs p);
          (case a of
             None \<Rightarrow> Some (goto t T_done (p\<lparr>pl_queue := q\<rparr>))
           | Some a \<Rightarrow> do {
               j \<leftarrow> pl_jobs p a;
               Some (goto t (T_job a) (p\<lparr>pl_queue := q, pl_taken := pl_taken p @ [(j_function j, j_arg j)]\<rparr>))
             })
        }
      | T_job a \<Rightarrow> do {
          _ \<leftarrow> pl_jobs p a;
          Some (goto t T_done (p\<lparr>pl_jobs := (pl_jobs p)(a := None), pl_finished := pl_finished p + 1\<rparr>))
        }
      | T_done \<Rightarrow> Some (goto t T_loop (p\<lparr>pl_working := pl_working p - 1\<rparr>))
      | T_exit \<Rightarrow> Some (goto t T_dead (p\<lparr>pl_alive := pl_alive p - 1\<rparr>))
      | T_dead \<Rightarrow> Some p)"

text \<open>A step: the turn of a thread, a call by a user of the pool, or a signal. \<open>malloc\<close> returns memory that is not in use.\<close>

inductive pool_step :: "'f pool \<Rightarrow> 'f pool \<Rightarrow> bool" where
  turn: "may_run t p \<Longrightarrow> thread_turn t p = Some p' \<Longrightarrow> pool_step p p'"
| add: "(\<forall>a. mem = Some a \<longrightarrow> pl_jobs p a = None) \<Longrightarrow> thpool_add_work mem f arg p = Some (ret, p') \<Longrightarrow> pool_step p p'"
| pause: "pool_step p (thpool_pause p)"
| resume: "pool_step p (thpool_resume p)"
| hold: "pl_signal p t \<Longrightarrow> \<not> pl_held p t \<Longrightarrow> pool_step p (thread_hold t p)"
| release: "\<not> pl_on_hold p \<Longrightarrow> pool_step p (p\<lparr>pl_held := (pl_held p)(t := False)\<rparr>)"
| destroy: "pool_step p (destroy_begin p)"
| poll: "\<not> pl_keepalive p \<Longrightarrow> pool_step p (destroy_poll p)"

inductive pool_reach :: "'f pool \<Rightarrow> 'f pool \<Rightarrow> bool" where
  start: "pool_reach p p"
| step: "pool_reach p p' \<Longrightarrow> pool_step p' p'' \<Longrightarrow> pool_reach p p''"

section \<open>The invariant\<close>

fun busy :: "thread_pc \<Rightarrow> bool" where
  "busy T_pull \<longleftrightarrow> True" | "busy (T_job a) \<longleftrightarrow> True" | "busy T_done \<longleftrightarrow> True" | "busy pc \<longleftrightarrow> False"

fun running :: "thread_pc \<Rightarrow> bool" where
  "running (T_job a) \<longleftrightarrow> True" | "running pc \<longleftrightarrow> False"

fun counted :: "thread_pc \<Rightarrow> bool" where
  "counted T_start \<longleftrightarrow> False" | "counted T_dead \<longleftrightarrow> False" | "counted pc \<longleftrightarrow> True"

text \<open>A thread that got past the semaphore and will pull.\<close>

fun awake :: "thread_pc \<Rightarrow> bool" where
  "awake T_test \<longleftrightarrow> True" | "awake T_count \<longleftrightarrow> True" | "awake T_pull \<longleftrightarrow> True" | "awake pc \<longleftrightarrow> False"

definition cnt :: "('a \<Rightarrow> bool) \<Rightarrow> 'a list \<Rightarrow> int" where
  "cnt P xs = int (length (filter P xs))"

lemma cnt_update: "t < length xs \<Longrightarrow> cnt P (xs[t := v]) = cnt P xs - of_bool (P (xs ! t)) + of_bool (P v)"
proof (induction xs arbitrary: t)
  case (Cons x xs)
  then show ?case
    by (cases t) (auto simp: cnt_def)
qed simp

lemma cnt_nonneg: "0 \<le> cnt P xs"
  by (simp add: cnt_def)

lemma cnt_zero: "cnt P xs = 0 \<Longrightarrow> x \<in> set xs \<Longrightarrow> \<not> P x"
  by (auto simp: cnt_def filter_empty_conv)

text \<open>No address is the job of two threads or of a thread and the queue, and the jobs of the threads are live.\<close>

definition holder :: "thread_pc list \<Rightarrow> addr \<Rightarrow> nat \<Rightarrow> bool" where
  "holder ts a u \<longleftrightarrow> u < length ts \<and> ts ! u = T_job a"

lemma holder_update [simp]: "t < length ts \<Longrightarrow> holder (ts[t := v]) a u = (if u = t then v = T_job a else holder ts a u)"
  by (auto simp: holder_def)

definition jobs_apart :: "'f pool \<Rightarrow> addr list \<Rightarrow> bool" where
  "jobs_apart p as \<longleftrightarrow> (\<forall>a u. holder (pl_threads p) a u \<longrightarrow>
     pl_jobs p a \<noteq> None \<and> a \<notin> set as \<and> (\<forall>v. holder (pl_threads p) a v \<longrightarrow> v = u))"

lemma apartD: "jobs_apart p as \<Longrightarrow> holder (pl_threads p) a u \<Longrightarrow> pl_jobs p a \<noteq> None \<and> a \<notin> set as"
  "jobs_apart p as \<Longrightarrow> holder (pl_threads p) a u \<Longrightarrow> holder (pl_threads p) a v \<Longrightarrow> v = u"
  unfolding jobs_apart_def by blast+

text \<open>Every job in memory is queued or held by a thread.\<close>

definition no_leak :: "'f pool \<Rightarrow> addr list \<Rightarrow> bool" where
  "no_leak p as \<longleftrightarrow> (\<forall>a. pl_jobs p a \<noteq> None \<longrightarrow> a \<in> set as \<or> (\<exists>u. holder (pl_threads p) a u))"

definition no_lost_job :: "'f pool \<Rightarrow> addr list \<Rightarrow> bool" where
  "no_lost_job p as \<longleftrightarrow> (pl_keepalive p \<longrightarrow> as \<noteq> [] \<longrightarrow> jq_has_jobs (pl_queue p) = 1 \<or> (\<exists>pc \<in> set (pl_threads p). awake pc))"

definition pool_rep :: "'f pool \<Rightarrow> addr list \<Rightarrow> bool" where
  "pool_rep p as \<longleftrightarrow> jq_rep (pl_queue p) (pl_jobs p) as \<and> pl_working p = cnt busy (pl_threads p) \<and>
     pl_alive p = cnt counted (pl_threads p) \<and> pl_added p = pl_taken p @ map (work (pl_jobs p)) as \<and>
     int (pl_finished p) + cnt running (pl_threads p) = int (length (pl_taken p)) \<and> jobs_apart p as \<and> no_lost_job p as \<and>
     no_leak p as \<and> int (length as) \<le> INT_MAX"

lemma repI:
  assumes "jq_rep (pl_queue p) (pl_jobs p) as" "pl_working p = cnt busy (pl_threads p)" "pl_alive p = cnt counted (pl_threads p)"
    and "pl_added p = pl_taken p @ map (work (pl_jobs p)) as"
    and "int (pl_finished p) + cnt running (pl_threads p) = int (length (pl_taken p))" "jobs_apart p as" "no_lost_job p as"
    and "no_leak p as" "int (length as) \<le> INT_MAX"
  shows "pool_rep p as"
  using assms by (simp add: pool_rep_def)

text \<open>Moving a thread on that neither takes nor gives back a job.\<close>

lemma goto_apart:
  assumes "jobs_apart p as" "t < length (pl_threads p)" "\<not> running pc"
  shows "jobs_apart (goto t pc p) as"
  using assms by (auto simp: jobs_apart_def goto_def)

lemma goto_leak:
  assumes "no_leak p as" "t < length (pl_threads p)" "\<not> running (pl_threads p ! t)"
  shows "no_leak (goto t pc p) as"
proof -
  have "u \<noteq> t" if "holder (pl_threads p) a u" for a u
    using that assms(3) by (auto simp: holder_def)
  then have "Ex (holder ((pl_threads p)[t := pc]) a)" if "Ex (holder (pl_threads p) a)" for a
    using that assms(2) by (metis holder_update)
  then show ?thesis
    using assms(1) by (simp add: no_leak_def goto_def) blast
qed

lemma awake_other:
  assumes "t < length ts" "\<not> awake (ts ! t)" "pc \<in> set ts" "awake pc"
  shows "\<exists>pc' \<in> set (ts[t := v]). awake pc'"
proof -
  from assms(3) obtain u where u: "u < length ts" "ts ! u = pc"
    by (auto simp: in_set_conv_nth)
  then have "u \<noteq> t"
    using assms by auto
  then have "ts[t := v] ! u = pc" "u < length (ts[t := v])"
    using u by simp_all
  then show ?thesis
    using assms(4) nth_mem by metis
qed

lemma awake_moved: "t < length ts \<Longrightarrow> awake v \<Longrightarrow> \<exists>pc \<in> set (ts[t := v]). awake pc"
  by (meson set_update_memI)

lemma apart_fields [simp]:
  "jobs_apart (p\<lparr>pl_alive := i\<rparr>) as = jobs_apart p as" "jobs_apart (p\<lparr>pl_working := i\<rparr>) as = jobs_apart p as"
  "jobs_apart (p\<lparr>pl_queue := q\<rparr>) as = jobs_apart p as" "jobs_apart (p\<lparr>pl_taken := xs\<rparr>) as = jobs_apart p as"
  "jobs_apart (p\<lparr>pl_finished := n\<rparr>) as = jobs_apart p as" "jobs_apart (p\<lparr>pl_added := xs\<rparr>) as = jobs_apart p as"
  by (simp_all add: jobs_apart_def)

lemma leak_fields [simp]:
  "no_leak (p\<lparr>pl_alive := i\<rparr>) as = no_leak p as" "no_leak (p\<lparr>pl_working := i\<rparr>) as = no_leak p as"
  "no_leak (p\<lparr>pl_queue := q\<rparr>) as = no_leak p as"
  by (simp_all add: no_leak_def)

lemma goto_fields [simp]:
  "pl_queue (goto t pc p) = pl_queue p" "pl_jobs (goto t pc p) = pl_jobs p" "pl_threads (goto t pc p) = (pl_threads p)[t := pc]"
  "pl_alive (goto t pc p) = pl_alive p" "pl_working (goto t pc p) = pl_working p" "pl_keepalive (goto t pc p) = pl_keepalive p"
  "pl_added (goto t pc p) = pl_added p" "pl_taken (goto t pc p) = pl_taken p" "pl_finished (goto t pc p) = pl_finished p"
  by (simp_all add: goto_def)

lemma rep_goto:
  assumes rep: "pool_rep p as" and t: "t < length (pl_threads p)" "\<not> running (pl_threads p ! t)" "\<not> running pc"
    and w: "w = pl_working p + of_bool (busy pc) - of_bool (busy (pl_threads p ! t))"
    and a: "a = pl_alive p + of_bool (counted pc) - of_bool (counted (pl_threads p ! t))"
    and aw: "pl_keepalive p \<Longrightarrow> awake (pl_threads p ! t) \<Longrightarrow> awake pc"
  shows "pool_rep (goto t pc (p\<lparr>pl_working := w, pl_alive := a\<rparr>)) as"
proof (rule repI)
  show "jobs_apart (goto t pc (p\<lparr>pl_working := w, pl_alive := a\<rparr>)) as" "no_leak (goto t pc (p\<lparr>pl_working := w, pl_alive := a\<rparr>)) as"
    using rep t by (intro goto_apart goto_leak; simp add: pool_rep_def)+
  show "no_lost_job (goto t pc (p\<lparr>pl_working := w, pl_alive := a\<rparr>)) as"
    using rep aw awake_other [OF t(1)] awake_moved [OF t(1)] by (fastforce simp: pool_rep_def no_lost_job_def)
qed (use rep t w a in \<open>simp_all add: pool_rep_def cnt_update\<close>)

lemma rep_goto_same:
  assumes "pool_rep p as" "t < length (pl_threads p)" "\<not> running (pl_threads p ! t)" "\<not> running pc"
    and "busy pc = busy (pl_threads p ! t)" "counted pc = counted (pl_threads p ! t)"
    and "pl_keepalive p \<Longrightarrow> awake (pl_threads p ! t) \<Longrightarrow> awake pc"
  shows "pool_rep (goto t pc p) as"
  using rep_goto [OF assms(1-4) refl refl assms(7)] assms(5,6) by (cases p) simp

lemma rep_wait:
  assumes rep: "pool_rep p as" and t: "t < length (pl_threads p)" "pl_threads p ! t = T_wait"
  shows "pool_rep (goto t T_test (p\<lparr>pl_queue := bsem_wait (pl_queue p)\<rparr>)) as"
proof (rule repI)
  show "jobs_apart (goto t T_test (p\<lparr>pl_queue := bsem_wait (pl_queue p)\<rparr>)) as" "no_leak (goto t T_test (p\<lparr>pl_queue := bsem_wait (pl_queue p)\<rparr>)) as"
    using rep t by (intro goto_apart goto_leak; simp add: pool_rep_def)+
  show "no_lost_job (goto t T_test (p\<lparr>pl_queue := bsem_wait (pl_queue p)\<rparr>)) as"
    using awake_moved [OF t(1)] by (simp add: no_lost_job_def)
qed (use rep t in \<open>simp_all add: pool_rep_def cnt_update bsem_wait_def\<close>)

lemma rep_pull_empty:
  assumes rep: "pool_rep p []" and t: "t < length (pl_threads p)" "pl_threads p ! t = T_pull"
  shows "pool_rep (goto t T_done p) []"
proof (rule repI)
  show "jobs_apart (goto t T_done p) []" "no_leak (goto t T_done p) []"
    using rep t by (intro goto_apart goto_leak; simp add: pool_rep_def)+
qed (use rep t in \<open>simp_all add: pool_rep_def cnt_update no_lost_job_def\<close>)

lemma rep_pull:
  assumes rep: "pool_rep p (a # as)" and t: "t < length (pl_threads p)" "pl_threads p ! t = T_pull"
  shows "\<exists>p'. thread_turn t p = Some p' \<and> pool_rep p' as"
proof -
  have q: "jq_rep (pl_queue p) (pl_jobs p) (a # as)"
    using rep by (simp add: pool_rep_def)
  from pull_rep [OF q] obtain q' where q': "jobqueue_pull (pl_queue p) (pl_jobs p) = Some (Some a, q')" "jq_rep q' (pl_jobs p) as"
      "as \<noteq> [] \<longrightarrow> jq_has_jobs q' = 1"
    by blast
  from jq_live [OF q] obtain j where j: "pl_jobs p a = Some j"
    by auto
  have "a \<notin> set as"
    using path_distinct [of "j_nxt (pl_jobs p)" "jq_front (pl_queue p)" "a # as"] q by (simp add: jq_rep_def)
  moreover have "jobs_apart p (a # as)"
    using rep by (simp add: pool_rep_def)
  ultimately have ap: "jobs_apart (goto t (T_job a) p) as"
    using t j by (auto simp: jobs_apart_def)
  let ?p = "goto t (T_job a) (p\<lparr>pl_queue := q', pl_taken := pl_taken p @ [(j_function j, j_arg j)]\<rparr>)"
  have "pool_rep ?p as"
  proof (rule repI)
    show "jobs_apart ?p as"
      using ap by (simp add: jobs_apart_def)
    have "u \<noteq> t" if "holder (pl_threads p) b u" for b u
      using that t(2) by (auto simp: holder_def)
    then show "no_leak ?p as"
      using rep t(1) by (auto simp: pool_rep_def no_leak_def) blast+
  qed (use rep t q' j in \<open>simp_all add: pool_rep_def cnt_update no_lost_job_def work_def\<close>)
  then show ?thesis
    using t(2) q'(1) j by (simp add: thread_turn_def)
qed

lemma rep_job:
  assumes rep: "pool_rep p as" and t: "t < length (pl_threads p)" "pl_threads p ! t = T_job a"
  shows "\<exists>p'. thread_turn t p = Some p' \<and> pool_rep p' as"
proof -
  have ap: "jobs_apart p as" and q: "jq_rep (pl_queue p) (pl_jobs p) as"
    using rep by (simp_all add: pool_rep_def)
  from ap obtain j where j: "pl_jobs p a = Some j" "a \<notin> set as"
    using apartD(1) [of p as a t] t by (auto simp: holder_def)
  let ?js = "(pl_jobs p)(a := None)"
  let ?p = "goto t T_done (p\<lparr>pl_jobs := ?js, pl_finished := pl_finished p + 1\<rparr>)"
  have "pool_rep ?p as"
  proof (rule repI)
    show "jq_rep (pl_queue ?p) (pl_jobs ?p) as"
      using jq_frame [OF q, of ?js] j(2) by fastforce
    show "jobs_apart ?p as"
    proof -
      have h: "holder (pl_threads p) a t"
        using t by (simp add: holder_def)
      show ?thesis
        using ap t(1) apartD(2) [OF ap h] by (auto simp: jobs_apart_def)
    qed
    show "no_lost_job ?p as"
      using rep awake_other [OF t(1)] t(2) by (fastforce simp: pool_rep_def no_lost_job_def)
    have "u \<noteq> t" if "holder (pl_threads p) b u" "b \<noteq> a" for b u
      using that t(2) by (auto simp: holder_def)
    then show "no_leak ?p as"
      using rep t(1) by (auto simp: pool_rep_def no_leak_def) blast+
    have "map (work ?js) as = map (work (pl_jobs p)) as"
      using j(2) by (auto simp: work_def)
    then show "pl_added ?p = pl_taken ?p @ map (work (pl_jobs ?p)) as"
      using rep by (simp add: pool_rep_def)
  qed (use rep t in \<open>simp_all add: pool_rep_def cnt_update\<close>)
  then show ?thesis
    using t(2) j(1) by (simp add: thread_turn_def)
qed

lemma turn_rep:
  assumes rep: "pool_rep p as" and r: "may_run t p"
  shows "\<exists>p' as'. thread_turn t p = Some p' \<and> pool_rep p' as'"
proof -
  have t: "t < length (pl_threads p)"
    using r by (simp add: may_run_def)
  show ?thesis
  proof (cases "pl_threads p ! t")
    case T_wait
    then show ?thesis
      using rep_wait [OF rep t] by (auto simp: thread_turn_def)
  next
    case T_pull
    then show ?thesis
    proof (cases as)
      case Nil
      then have "jobqueue_pull (pl_queue p) (pl_jobs p) = Some (None, pl_queue p)"
        using rep by (simp add: pool_rep_def pull_empty)
      then show ?thesis
        using rep_pull_empty [of p t] rep t T_pull Nil by (cases p) (auto simp: thread_turn_def)
    qed (use rep_pull rep t in blast)
  next
    case (T_job a)
    then show ?thesis
      using rep_job [OF rep t] by blast
  next
    case T_start
    then show ?thesis
      using rep_goto [OF rep t, of T_loop "pl_working p" "pl_alive p + 1"] by (cases p) (auto simp: thread_turn_def)
  next
    case T_count
    then show ?thesis
      using rep_goto [OF rep t, of T_pull "pl_working p + 1" "pl_alive p"] by (cases p) (auto simp: thread_turn_def)
  next
    case T_done
    then show ?thesis
      using rep_goto [OF rep t, of T_loop "pl_working p - 1" "pl_alive p"] by (cases p) (auto simp: thread_turn_def)
  next
    case T_exit
    then show ?thesis
      using rep_goto [OF rep t, of T_dead "pl_working p" "pl_alive p - 1"] by (cases p) (auto simp: thread_turn_def)
  next
    case T_loop
    then show ?thesis
      using rep_goto_same [OF rep t, of T_wait] rep_goto_same [OF rep t, of T_exit] by (auto simp: thread_turn_def)
  next
    case T_test
    then show ?thesis
      using rep_goto_same [OF rep t, of T_count] rep_goto_same [OF rep t, of T_loop] by (auto simp: thread_turn_def)
  qed (use rep in \<open>auto simp: thread_turn_def\<close>)
qed

lemma add_rep:
  assumes rep: "pool_rep p as" and fresh: "pl_jobs p a = None" and len: "int (length as) < INT_MAX"
  shows "\<exists>p'. thpool_add_work (Some a) f arg p = Some (0, p') \<and> pool_rep p' (as @ [a])"
proof -
  let ?js = "(pl_jobs p)(a \<mapsto> \<lparr>j_prev = None, j_function = f, j_arg = arg\<rparr>)"
  have q: "jq_rep (pl_queue p) (pl_jobs p) as" and ap: "jobs_apart p as"
    using rep by (simp_all add: pool_rep_def)
  have n: "a \<notin> set as"
    using jq_live [OF q] fresh by fastforce
  have "jq_rep (pl_queue p) ?js as"
    by (rule jq_frame [OF q]) (use n in auto)
  from push_rep [OF this _ n len] obtain q' js' where
    q': "jobqueue_push a (pl_queue p) ?js = Some (q', js')" "jq_rep q' js' (as @ [a])" "jq_has_jobs q' = 1"
      "\<forall>b. work js' b = work ?js b" "\<forall>b. (js' b = None) = (?js b = None)"
    by auto
  let ?p = "p\<lparr>pl_queue := q', pl_jobs := js', pl_added := pl_added p @ [(f, arg)]\<rparr>"
  have "map (work js') as = map (work (pl_jobs p)) as" "work js' a = (f, arg)"
    using n q'(4) by (auto simp: work_def)
  moreover have "jobs_apart ?p (as @ [a])"
    unfolding jobs_apart_def
  proof (intro allI impI)
    fix b u
    assume "holder (pl_threads ?p) b u"
    then have h: "holder (pl_threads p) b u"
      by simp
    from apartD(1) [OF ap h] have "b \<noteq> a" "pl_jobs p b \<noteq> None" "b \<notin> set as"
      using fresh by auto
    then show "pl_jobs ?p b \<noteq> None \<and> b \<notin> set (as @ [a]) \<and> (\<forall>v. holder (pl_threads ?p) b v \<longrightarrow> v = u)"
      using q'(5) apartD(2) [OF ap h] by simp
  qed
  moreover have "no_leak ?p (as @ [a])"
    using rep q'(5) by (auto simp: pool_rep_def no_leak_def)
  ultimately have "pool_rep ?p (as @ [a])"
    using rep q' len by (simp add: pool_rep_def no_lost_job_def)
  then show ?thesis
    using q'(1) by (simp add: thpool_add_work_def)
qed

lemma rep_frame:
  assumes "pool_rep p as" "pl_queue p' = pl_queue p \<or> pl_queue p' = bsem_post_all (pl_queue p)" "pl_jobs p' = pl_jobs p" "pl_threads p' = pl_threads p"
    and "pl_alive p' = pl_alive p" "pl_working p' = pl_working p" "pl_keepalive p' \<Longrightarrow> pl_keepalive p"
    and "pl_added p' = pl_added p" "pl_taken p' = pl_taken p" "pl_finished p' = pl_finished p"
  shows "pool_rep p' as"
  using assms by (auto simp: pool_rep_def no_lost_job_def jobs_apart_def no_leak_def bsem_post_all_def)

lemma step_rep:
  assumes "pool_step p p'" "pool_rep p as"
  shows "\<exists>as'. pool_rep p' as'"
  using assms
proof cases
  case (turn t)
  then show ?thesis
    using turn_rep [OF assms(2)] by fastforce
next
  case (add mem f arg ret)
  show ?thesis
  proof (cases mem)
    case None
    then show ?thesis
      using add(2) assms(2) by (auto simp: thpool_add_work_def)
  next
    case (Some a)
    have "int (length as) < INT_MAX"
    proof (rule ccontr)
      assume "\<not> ?thesis"
      then have "jq_len (pl_queue p) = INT_MAX"
        using assms(2) by (simp add: pool_rep_def jq_rep_def)
      then show False
        using add(2) Some by (auto simp: thpool_add_work_def jobqueue_push_def bind_eq_Some_conv split: if_splits)
    qed
    then show ?thesis
      using add_rep [OF assms(2), of a f arg] add Some by auto
  qed
qed (auto intro!: exI [of _ as] rep_frame [OF assms(2)]
    simp: thpool_pause_def thpool_resume_def thread_hold_def destroy_begin_def destroy_poll_def)

lemma init_threads_start: "init_threads m n = Some ts \<Longrightarrow> ts = replicate n T_start"
  by (induction n arbitrary: ts) (auto simp: bind_eq_Some_conv thread_init_def replicate_append_same split: if_splits)

lemma init_rep:
  assumes "thpool_init m n = Some (Some p)"
  shows "pool_rep p []"
proof -
  from assms obtain q ts where p: "init_threads m (nat (if n < 0 then 0 else n)) = Some ts"
      "p = \<lparr>pl_queue = q, pl_jobs = Map.empty, pl_threads = ts, pl_alive = 0, pl_working = 0, pl_keepalive = True,
        pl_on_hold = False, pl_signal = (\<lambda>t. False), pl_held = (\<lambda>t. False), pl_added = [], pl_taken = [], pl_finished = 0\<rparr>"
      "jobqueue_init (pm_queue m) (pm_bsem m) (pm_garbage m) = Some (Some q)"
    by (auto simp: thpool_init_def Let_def bind_eq_Some_conv split: if_splits option.splits)
  have "ts = replicate (nat (if n < 0 then 0 else n)) T_start"
    using p(1) by (rule init_threads_start)
  then have c: "cnt busy ts = 0" "cnt counted ts = 0" "cnt running ts = 0" "\<not> holder ts a u" for a u
    by (auto simp: cnt_def holder_def)
  have "jq_rep q Map.empty []"
    using p(3) by (auto simp: jobqueue_init_def bsem_init_def jq_rep_def bind_eq_Some_conv split: if_splits)
  then show ?thesis
    using p(2) c by (simp add: pool_rep_def jobs_apart_def no_lost_job_def no_leak_def)
qed

lemma reach_rep: "pool_reach p0 p \<Longrightarrow> pool_rep p0 as \<Longrightarrow> \<exists>as'. pool_rep p as'"
  by (induction rule: pool_reach.induct) (auto dest: step_rep)

section \<open>Destruction\<close>

lemma clear_jobs_rep:
  "jq_rep q js as \<Longrightarrow> \<exists>q'. clear_jobs q js = Some (q', \<lambda>a. if a \<in> set as then None else js a)"
proof (induction as arbitrary: q js)
  case Nil
  then have "jq_len q = 0"
    by (simp add: jq_rep_def)
  then show ?case
    by (subst clear_jobs.simps) simp
next
  case (Cons a as)
  from pull_rep [OF Cons.prems] obtain q' where q': "jobqueue_pull q js = Some (Some a, q')" "jq_rep q' js as"
    by blast
  have "a \<notin> set as" "jq_len q \<noteq> 0"
    using path_distinct [of "j_nxt js" "jq_front q" "a # as"] Cons.prems by (auto simp: jq_rep_def)
  then have "jq_rep q' (js(a := None)) as"
    using jq_frame [OF q'(2), of "js(a := None)"] by fastforce
  from Cons.IH [OF this] obtain q'' where
    "clear_jobs q' (js(a := None)) = Some (q'', \<lambda>b. if b \<in> set as then None else (js(a := None)) b)"
    by blast
  moreover have "(\<lambda>b. if b \<in> set as then None else (js(a := None)) b) = (\<lambda>b. if b \<in> set (a # as) then None else js b)"
    by auto
  ultimately show ?case
    using q'(1) \<open>jq_len q \<noteq> 0\<close> by (subst clear_jobs.simps) (auto simp del: fun_upd_apply)
qed

lemma destroy_rep: "jq_rep q js as \<Longrightarrow> jobqueue_destroy q js = Some (\<lambda>a. if a \<in> set as then None else js a)"
  using clear_jobs_rep [of q js as] by (auto simp: jobqueue_destroy_def jobqueue_clear_def bsem_reset_def bsem_init_def)

section \<open>Concrete runs\<close>

definition good_mem :: pool_mem where
  "good_mem = \<lparr>pm_pool = True, pm_queue = True, pm_bsem = True, pm_garbage = 7, pm_threads = True, pm_thread = (\<lambda>n. True)\<rparr>"

definition fresh_pool :: "nat pool" where
  "fresh_pool = \<lparr>pl_queue = \<lparr>jq_front = None, jq_rear = None, jq_has_jobs = 0, jq_len = 0\<rparr>, pl_jobs = Map.empty,
     pl_threads = [T_start], pl_alive = 0, pl_working = 0, pl_keepalive = True, pl_on_hold = False,
     pl_signal = (\<lambda>t. False), pl_held = (\<lambda>t. False), pl_added = [], pl_taken = [], pl_finished = 0\<rparr>"

lemma fresh_init: "thpool_init good_mem 1 = Some (Some fresh_pool)"
  by (simp add: thpool_init_def good_mem_def fresh_pool_def jobqueue_init_def bsem_init_def thread_init_def)

text \<open>\<open>n\<close> turns of one thread.\<close>

fun turns :: "nat \<Rightarrow> nat \<Rightarrow> 'f pool \<Rightarrow> 'f pool option" where
  "turns t 0 p = Some p"
| "turns t (Suc n) p = (if may_run t p then do { p \<leftarrow> thread_turn t p; turns t n p } else None)"

lemma turns_reach: "turns t n p = Some p' \<Longrightarrow> pool_reach p0 p \<Longrightarrow> pool_reach p0 p'"
proof (induction t n p rule: turns.induct)
  case (2 t n p)
  then obtain y where "may_run t p" "thread_turn t p = Some y" "turns t n y = Some p'"
    by (auto simp: bind_eq_Some_conv split: if_splits)
  then show ?case
    using 2 pool_reach.step [OF 2(3) pool_step.turn] by blast
qed simp

definition one_job :: "nat pool" where
  "one_job = snd (the (thpool_add_work (Some 5) 9 None fresh_pool))"

lemma one_job_reach: "pool_reach fresh_pool one_job" "pl_added one_job = [(9, None)]" "jq_len (pl_queue one_job) = 1" "pl_keepalive one_job"
proof -
  have a: "thpool_add_work (Some 5) 9 None fresh_pool = Some (0, one_job)"
    by (simp add: one_job_def thpool_add_work_def jobqueue_push_def fresh_pool_def)
  show "pool_reach fresh_pool one_job"
    by (rule pool_reach.step [OF pool_reach.start], rule pool_step.add [OF _ a]) (simp add: fresh_pool_def)
  show "pl_added one_job = [(9, None)]" "jq_len (pl_queue one_job) = 1" "pl_keepalive one_job"
    by (simp_all add: one_job_def thpool_add_work_def jobqueue_push_def fresh_pool_def bsem_post_def)
qed

section \<open>Properties\<close>

text \<open>C8: The thread pool runs every job once and in order. In every state it reaches, whatever the interleaving, the next
  turn of each thread that may run is defined, and the work started so far followed by the work in the queue is the
  work added, in the order it was added.\<close>

theorem thpool_jobs_in_order:
  assumes "thpool_init m n = Some (Some p0)" "pool_reach p0 p"
  shows "(\<forall>t. may_run t p \<longrightarrow> (\<exists>p'. thread_turn t p = Some p')) \<and>
    (\<exists>as. jq_rep (pl_queue p) (pl_jobs p) as \<and> pl_added p = pl_taken p @ map (work (pl_jobs p)) as)"
proof -
  from reach_rep [OF assms(2) init_rep [OF assms(1)]] obtain as where as: "pool_rep p as"
    by blast
  then show ?thesis
    using turn_rep [OF as] by (auto simp: pool_rep_def)
qed

theorem thpool_jobs_in_order_witness:
  "\<exists>as. jq_rep (pl_queue one_job) (pl_jobs one_job) as \<and> [(9, None)] = pl_taken one_job @ map (work (pl_jobs one_job)) as"
  using thpool_jobs_in_order [OF fresh_init one_job_reach(1)] one_job_reach(2) by simp

text \<open>C9: No wake-up is lost. As long as the pool is not being destroyed, whenever a job is in the queue, the semaphore is
  posted or a thread has passed it and is on its way to pull.\<close>

theorem thpool_no_lost_wakeup:
  assumes "thpool_init m n = Some (Some p0)" "pool_reach p0 p" "pl_keepalive p" "jq_len (pl_queue p) \<noteq> 0"
  shows "bsem_may_pass (pl_queue p) \<or> (\<exists>pc \<in> set (pl_threads p). awake pc)"
proof -
  from reach_rep [OF assms(2) init_rep [OF assms(1)]] obtain as where as: "pool_rep p as"
    by blast
  then have "as \<noteq> []"
    using assms(4) by (auto simp: pool_rep_def jq_rep_def)
  then show ?thesis
    using as assms(3) by (auto simp: pool_rep_def no_lost_job_def bsem_may_pass_def)
qed

theorem thpool_no_lost_wakeup_witness: "bsem_may_pass (pl_queue one_job) \<or> (\<exists>pc \<in> set (pl_threads one_job). awake pc)"
  using thpool_no_lost_wakeup [OF fresh_init one_job_reach(1)] one_job_reach(3,4) by simp

text \<open>C18: \<open>thpool_wait\<close> waits for all jobs. When its condition lets it return, every job that was added has been started and has
  finished.\<close>

theorem thpool_wait_complete:
  assumes "thpool_init m n = Some (Some p0)" "pool_reach p0 p" "thpool_wait_over p"
  shows "pl_taken p = pl_added p \<and> pl_finished p = length (pl_added p)"
proof -
  from reach_rep [OF assms(2) init_rep [OF assms(1)]] obtain as where as: "pool_rep p as"
    by blast
  then have e: "as = []" "cnt busy (pl_threads p) = 0"
    using assms(3) by (auto simp: pool_rep_def jq_rep_def thpool_wait_over_def)
  have "\<not> running pc" if "pc \<in> set (pl_threads p)" for pc
    using cnt_zero [OF e(2) that] by (cases pc) auto
  then have "cnt running (pl_threads p) = 0"
    by (auto simp: cnt_def filter_empty_conv)
  then show ?thesis
    using as e(1) by (simp add: pool_rep_def)
qed

theorem thpool_wait_complete_witness:
  "\<exists>p. turns 0 9 one_job = Some p \<and> pl_taken p = [(9, None)] \<and> pl_finished p = 1"
proof -
  obtain p where p: "turns 0 9 one_job = Some p" "thpool_wait_over p" "pl_added p = [(9, None)]"
    by (simp add: one_job_def fresh_pool_def thpool_add_work_def jobqueue_push_def bsem_post_def numeral_eq_Suc may_run_def
        thread_turn_def goto_def bsem_may_pass_def bsem_wait_def jobqueue_pull_def thpool_wait_over_def)
  with thpool_wait_complete [OF fresh_init turns_reach [OF p(1) one_job_reach(1)]] show ?thesis
    by simp
qed

text \<open>C19: Destroying the pool ends and leaks no job. When no thread is alive any more, the cleanup of \<open>thpool_destroy\<close>
  terminates, and the memory of every job, started or not, has been freed.\<close>

theorem thpool_destroy_frees:
  assumes "thpool_init m n = Some (Some p0)" "pool_reach p0 p" "pl_alive p = 0"
  shows "destroy_end p = Some Map.empty"
proof -
  from reach_rep [OF assms(2) init_rep [OF assms(1)]] obtain as where as: "pool_rep p as"
    by blast
  then have "cnt counted (pl_threads p) = 0"
    using assms(3) by (simp add: pool_rep_def)
  then have "\<not> holder (pl_threads p) a u" for a u
    using cnt_zero [of counted "pl_threads p" "T_job a"] by (auto simp: holder_def in_set_conv_nth)
  then have "pl_jobs p a = None" if "a \<notin> set as" for a
    using as that by (auto simp: pool_rep_def no_leak_def)
  then have "(\<lambda>a. if a \<in> set as then None else pl_jobs p a) = Map.empty"
    by auto
  then show ?thesis
    using destroy_rep [of "pl_queue p" "pl_jobs p" as] as by (simp add: destroy_end_def pool_rep_def)
qed

theorem thpool_destroy_frees_witness: "pl_jobs one_job 5 \<noteq> None \<and> destroy_end one_job = Some Map.empty"
proof -
  have "pl_jobs one_job 5 \<noteq> None" "pl_alive one_job = 0"
    by (simp_all add: one_job_def thpool_add_work_def jobqueue_push_def fresh_pool_def)
  then show ?thesis
    using thpool_destroy_frees [OF fresh_init one_job_reach(1)] by simp
qed

text \<open>A resume can be overtaken. The flag is set by the handler and not by \<open>thpool_pause\<close>, so when the handler of a signalled thread runs only
  after \<open>thpool_resume\<close>, the thread is held with nobody left to resume it.\<close>

lemma resume_overtaken:
  assumes "0 < pl_alive p" "\<not> pl_held p 0"
  shows "\<exists>p'. pool_step p (thpool_pause p) \<and> pool_step (thpool_pause p) (thpool_resume (thpool_pause p)) \<and>
    pool_step (thpool_resume (thpool_pause p)) p' \<and> pl_on_hold p' \<and> \<not> may_run 0 p'"
proof -
  let ?p = "thpool_resume (thpool_pause p)"
  have "pl_signal ?p 0" "\<not> pl_held ?p 0"
    using assms by (simp_all add: thpool_pause_def thpool_resume_def)
  moreover have "pl_on_hold (thread_hold 0 ?p)" "\<not> may_run 0 (thread_hold 0 ?p)"
    by (simp_all add: thread_hold_def may_run_def)
  ultimately show ?thesis
    using pool_step.pause pool_step.resume pool_step.hold by blast
qed

end
