(* ===== verification/Kmem.thy ===== *)
theory Kmem
  imports Queues "HOL-Library.Multiset"
begin

text \<open>
  The object caches of \<open>misaka/lib/kmem.c\<close> and the circular lists of \<open>misaka/include/list.h\<close> they are made of.

  A cache manages objects of one size inside a given block of memory. The bytes of the block are a partial map, so an access outside the
  block is undefined (\<open>None\<close>). The list heads, the buffer pointers of the objects and the cache descriptors are
  kept in stores of their own; that they do not overlap in the block is a theorem below. The structures have their
  sizes on a 64-bit platform: 32 bytes for \<open>struct kmem\<close>, 72 for \<open>struct kmem_cache\<close>, with the list head at offset
  56, and 24 for \<open>struct obj\<close>, with the list head at its start.
\<close>

unbundle bit_operations_syntax

section \<open>Alignment\<close>

text \<open>The macro \<open>set_align\<close> in the types it is used with: the size is a \<open>size_t\<close>, the alignment an \<open>int\<close>.\<close>

definition set_align :: "size_t \<Rightarrow> cint \<Rightarrow> size_t" where
  "set_align sz align = (sz + scast (align - 1)) AND scast (NOT (align - 1))"

lemma and_not_mask: "x AND NOT (mask k) = push_bit k (drop_bit k x)" for x :: "'a::len word"
  by (rule bit_word_eqI) (auto simp: bit_simps)

lemma scast_mask: "k < 31 \<Longrightarrow> scast (mask k :: cint) = (mask k :: size_t)"
  by (rule bit_word_eqI) (auto simp: bit_simps)

lemma scast_not_mask: "k < 31 \<Longrightarrow> scast (NOT (mask k) :: cint) = (NOT (mask k) :: size_t)"
  by (rule bit_word_eqI) (auto simp: bit_simps)

lemma unat_and_not_mask: "unat (x AND NOT (mask k)) = unat x div 2 ^ k * 2 ^ k" for x :: "'a::len word"
proof -
  have "unat (push_bit k (drop_bit k x)) = push_bit k (unat (drop_bit k x))"
    by (rule bit_eqI) (auto simp: bit_simps dest: bit_imp_le_length)
  moreover have "unat (drop_bit k x) = unat x div 2 ^ k"
    by (subst unat_drop_bit_eq) (rule drop_bit_eq_div)
  ultimately show ?thesis
    by (simp only: and_not_mask push_bit_eq_mult)
qed

lemma align_mask: "(2 ^ k :: cint) - 1 = mask k"
  by (simp add: mask_eq_exp_minus_1)

lemma unat_set_align:
  assumes "k < 31" "unat sz + 2 ^ k \<le> 2 ^ 64"
  shows "unat (set_align sz (2 ^ k)) = (unat sz + (2 ^ k - 1)) div 2 ^ k * 2 ^ k"
proof -
  have m: "unat (mask k :: size_t) = 2 ^ k - 1"
  proof -
    have "unat (mask k :: size_t) = mask k"
      using assms(1) by (intro bit_eqI) (auto simp: bit_simps)
    then show ?thesis
      by (simp add: mask_eq_exp_minus_1)
  qed
  have "unat (sz + mask k) = unat sz + (2 ^ k - 1)"
    using assms(2) m by (subst unat_add_lem [THEN iffD1]) auto
  then show ?thesis
    using assms(1) unat_and_not_mask [of "sz + mask k" k] by (simp add: set_align_def align_mask scast_mask scast_not_mask)
qed

section \<open>Circular lists\<close>

record list_head =
  lh_next :: addr
  lh_prev :: addr

type_synonym links = "addr \<Rightarrow> list_head option"

definition INIT_LIST_HEAD :: "addr \<Rightarrow> links \<Rightarrow> links" where
  "INIT_LIST_HEAD a L = L(a \<mapsto> \<lparr>lh_next = a, lh_prev = a\<rparr>)"

definition set_next :: "addr \<Rightarrow> addr \<Rightarrow> links \<Rightarrow> links option" where
  "set_next a v L = do { h \<leftarrow> L a; Some (L(a \<mapsto> h\<lparr>lh_next := v\<rparr>)) }"

definition set_prev :: "addr \<Rightarrow> addr \<Rightarrow> links \<Rightarrow> links option" where
  "set_prev a v L = do { h \<leftarrow> L a; Some (L(a \<mapsto> h\<lparr>lh_prev := v\<rparr>)) }"

definition list_add_between :: "addr \<Rightarrow> addr \<Rightarrow> addr \<Rightarrow> links \<Rightarrow> links option" where
  "list_add_between new prv nxt L = do {
     L \<leftarrow> set_prev nxt new L;
     L \<leftarrow> set_next new nxt L;
     L \<leftarrow> set_prev new prv L;
     set_next prv new L
   }"

definition list_add :: "addr \<Rightarrow> addr \<Rightarrow> links \<Rightarrow> links option" where
  "list_add new head L = do { h \<leftarrow> L head; list_add_between new head (lh_next h) L }"

definition list_add_tail :: "addr \<Rightarrow> addr \<Rightarrow> links \<Rightarrow> links option" where
  "list_add_tail new head L = do { h \<leftarrow> L head; list_add_between new (lh_prev h) head L }"

definition list_del_between :: "addr \<Rightarrow> addr \<Rightarrow> links \<Rightarrow> links option" where
  "list_del_between prv nxt L = do { L \<leftarrow> set_prev nxt prv L; set_next prv nxt L }"

definition list_del :: "addr \<Rightarrow> links \<Rightarrow> links option" where
  "list_del entry L = do { e \<leftarrow> L entry; list_del_between (lh_prev e) (lh_next e) L }"

definition list_del_init :: "addr \<Rightarrow> links \<Rightarrow> links option" where
  "list_del_init entry L = do {
     e \<leftarrow> L entry;
     L \<leftarrow> list_del_between (lh_prev e) (lh_next e) L;
     Some (INIT_LIST_HEAD entry L)
   }"

definition list_empty :: "addr \<Rightarrow> links \<Rightarrow> bool option" where
  "list_empty head L = do { h \<leftarrow> L head; Some (lh_next h = head) }"

text \<open>The links from \<open>x\<close> over \<open>ys\<close> to \<open>z\<close>, in both directions; a circle is such a chain from the head back to it.\<close>

definition linked :: "links \<Rightarrow> addr \<Rightarrow> addr \<Rightarrow> bool" where
  "linked L x y \<longleftrightarrow> map_option lh_next (L x) = Some y \<and> map_option lh_prev (L y) = Some x"

fun chain :: "links \<Rightarrow> addr \<Rightarrow> addr list \<Rightarrow> addr \<Rightarrow> bool" where
  "chain L x [] z \<longleftrightarrow> linked L x z"
| "chain L x (y # ys) z \<longleftrightarrow> linked L x y \<and> chain L y ys z"

definition circ_rep :: "links \<Rightarrow> addr \<Rightarrow> addr list \<Rightarrow> bool" where
  "circ_rep L h as \<longleftrightarrow> chain L h as h \<and> distinct (h # as)"

lemma chain_cong:
  assumes "\<forall>a \<in> set (x # ys). map_option lh_next (L' a) = map_option lh_next (L a)"
    and "\<forall>a \<in> set (ys @ [z]). map_option lh_prev (L' a) = map_option lh_prev (L a)"
  shows "chain L' x ys z = chain L x ys z"
  using assms by (induction ys arbitrary: x) (auto simp: linked_def)

lemma chain_live: "chain L x ys z \<Longrightarrow> a \<in> set (x # ys @ [z]) \<Longrightarrow> L a \<noteq> None"
  by (induction ys arbitrary: x) (auto simp: linked_def)

lemma circ_live: "circ_rep L h as \<Longrightarrow> a \<in> set (h # as) \<Longrightarrow> L a \<noteq> None"
  using chain_live [of L h as h a] by (auto simp: circ_rep_def)

lemma circ_init: "circ_rep (INIT_LIST_HEAD h L) h []"
  by (simp add: circ_rep_def linked_def INIT_LIST_HEAD_def)

text \<open>The first node behind the head.\<close>

lemma circ_first: "circ_rep L h as \<Longrightarrow> \<exists>n. L h = Some n \<and> lh_next n = (if as = [] then h else hd as)"
  by (cases as) (auto simp: circ_rep_def linked_def)

lemma list_add_rep:
  assumes rep: "circ_rep L h as" and new: "L a \<noteq> None" "a \<notin> set (h # as)"
  shows "\<exists>L'. list_add a h L = Some L' \<and> circ_rep L' h (a # as) \<and> (\<forall>b. b \<notin> set (h # a # as) \<longrightarrow> L' b = L b) \<and>
    (\<forall>b. (L' b = None) = (L b = None))"
proof -
  obtain n where n: "L h = Some n" "lh_next n = (if as = [] then h else hd as)"
    using circ_first [OF rep] by blast
  obtain na where na: "L a = Some na"
    using new(1) by blast
  show ?thesis
  proof (cases as)
    case Nil
    then show ?thesis
      using n na new(2) by (auto simp: list_add_def list_add_between_def set_prev_def set_next_def circ_rep_def linked_def)
  next
    case (Cons y ys)
    obtain ny where ny: "L y = Some ny"
      using circ_live [OF rep, of y] Cons by auto
    have d: "distinct (h # a # y # ys)" and c: "chain L y ys h"
      using rep new(2) Cons by (auto simp: circ_rep_def)
    let ?L = "((L(y \<mapsto> ny\<lparr>lh_prev := a\<rparr>))(a \<mapsto> na\<lparr>lh_next := y, lh_prev := h\<rparr>))(h \<mapsto> n\<lparr>lh_next := a\<rparr>)"
    have add: "list_add a h L = Some ?L"
      using n na ny d Cons by (simp add: list_add_def list_add_between_def set_prev_def set_next_def)
    have "chain ?L y ys h = chain L y ys h"
      using d n ny by (intro chain_cong) auto
    then have "circ_rep ?L h (a # as)"
      using d c Cons n by (simp add: circ_rep_def linked_def)
    then show ?thesis
      using add d Cons n na ny by (intro exI [of _ ?L]) auto
  qed
qed

lemma list_del_rep:
  assumes rep: "circ_rep L h (a # as)"
  shows "\<exists>L'. list_del_init a L = Some L' \<and> circ_rep L' h as \<and> L' a = Some \<lparr>lh_next = a, lh_prev = a\<rparr> \<and>
    (\<forall>b. b \<notin> set (h # a # as) \<longrightarrow> L' b = L b) \<and> (\<forall>b. (L' b = None) = (L b = None))"
proof -
  obtain n where n: "L h = Some n"
    using circ_live [OF rep, of h] by auto
  show ?thesis
  proof (cases as)
    case Nil
    from rep Nil obtain na where na: "L a = Some na" "lh_next na = h" "lh_prev na = h" "a \<noteq> h"
      by (auto simp: circ_rep_def linked_def)
    then show ?thesis
      using n Nil by (auto simp: list_del_init_def list_del_between_def set_prev_def set_next_def INIT_LIST_HEAD_def circ_rep_def linked_def)
  next
    case (Cons y ys)
    obtain ny where ny: "L y = Some ny"
      using circ_live [OF rep, of y] Cons by auto
    from rep Cons obtain na where na: "L a = Some na" "lh_next na = y" "lh_prev na = h"
      by (auto simp: circ_rep_def linked_def)
    have d: "distinct (h # a # y # ys)" and c: "chain L y ys h"
      using rep Cons by (auto simp: circ_rep_def)
    let ?L = "((L(y \<mapsto> ny\<lparr>lh_prev := h\<rparr>))(h \<mapsto> n\<lparr>lh_next := y\<rparr>))(a \<mapsto> \<lparr>lh_next = a, lh_prev = a\<rparr>)"
    have del: "list_del_init a L = Some ?L"
      using n na ny d by (simp add: list_del_init_def list_del_between_def set_prev_def set_next_def INIT_LIST_HEAD_def)
    have "chain ?L y ys h = chain L y ys h"
      using d n ny by (intro chain_cong) auto
    then have "circ_rep ?L h as"
      using d c Cons by (simp add: circ_rep_def linked_def)
    then show ?thesis
      using del d Cons n na ny by (intro exI [of _ ?L]) auto
  qed
qed

section \<open>Caches\<close>

record kmem_cache =
  kc_name :: "byte list"
  kc_mem_size :: cint
  kc_tots :: cint
  kc_used :: cint
  kc_free :: cint

record kmem =
  km_tots :: cint
  km_size :: cint
  km_used_size :: cint
  km_free :: addr
  km_align :: cint
  km_lock :: cint

record karea =
  ka_bytes :: "addr \<Rightarrow> byte option"
  ka_links :: links
  ka_buf :: "addr \<Rightarrow> addr option"
  ka_caches :: "addr \<Rightarrow> kmem_cache option"
  ka_kmems :: "addr \<Rightarrow> kmem option"

abbreviation (input) SIZEOF_KMEM :: size_t where "SIZEOF_KMEM \<equiv> 32"
abbreviation (input) SIZEOF_CACHE :: size_t where "SIZEOF_CACHE \<equiv> 72"
abbreviation (input) SIZEOF_OBJ :: size_t where "SIZEOF_OBJ \<equiv> 24"
abbreviation (input) FREE_OBJS :: nat where "FREE_OBJS \<equiv> 56"
abbreviation (input) OF :: byte where "OF \<equiv> 255"

definition valid :: "karea \<Rightarrow> addr \<Rightarrow> nat \<Rightarrow> bool" where
  "valid ar a n \<longleftrightarrow> (\<forall>i \<in> set [0..<n]. ka_bytes ar (a + i) \<noteq> None)"

definition put :: "addr \<Rightarrow> byte \<Rightarrow> karea \<Rightarrow> karea option" where
  "put a b ar = (if ka_bytes ar a = None then None else Some (ar\<lparr>ka_bytes := (ka_bytes ar)(a \<mapsto> b)\<rparr>))"

text \<open>The semaphore functions get the value of the lock and change their copy of it.\<close>

definition sem_down_now :: "cint \<Rightarrow> int" where
  "sem_down_now sem = (if sem = 0 then -1 else 0)"

definition init_kmem :: "addr \<Rightarrow> cint \<Rightarrow> cint \<Rightarrow> karea \<Rightarrow> (ptr \<times> karea) option" where
  "init_kmem p sz align ar =
     (let real_size = ucast (set_align SIZEOF_KMEM align) :: cint in
      if sint sz \<le> sint real_size then Some (None, ar)
      else if \<not> valid ar p 32 then None
      else Some (Some p, ar\<lparr>ka_kmems := (ka_kmems ar)(p \<mapsto> \<lparr>km_tots = 0, km_size = sz, km_used_size = real_size,
        km_free = nat (int p + sint real_size), km_align = align, km_lock = 1\<rparr>)\<rparr>))"

definition init_obj :: "addr \<Rightarrow> cint \<Rightarrow> karea \<Rightarrow> karea option" where
  "init_obj objp mem_size ar =
     (if \<not> valid ar objp 24 then None
      else do {
        let ar = ar\<lparr>ka_links := INIT_LIST_HEAD objp (ka_links ar)\<rparr>;
        ar \<leftarrow> put (objp + 24) OF ar;
        let ar = ar\<lparr>ka_buf := (ka_buf ar)(objp \<mapsto> objp + 25)\<rparr>;
        put (nat (int (objp + 25) + sint mem_size)) OF ar
      })"

text \<open>The loop of \<open>init_kmem_cache\<close>: initialise the object at \<open>index\<close>, put it in front of the free list, and go on behind it.\<close>

fun init_objs :: "nat \<Rightarrow> addr \<Rightarrow> cint \<Rightarrow> int \<Rightarrow> addr \<Rightarrow> karea \<Rightarrow> karea option" where
  "init_objs 0 head mem_size real_mem_size index ar = Some ar"
| "init_objs (Suc tots) head mem_size real_mem_size index ar = do {
     ar \<leftarrow> init_obj index mem_size ar;
     L \<leftarrow> list_add index head (ka_links ar);
     init_objs tots head mem_size real_mem_size (nat (int index + real_mem_size)) (ar\<lparr>ka_links := L\<rparr>)
   }"

text \<open>\<open>strncpy\<close> of at most 39 bytes into the name, which has 40: the last byte keeps its value.\<close>

definition copy_name :: "byte list \<Rightarrow> byte \<Rightarrow> byte list" where
  "copy_name str l = take 39 (takeWhile (\<lambda>c. c \<noteq> 0) str @ replicate 39 0) @ [l]"

definition obj_size :: "cint \<Rightarrow> cint \<Rightarrow> size_t" where
  "obj_size mem_size align = set_align (SIZEOF_OBJ + scast mem_size + 2) align"

definition init_kmem_cache :: "addr \<Rightarrow> byte list \<Rightarrow> cint \<Rightarrow> cint \<Rightarrow> cint \<Rightarrow> karea \<Rightarrow> karea option" where
  "init_kmem_cache c str mem_size tots align ar =
     (let real_size = ucast (set_align SIZEOF_CACHE align) :: cint;
          real_mem_size = ucast (obj_size mem_size align) :: cint in
      if \<not> valid ar c 72 \<or> sint tots < 0 then None
      else do {
        l \<leftarrow> ka_bytes ar (c + 39);
        let ar = ar\<lparr>ka_caches := (ka_caches ar)(c \<mapsto> \<lparr>kc_name = copy_name str l, kc_mem_size = mem_size, kc_tots = tots,
                     kc_used = 0, kc_free = tots\<rparr>),
                   ka_links := INIT_LIST_HEAD (c + FREE_OBJS) (ka_links ar)\<rparr>;
        init_objs (nat (sint tots)) (c + FREE_OBJS) mem_size (sint real_mem_size) (nat (int c + sint real_size)) ar
      })"

text \<open>\<open>kmem_cache_create\<close>: the size is computed in \<open>size_t\<close> and stored into an \<open>int\<close>.\<close>

definition cache_size :: "cint \<Rightarrow> cint \<Rightarrow> cint \<Rightarrow> cint" where
  "cache_size mem_size tots align = ucast (set_align SIZEOF_CACHE align + obj_size mem_size align * scast tots)"

definition kmem_cache_create :: "addr \<Rightarrow> byte list \<Rightarrow> cint \<Rightarrow> cint \<Rightarrow> karea \<Rightarrow> (ptr \<times> karea) option" where
  "kmem_cache_create kmemp str mem_size tots ar = do {
     km \<leftarrow> ka_kmems ar kmemp;
     if sem_down_now (km_lock km) \<noteq> 0 then Some (None, ar)
     else do {
       let real_size = cache_size mem_size tots (km_align km);
       if sint (km_size km - km_used_size km) \<le> sint real_size then Some (None, ar)
       else do {
         let c = km_free km;
         let n = unat (scast real_size :: size_t);
         if \<not> valid ar c n then None
         else do {
           let ar = ar\<lparr>ka_bytes := (\<lambda>a. if c \<le> a \<and> a < c + n then Some 0 else ka_bytes ar a)\<rparr>;
           ar \<leftarrow> init_kmem_cache c str mem_size tots (km_align km) ar;
           Some (Some c, ar\<lparr>ka_kmems := (ka_kmems ar)(kmemp \<mapsto> km\<lparr>km_used_size := km_used_size km + real_size,
             km_free := nat (int (km_free km) + sint real_size), km_tots := km_tots km + 1\<rparr>)\<rparr>)
         }
       }
     }
   }"

definition kmem_cache_alloc :: "addr \<Rightarrow> karea \<Rightarrow> (ptr \<times> karea) option" where
  "kmem_cache_alloc c ar = do {
     kc \<leftarrow> ka_caches ar c;
     if kc_free kc = 0 then Some (None, ar)
     else do {
       h \<leftarrow> ka_links ar (c + FREE_OBJS);
       let objt = lh_next h;
       L \<leftarrow> list_del_init objt (ka_links ar);
       b \<leftarrow> ka_buf ar objt;
       Some (Some b, ar\<lparr>ka_links := L, ka_caches := (ka_caches ar)(c \<mapsto> kc\<lparr>kc_free := kc_free kc - 1, kc_used := kc_used kc + 1\<rparr>)\<rparr>)
     }
   }"

definition kmem_cache_free :: "addr \<Rightarrow> addr \<Rightarrow> karea \<Rightarrow> karea option" where
  "kmem_cache_free c bufp ar = do {
     kc \<leftarrow> ka_caches ar c;
     L \<leftarrow> list_add (bufp - 25) (c + FREE_OBJS) (ka_links ar);
     Some (ar\<lparr>ka_links := L, ka_caches := (ka_caches ar)(c \<mapsto> kc\<lparr>kc_used := kc_used kc - 1, kc_free := kc_free kc + 1\<rparr>)\<rparr>)
   }"

definition check_overflow :: "addr \<Rightarrow> cint \<Rightarrow> karea \<Rightarrow> int option" where
  "check_overflow bufp mem_size ar =
     (if bufp = 0 then Some (-1)
      else do {
        x \<leftarrow> ka_bytes ar (bufp - 1);
        if x \<noteq> OF then Some (-1)
        else do {
          y \<leftarrow> ka_bytes ar (nat (int bufp + sint mem_size));
          Some (if y = OF then 0 else -1)
        }
      })"

definition kmem_cache_checkoverflow :: "addr \<Rightarrow> addr \<Rightarrow> karea \<Rightarrow> int option" where
  "kmem_cache_checkoverflow c bufp ar = do { kc \<leftarrow> ka_caches ar c; check_overflow bufp (kc_mem_size kc) ar }"

section \<open>The objects of a cache\<close>

text \<open>Object \<open>i\<close> of objects of \<open>B\<close> bytes from \<open>base\<close> on, and what a freshly initialised one looks like.\<close>

definition obj_at :: "addr \<Rightarrow> nat \<Rightarrow> nat \<Rightarrow> addr" where
  "obj_at base B i = base + i * B"

definition fresh_obj :: "nat \<Rightarrow> karea \<Rightarrow> addr \<Rightarrow> bool" where
  "fresh_obj ms ar a \<longleftrightarrow> ka_buf ar a = Some (a + 25) \<and> ka_bytes ar (a + 24) = Some OF \<and> ka_bytes ar (a + 25 + ms) = Some OF"

lemma obj_at_0 [simp]: "obj_at base B 0 = base"
  by (simp add: obj_at_def)

lemma obj_at_shift: "obj_at (base + B) B i = obj_at base B (Suc i)"
  by (simp add: obj_at_def)

lemma obj_at_disjoint:
  assumes "i < j"
  shows "obj_at base B i + B \<le> obj_at base B j"
proof -
  have "Suc i * B \<le> j * B"
    using assms by (intro mult_le_mono1) simp
  then show ?thesis
    by (simp add: obj_at_def)
qed

lemma obj_at_end:
  assumes "i < n"
  shows "obj_at base B i + B \<le> base + n * B"
  using obj_at_disjoint [OF assms, of base B] by (simp add: obj_at_def)

lemma init_obj_ok:
  assumes v: "\<And>a. o1 \<le> a \<Longrightarrow> a < o1 + 26 + ms \<Longrightarrow> ka_bytes ar a \<noteq> None" and ms: "sint mem_size = int ms"
  shows "\<exists>ar'. init_obj o1 mem_size ar = Some ar' \<and> fresh_obj ms ar' o1 \<and> ka_links ar' = INIT_LIST_HEAD o1 (ka_links ar) \<and>
    ka_buf ar' = (ka_buf ar)(o1 \<mapsto> o1 + 25) \<and> ka_caches ar' = ka_caches ar \<and> ka_kmems ar' = ka_kmems ar \<and>
    (\<forall>a. (ka_bytes ar' a = None) = (ka_bytes ar a = None)) \<and> (\<forall>a. a < o1 \<or> o1 + 26 + ms \<le> a \<longrightarrow> ka_bytes ar' a = ka_bytes ar a)"
proof -
  have "valid ar o1 24" "ka_bytes ar (o1 + 24) \<noteq> None" "ka_bytes ar (o1 + 25 + ms) \<noteq> None"
    using v by (auto simp: valid_def)
  moreover have "nat (int (o1 + 25) + sint mem_size) = o1 + 25 + ms"
    using ms by simp
  ultimately show ?thesis
    by (auto simp: init_obj_def put_def fresh_obj_def)
qed

lemma init_objs_ok:
  assumes "\<And>a. base \<le> a \<Longrightarrow> a < base + n * B \<Longrightarrow> ka_bytes ar a \<noteq> None" "sint mem_size = int ms" "26 + ms \<le> B"
    and "circ_rep (ka_links ar) h fs" "\<And>a. a \<in> set (h # fs) \<Longrightarrow> a < base"
  shows "\<exists>ar'. init_objs n h mem_size (int B) base ar = Some ar' \<and>
    circ_rep (ka_links ar') h (rev (map (obj_at base B) [0..<n]) @ fs) \<and> (\<forall>i < n. fresh_obj ms ar' (obj_at base B i)) \<and>
    ka_caches ar' = ka_caches ar \<and> ka_kmems ar' = ka_kmems ar \<and> (\<forall>a. (ka_bytes ar' a = None) = (ka_bytes ar a = None)) \<and>
    (\<forall>a < base. ka_bytes ar' a = ka_bytes ar a \<and> ka_buf ar' a = ka_buf ar a)"
  using assms
proof (induction n arbitrary: base ar fs)
  case (Suc n)
  have v: "ka_bytes ar a \<noteq> None" if "base \<le> a" "a < base + 26 + ms" for a
    using Suc.prems(1,3) that by simp
  from init_obj_ok [OF v Suc.prems(2)] obtain ar1 where
    1: "init_obj base mem_size ar = Some ar1" "fresh_obj ms ar1 base" "ka_links ar1 = INIT_LIST_HEAD base (ka_links ar)"
      "ka_buf ar1 = (ka_buf ar)(base \<mapsto> base + 25)" "ka_caches ar1 = ka_caches ar" "ka_kmems ar1 = ka_kmems ar"
      "\<forall>a. (ka_bytes ar1 a = None) = (ka_bytes ar a = None)" "\<forall>a. a < base \<or> base + 26 + ms \<le> a \<longrightarrow> ka_bytes ar1 a = ka_bytes ar a"
    by blast
  have n: "base \<notin> set (h # fs)"
    using Suc.prems(5) by blast
  have "circ_rep (ka_links ar1) h fs"
    using Suc.prems(4) n chain_cong [of h fs "ka_links ar1" "ka_links ar" h] by (auto simp: 1(3) INIT_LIST_HEAD_def circ_rep_def)
  moreover have "ka_links ar1 base \<noteq> None"
    by (simp add: 1(3) INIT_LIST_HEAD_def)
  ultimately obtain L where L: "list_add base h (ka_links ar1) = Some L" "circ_rep L h (base # fs)"
    using list_add_rep n by blast
  let ?ar = "ar1\<lparr>ka_links := L\<rparr>"
  have p1: "ka_bytes ?ar a \<noteq> None" if "base + B \<le> a" "a < base + B + n * B" for a
    using 1(7) Suc.prems(1) [of a] that by simp
  have p2: "a < base + B" if "a \<in> set (h # base # fs)" for a
    using that Suc.prems(3) Suc.prems(5) [of a] by auto
  have p3: "circ_rep (ka_links ?ar) h (base # fs)"
    using L(2) by simp
  from Suc.IH [OF p1 Suc.prems(2,3) p3 p2] obtain ar' where
    2: "init_objs n h mem_size (int B) (base + B) ?ar = Some ar'"
      "circ_rep (ka_links ar') h (rev (map (obj_at (base + B) B) [0..<n]) @ base # fs)" "\<forall>i < n. fresh_obj ms ar' (obj_at (base + B) B i)"
      "ka_caches ar' = ka_caches ar" "ka_kmems ar' = ka_kmems ar" "\<forall>a. (ka_bytes ar' a = None) = (ka_bytes ar a = None)"
      "\<forall>a < base + B. ka_bytes ar' a = ka_bytes ar1 a \<and> ka_buf ar' a = ka_buf ar1 a"
    using 1(5-7) by auto
  have "init_objs (Suc n) h mem_size (int B) base ar = Some ar'"
    using 1(1) L(1) 2(1) by (simp add: nat_int_add)
  moreover have "rev (map (obj_at base B) [0..<Suc n]) = rev (map (obj_at (base + B) B) [0..<n]) @ [base]"
    by (subst upt_conv_Cons) (simp_all add: obj_at_shift map_Suc_upt [symmetric] del: upt_Suc)
  moreover have "fresh_obj ms ar' base"
    using 1(2) 2(7) Suc.prems(3) by (auto simp: fresh_obj_def)
  then have "\<forall>i < Suc n. fresh_obj ms ar' (obj_at base B i)"
    using 2(3) by (auto simp: less_Suc_eq_0_disj obj_at_shift)
  moreover have "\<forall>a < base. ka_bytes ar' a = ka_bytes ar a \<and> ka_buf ar' a = ka_buf ar a"
    using 2(7) 1(4,8) by auto
  ultimately show ?case
    using 2 by (intro exI [of _ ar']) simp
qed simp

section \<open>Creating a cache\<close>

definition align_up :: "nat \<Rightarrow> nat \<Rightarrow> nat" where
  "align_up n k = (n + (2 ^ k - 1)) div 2 ^ k * 2 ^ k"

lemma align_up_le: "n \<le> align_up n k"
proof -
  define d :: nat where "d = 2 ^ k"
  have "0 < d"
    by (simp add: d_def)
  then have "(n + (d - 1)) mod d < d"
    by simp
  moreover have "(n + (d - 1)) div d * d + (n + (d - 1)) mod d = n + (d - 1)"
    by (rule div_mult_mod_eq)
  ultimately have "n \<le> (n + (d - 1)) div d * d"
    using \<open>0 < d\<close> by linarith
  then show ?thesis
    by (simp only: align_up_def d_def)
qed

lemma align_up_less: "align_up n k < n + 2 ^ k"
proof -
  have "align_up n k \<le> n + (2 ^ k - 1)"
    unfolding align_up_def by (rule div_times_less_eq_dividend)
  moreover have "(0::nat) < 2 ^ k"
    by simp
  ultimately show ?thesis
    by linarith
qed

lemma align_up_dvd: "2 ^ k dvd align_up n k"
  by (simp add: align_up_def)

text \<open>An \<open>int\<close> that holds a number of the right size.\<close>

lemma unat_scast_nonneg:
  fixes x :: cint
  assumes "0 \<le> sint x"
  shows "unat (scast x :: size_t) = nat (sint x)"
proof -
  define m where "m = nat (sint x)"
  have "sint x < 2 ^ 31"
    using sint_lt [of x] by simp
  then have m: "m < 2 ^ 31" "sint x = int m"
    using assms by (simp_all add: m_def)
  have "(scast x :: size_t) = word_of_int (sint x)"
    by simp
  then have "unat (scast x :: size_t) = unat (word_of_nat m :: size_t)"
    using m(2) by simp
  also have "\<dots> = m"
    using m(1) by (simp add: unsigned_of_nat take_bit_nat_eq_self)
  finally show ?thesis
    by (simp add: m_def)
qed

lemma sint_ucast_small:
  fixes w :: size_t
  assumes "unat w \<le> 2147483647"
  shows "sint (ucast w :: cint) = int (unat w)"
proof -
  define m where "m = unat w"
  have w: "w = word_of_nat m" and m: "m \<le> 2147483647"
    using assms by (simp_all add: m_def)
  have "(ucast w :: cint) = word_of_nat m"
    by (simp add: m_def)
  moreover have "sint (word_of_nat m :: cint) = int m"
    using m by (simp add: signed_of_nat signed_take_bit_int_eq_self)
  ultimately show ?thesis
    by (simp add: m_def)
qed

text \<open>The block a cache takes: the descriptor and the objects, each rounded up to the alignment.\<close>

definition block_size :: "nat \<Rightarrow> nat \<Rightarrow> nat \<Rightarrow> nat" where
  "block_size ms n k = align_up 72 k + n * align_up (26 + ms) k"

lemma sizes:
  fixes mem_size tots :: cint
  assumes k: "k < 31" and pos: "0 \<le> sint mem_size" "0 \<le> sint tots"
    and fits: "block_size (nat (sint mem_size)) (nat (sint tots)) k \<le> 2147483647"
  shows "sint (ucast (set_align SIZEOF_CACHE (2 ^ k)) :: cint) = int (align_up 72 k)"
    "unat (obj_size mem_size (2 ^ k)) = align_up (26 + nat (sint mem_size)) k"
    "sint (cache_size mem_size tots (2 ^ k)) = int (block_size (nat (sint mem_size)) (nat (sint tots)) k)"
proof -
  let ?ms = "nat (sint mem_size)" and ?n = "nat (sint tots)"
  have lt: "?ms < 2 ^ 31" "?n < 2 ^ 31"
    using sint_lt [of mem_size] sint_lt [of tots] pos by simp_all
  have k2: "(2::nat) ^ k \<le> 2 ^ 30"
    using k by (intro power_increasing) simp_all
  have a: "unat (set_align SIZEOF_CACHE (2 ^ k)) = align_up 72 k"
    using unat_set_align [OF k, of SIZEOF_CACHE] k2 by (simp add: align_up_def)
  have "unat (SIZEOF_OBJ + scast mem_size + 2) = 26 + ?ms"
    using unat_scast_nonneg [OF pos(1)] lt(1) by (simp add: unat_word_ariths)
  then show b: "unat (obj_size mem_size (2 ^ k)) = align_up (26 + ?ms) k"
    using unat_set_align [OF k, of "SIZEOF_OBJ + scast mem_size + 2"] k2 lt(1) by (simp add: obj_size_def align_up_def)
  show "sint (ucast (set_align SIZEOF_CACHE (2 ^ k)) :: cint) = int (align_up 72 k)"
    using sint_ucast_small [of "set_align SIZEOF_CACHE (2 ^ k)"] a fits by (simp add: block_size_def)
  have p: "?n * align_up (26 + ?ms) k \<le> 2147483647"
    using fits by (simp add: block_size_def)
  have "unat (obj_size mem_size (2 ^ k) * scast tots) = ?n * align_up (26 + ?ms) k"
    using b unat_scast_nonneg [OF pos(2)] p by (simp add: unat_word_ariths(2) mult.commute)
  then have t: "unat (set_align SIZEOF_CACHE (2 ^ k) + obj_size mem_size (2 ^ k) * scast tots) = block_size ?ms ?n k"
    using a fits by (simp add: unat_word_ariths(1) block_size_def)
  show "sint (cache_size mem_size tots (2 ^ k)) = int (block_size ?ms ?n k)"
    unfolding cache_size_def t [symmetric] using fits by (intro sint_ucast_small) (simp only: t)
qed

lemma create_ok:
  assumes km: "ka_kmems ar kp = Some km" "km_align km = 2 ^ k" "km_lock km \<noteq> 0" and k: "k < 31"
    and pos: "0 \<le> sint mem_size" "0 \<le> sint tots" and sz: "sz = block_size (nat (sint mem_size)) (nat (sint tots)) k"
    and fits: "int sz < sint (km_size km - km_used_size km)" and v: "\<And>a. km_free km \<le> a \<Longrightarrow> a < km_free km + sz \<Longrightarrow> ka_bytes ar a \<noteq> None"
    and base: "base = km_free km + align_up 72 k" and B: "B = align_up (26 + nat (sint mem_size)) k"
  shows "\<exists>ar' kc. kmem_cache_create kp str mem_size tots ar = Some (Some (km_free km), ar') \<and>
    circ_rep (ka_links ar') (km_free km + FREE_OBJS) (rev (map (obj_at base B) [0..<nat (sint tots)])) \<and>
    (\<forall>i < nat (sint tots). fresh_obj (nat (sint mem_size)) ar' (obj_at base B i)) \<and>
    ka_caches ar' (km_free km) = Some kc \<and> kc_mem_size kc = mem_size \<and> kc_free kc = tots \<and> kc_used kc = 0 \<and>
    (\<forall>a < km_free km. ka_bytes ar' a = ka_bytes ar a)"
proof -
  let ?ms = "nat (sint mem_size)" and ?n = "nat (sint tots)" and ?c = "km_free km"
  have "sint (km_size km - km_used_size km) \<le> 2147483647"
    using sint_lt [of "km_size km - km_used_size km"] by simp
  then have small: "sz \<le> 2147483647"
    using fits by linarith
  note z = sizes [OF k pos small [unfolded sz]]
  have n: "unat (scast (cache_size mem_size tots (2 ^ k)) :: size_t) = sz"
    using unat_scast_nonneg [of "cache_size mem_size tots (2 ^ k)"] z(3) sz by simp
  have A: "72 \<le> align_up 72 k" "sz = align_up 72 k + ?n * B"
    using align_up_le [of 72 k] by (simp_all add: sz B block_size_def)
  let ?ar = "ar\<lparr>ka_bytes := (\<lambda>a. if ?c \<le> a \<and> a < ?c + sz then Some 0 else ka_bytes ar a)\<rparr>"
  define ar1 where "ar1 = ?ar\<lparr>ka_caches := (ka_caches ar)(?c \<mapsto> \<lparr>kc_name = copy_name str 0, kc_mem_size = mem_size, kc_tots = tots, kc_used = 0, kc_free = tots\<rparr>),
    ka_links := INIT_LIST_HEAD (?c + FREE_OBJS) (ka_links ar)\<rparr>"
  have real: "sint (ucast (obj_size mem_size (2 ^ k)) :: cint) = int B" if "0 < ?n"
  proof -
    obtain m where "?n = Suc m"
      using \<open>0 < ?n\<close> by (cases ?n) auto
    then have "?n * B = B + m * B"
      by simp
    then have "B \<le> 2147483647"
      using small A(2) by linarith
    moreover have ub: "unat (obj_size mem_size (2 ^ k)) = B"
      using z(2) B by simp
    ultimately show ?thesis
      unfolding ub [symmetric] by (intro sint_ucast_small)
  qed
  have i0: "valid ?ar ?c 72" "ka_bytes ?ar (?c + 39) = Some 0"
    using A by (auto simp: valid_def)
  have init: "init_kmem_cache ?c str mem_size tots (2 ^ k) ?ar = init_objs ?n (?c + FREE_OBJS) mem_size (int B) base ar1"
  proof (cases "0 < ?n")
    case True
    then show ?thesis
      using i0 pos(2) z(1) real base by (simp add: init_kmem_cache_def ar1_def nat_int_add)
  next
    case False
    then have "sint tots = 0"
      using pos(2) by simp
    then show ?thesis
      using i0 by (simp add: init_kmem_cache_def ar1_def)
  qed
  have v1: "ka_bytes ar1 a \<noteq> None" if "base \<le> a" "a < base + ?n * B" for a
    using that A base by (auto simp: ar1_def)
  have c1: "circ_rep (ka_links ar1) (?c + FREE_OBJS) []"
    by (simp add: ar1_def circ_init)
  have h1: "a < base" if "a \<in> set [?c + FREE_OBJS]" for a
    using that A(1) base by simp
  have ms: "sint mem_size = int ?ms" "26 + ?ms \<le> B"
    using pos(1) align_up_le [of "26 + ?ms" k] by (simp_all add: B)
  from init_objs_ok [of base ?n B ar1 mem_size ?ms "?c + FREE_OBJS" "[]", OF v1 ms c1 h1] obtain ar' where
    ar': "init_objs ?n (?c + FREE_OBJS) mem_size (int B) base ar1 = Some ar'"
      "circ_rep (ka_links ar') (?c + FREE_OBJS) (rev (map (obj_at base B) [0..<?n]))" "\<forall>i < ?n. fresh_obj ?ms ar' (obj_at base B i)"
      "ka_caches ar' = ka_caches ar1" "\<forall>a < base. ka_bytes ar' a = ka_bytes ar1 a"
    by auto
  have va: "valid ar ?c sz"
    using v by (auto simp: valid_def)
  have "\<not> sint (km_size km - km_used_size km) \<le> sint (cache_size mem_size tots (2 ^ k))"
    using fits z(3) sz by simp
  then have "\<exists>x. kmem_cache_create kp str mem_size tots ar = Some (Some ?c, ar'\<lparr>ka_kmems := x\<rparr>)"
    using km n va init ar'(1) by (auto simp: kmem_cache_create_def sem_down_now_def Let_def)
  moreover have "ka_bytes ar' a = ka_bytes ar a" if "a < ?c" for a
    using that ar'(5) base A(1) by (simp add: ar1_def)
  ultimately show ?thesis
    using ar'(2-4) by (auto simp: ar1_def fresh_obj_def)
qed

section \<open>Pools of objects\<close>

text \<open>
  What the user of a cache relies on. \<open>inv s fs us\<close> says that in the state \<open>s\<close> the objects \<open>fs\<close> are free, in the
  order they are handed out, and the objects \<open>us\<close> are in use.
\<close>

locale object_pool =
  fixes inv :: "'s \<Rightarrow> 'a list \<Rightarrow> 'a list \<Rightarrow> bool"
    and alloc :: "'s \<Rightarrow> ('a option \<times> 's) option"
    and release :: "'a \<Rightarrow> 's \<Rightarrow> 's option"
  assumes pool_distinct: "inv s fs us \<Longrightarrow> distinct (fs @ us)"
    and alloc_first: "inv s (x # fs) us \<Longrightarrow> \<exists>s'. alloc s = Some (Some x, s') \<and> inv s' fs (x # us)"
    and alloc_empty: "inv s [] us \<Longrightarrow> alloc s = Some (None, s)"
    and release_used: "inv s fs us \<Longrightarrow> x \<in> set us \<Longrightarrow> \<exists>s'. release x s = Some s' \<and> inv s' (x # fs) (remove1 x us)"

text \<open>A user that asks for objects and gives back objects it holds; a request to give back a position it does not hold is skipped.\<close>

datatype request = Get | Give nat

fun pool_run :: "('s \<Rightarrow> ('a option \<times> 's) option) \<Rightarrow> ('a \<Rightarrow> 's \<Rightarrow> 's option) \<Rightarrow> request list \<Rightarrow> 'a list \<Rightarrow> 's \<Rightarrow> ('a list \<times> 's) option" where
  "pool_run al re [] held s = Some (held, s)"
| "pool_run al re (Get # rs) held s = do {
     (x, s) \<leftarrow> al s;
     pool_run al re rs (case x of None \<Rightarrow> held | Some x \<Rightarrow> x # held) s
   }"
| "pool_run al re (Give i # rs) held s =
     (if i < length held then do { s \<leftarrow> re (held ! i) s; pool_run al re rs (remove1 (held ! i) held) s }
      else pool_run al re rs held s)"

context object_pool
begin

lemma alloc_none_iff:
  assumes "inv s fs us"
  shows "(\<exists>s'. alloc s = Some (None, s')) \<longleftrightarrow> fs = []"
  using assms alloc_first [of s "hd fs" "tl fs" us] alloc_empty by (cases fs) auto

text \<open>No sequence of requests fails, and the objects are conserved: each is either free or held, exactly once.\<close>

theorem run_conserves:
  assumes "inv s fs held"
  shows "\<exists>held' s' fs'. pool_run alloc release rs held s = Some (held', s') \<and> inv s' fs' held' \<and>
    distinct (fs' @ held') \<and> mset (fs' @ held') = mset (fs @ held)"
  using assms
proof (induction rs arbitrary: s fs held)
  case Nil
  then show ?case
    using pool_distinct [of s fs held] by auto
next
  case (Cons r rs)
  show ?case
  proof (cases r)
    case Get
    show ?thesis
    proof (cases fs)
      case Nil
      then show ?thesis
        using Get Cons.IH [OF Cons.prems] alloc_empty Cons.prems by simp
    next
      case (Cons x xs)
      obtain s1 where "alloc s = Some (Some x, s1)" "inv s1 xs (x # held)"
        using alloc_first Cons.prems Cons by blast
      then show ?thesis
        using Cons.IH [of s1 xs "x # held"] Get Cons by auto
    qed
  next
    case (Give i)
    show ?thesis
    proof (cases "i < length held")
      case True
      then obtain s1 where "release (held ! i) s = Some s1" "inv s1 (held ! i # fs) (remove1 (held ! i) held)"
        using release_used [OF Cons.prems, of "held ! i"] by auto
      then show ?thesis
        using Cons.IH [of s1 "held ! i # fs" "remove1 (held ! i) held"] Give True by auto
    qed (use Cons Give in simp)
  qed
qed

end

text \<open>The buffers of a cache: the free ones are linked from the descriptor, and every buffer lies behind its object.\<close>

definition cache_inv :: "addr \<Rightarrow> karea \<Rightarrow> addr list \<Rightarrow> addr list \<Rightarrow> bool" where
  "cache_inv c ar fs us \<longleftrightarrow> circ_rep (ka_links ar) (c + FREE_OBJS) (map (\<lambda>b. b - 25) fs) \<and> distinct (fs @ us) \<and>
     (\<forall>b \<in> set (fs @ us). 25 \<le> b \<and> b - 25 \<noteq> c + FREE_OBJS \<and> ka_buf ar (b - 25) = Some b \<and> ka_links ar (b - 25) \<noteq> None) \<and>
     (\<exists>kc. ka_caches ar c = Some kc \<and> kc_free kc = word_of_nat (length fs) \<and> kc_used kc = word_of_nat (length us)) \<and>
     length (fs @ us) < 2 ^ 31"

lemma cache_inv_alloc:
  assumes "cache_inv c ar (x # fs) us"
  shows "\<exists>ar'. kmem_cache_alloc c ar = Some (Some x, ar') \<and> cache_inv c ar' fs (x # us)"
proof -
  let ?o = "\<lambda>b. b - 25 :: addr"
  obtain kc where kc: "ka_caches ar c = Some kc" "kc_free kc = word_of_nat (Suc (length fs))" "kc_used kc = word_of_nat (length us)"
    using assms by (auto simp: cache_inv_def)
  have rep: "circ_rep (ka_links ar) (c + FREE_OBJS) (?o x # map ?o fs)" and b: "ka_buf ar (?o x) = Some x" and len: "Suc (length fs) < 2 ^ 31"
    using assms by (auto simp: cache_inv_def)
  obtain n where n: "ka_links ar (c + FREE_OBJS) = Some n" "lh_next n = ?o x"
    using circ_first [OF rep] by auto
  obtain L where L: "list_del_init (?o x) (ka_links ar) = Some L" "circ_rep L (c + FREE_OBJS) (map ?o fs)"
    "\<forall>a. (L a = None) = (ka_links ar a = None)"
    using list_del_rep [OF rep] by blast
  have "\<not> 2 ^ 32 dvd Suc (length fs)"
    using len by (auto dest: dvd_imp_le)
  then have "(word_of_nat (Suc (length fs)) :: cint) \<noteq> 0"
    by (subst word_of_nat_eq_0_iff) simp
  then show ?thesis
    using assms kc b n L by (auto simp: kmem_cache_alloc_def cache_inv_def simp del: not_None_eq)
qed

lemma cache_inv_release:
  assumes inv: "cache_inv c ar fs us" and x: "x \<in> set us"
  shows "\<exists>ar'. kmem_cache_free c x ar = Some ar' \<and> cache_inv c ar' (x # fs) (remove1 x us)"
proof -
  let ?o = "\<lambda>b. b - 25 :: addr"
  obtain kc where kc: "ka_caches ar c = Some kc" "kc_free kc = word_of_nat (length fs)" "kc_used kc = word_of_nat (length us)"
    using inv by (auto simp: cache_inv_def)
  have big: "25 \<le> b" if "b \<in> set (fs @ us)" for b
    using inv that by (auto simp: cache_inv_def)
  have d: "distinct (fs @ us)" and rep: "circ_rep (ka_links ar) (c + FREE_OBJS) (map ?o fs)" and live: "ka_links ar (?o x) \<noteq> None"
    and h: "?o x \<noteq> c + FREE_OBJS"
    using inv x by (auto simp: cache_inv_def)
  have "?o x \<noteq> ?o b" if "b \<in> set fs" for b
    using big [of x] big [of b] that x d by (auto simp: eq_diff_iff)
  then have "?o x \<notin> set ((c + FREE_OBJS) # map ?o fs)"
    using h by auto
  then obtain L where L: "list_add (?o x) (c + FREE_OBJS) (ka_links ar) = Some L" "circ_rep L (c + FREE_OBJS) (?o x # map ?o fs)"
    "\<forall>a. (L a = None) = (ka_links ar a = None)"
    using list_add_rep [OF rep live] by blast
  have len: "length us = Suc (length (remove1 x us))"
    using x by (cases us) (simp_all add: length_remove1, use length_pos_if_in_set in fastforce)
  have "set (remove1 x us) = set us - {x}"
    using d by simp
  then show ?thesis
    using inv x kc L len by (auto simp: kmem_cache_free_def cache_inv_def simp del: not_None_eq)
qed

lemma cache_inv_empty: "cache_inv c ar [] us \<Longrightarrow> kmem_cache_alloc c ar = Some (None, ar)"
  by (auto simp: kmem_cache_alloc_def cache_inv_def)

interpretation kmem: object_pool "cache_inv c" "kmem_cache_alloc c" "kmem_cache_free c" for c
  by unfold_locales (auto simp: cache_inv_alloc cache_inv_release cache_inv_empty, auto simp: cache_inv_def)

section \<open>What the caches guarantee\<close>

text \<open>The buffers of the cache that \<open>kmem_cache_create\<close> puts at \<open>c\<close>, in the order they are handed out.\<close>

definition buffers :: "addr \<Rightarrow> nat \<Rightarrow> nat \<Rightarrow> nat \<Rightarrow> addr list" where
  "buffers c ms n k = rev (map (\<lambda>i. obj_at (c + align_up 72 k) (align_up (26 + ms) k) i + 25) [0..<n])"

lemma buffer_bounds:
  assumes "b \<in> set (buffers c ms n k)"
  shows "c + 72 + 25 \<le> b" "b + ms < c + block_size ms n k"
proof -
  from assms obtain i where i: "i < n" "b = obj_at (c + align_up 72 k) (align_up (26 + ms) k) i + 25"
    by (auto simp: buffers_def)
  then show "c + 72 + 25 \<le> b" "b + ms < c + block_size ms n k"
    using align_up_le [of 72 k] align_up_le [of "26 + ms" k] obj_at_end [OF i(1), of "c + align_up 72 k" "align_up (26 + ms) k"]
    by (simp_all add: obj_at_def block_size_def)
qed

text \<open>The buffers keep a distance of more than the guard byte and the next object.\<close>

lemma buffers_apart:
  assumes "b \<in> set (buffers c ms n k)" "b' \<in> set (buffers c ms n k)" "b < b'"
  shows "b + ms + 26 \<le> b'"
proof -
  let ?o = "obj_at (c + align_up 72 k) (align_up (26 + ms) k)"
  from assms obtain i j where ij: "b = ?o i + 25" "b' = ?o j + 25"
    by (auto simp: buffers_def)
  then have "i < j"
    using assms(3) obj_at_disjoint [of j i "c + align_up 72 k" "align_up (26 + ms) k"] by (cases i j rule: linorder_cases) auto
  then show ?thesis
    using obj_at_disjoint [of i j "c + align_up 72 k" "align_up (26 + ms) k"] align_up_le [of "26 + ms" k] ij by simp
qed

lemma buffers_distinct: "distinct (buffers c ms n k)"
proof -
  have "obj_at (c + align_up 72 k) (align_up (26 + ms) k) i \<noteq> obj_at (c + align_up 72 k) (align_up (26 + ms) k) j" if "i \<noteq> j" for i j
    using that align_up_le [of "26 + ms" k] by (auto simp: obj_at_def)
  then show ?thesis
    by (auto simp: buffers_def distinct_map inj_on_def)
qed

lemma create_inv:
  assumes km: "ka_kmems ar kp = Some km" "km_align km = 2 ^ k" "km_lock km \<noteq> 0" and k: "k < 31"
    and pos: "0 \<le> sint mem_size" "0 \<le> sint tots" and sz: "sz = block_size (nat (sint mem_size)) (nat (sint tots)) k"
    and fits: "int sz < sint (km_size km - km_used_size km)" and v: "\<And>a. km_free km \<le> a \<Longrightarrow> a < km_free km + sz \<Longrightarrow> ka_bytes ar a \<noteq> None"
  shows "\<exists>ar'. kmem_cache_create kp str mem_size tots ar = Some (Some (km_free km), ar') \<and>
    cache_inv (km_free km) ar' (buffers (km_free km) (nat (sint mem_size)) (nat (sint tots)) k) [] \<and>
    (\<forall>b \<in> set (buffers (km_free km) (nat (sint mem_size)) (nat (sint tots)) k). kmem_cache_checkoverflow (km_free km) b ar' = Some 0) \<and>
    (\<forall>a < km_free km. ka_bytes ar' a = ka_bytes ar a)"
proof -
  let ?ms = "nat (sint mem_size)" and ?n = "nat (sint tots)" and ?c = "km_free km"
  let ?base = "?c + align_up 72 k" and ?B = "align_up (26 + ?ms) k"
  obtain ar' kc where
    1: "kmem_cache_create kp str mem_size tots ar = Some (Some ?c, ar')"
      "circ_rep (ka_links ar') (?c + FREE_OBJS) (rev (map (obj_at ?base ?B) [0..<?n]))"
      "\<And>i. i < ?n \<Longrightarrow> fresh_obj ?ms ar' (obj_at ?base ?B i)"
      "ka_caches ar' ?c = Some kc" "kc_mem_size kc = mem_size" "kc_free kc = tots" "kc_used kc = 0" "\<forall>a < ?c. ka_bytes ar' a = ka_bytes ar a"
    using create_ok [OF km k pos sz fits v refl refl] by metis
  have objs: "map (\<lambda>b. b - 25) (buffers ?c ?ms ?n k) = rev (map (obj_at ?base ?B) [0..<?n])"
    by (simp add: buffers_def rev_map)
  have f: "fresh_obj ?ms ar' (b - 25)" "ka_links ar' (b - 25) \<noteq> None" "b - 25 \<noteq> ?c + FREE_OBJS" if "b \<in> set (buffers ?c ?ms ?n k)" for b
  proof -
    show "fresh_obj ?ms ar' (b - 25)"
      using that 1(3) by (auto simp: buffers_def)
    have "b - 25 \<in> set (rev (map (obj_at ?base ?B) [0..<?n]))"
      unfolding objs [symmetric] using that by auto
    then show "ka_links ar' (b - 25) \<noteq> None" "b - 25 \<noteq> ?c + FREE_OBJS"
      using circ_live [OF 1(2)] 1(2) by (auto simp: circ_rep_def)
  qed
  have b: "25 \<le> b" if "b \<in> set (buffers ?c ?ms ?n k)" for b
    using buffer_bounds(1) [OF that] by simp
  have n: "?n < 2 ^ 31" "tots = word_of_nat ?n" "length (buffers ?c ?ms ?n k) = ?n"
    using sint_lt [of tots] pos(2) by (simp_all add: buffers_def)
  have "cache_inv ?c ar' (buffers ?c ?ms ?n k) []"
    using 1(2,4,6,7) f b n buffers_distinct by (auto simp: cache_inv_def objs fresh_obj_def)
  moreover have "kmem_cache_checkoverflow ?c x ar' = Some 0" if "x \<in> set (buffers ?c ?ms ?n k)" for x
  proof -
    have i: "x - 25 + 24 = x - 1" "x - 25 + 25 + ?ms = nat (int x + sint mem_size)" "x \<noteq> 0"
      using b [OF that] pos(1) by auto
    show ?thesis
      using f(1) [OF that] 1(4,5) i(3) by (simp add: kmem_cache_checkoverflow_def check_overflow_def fresh_obj_def i(1,2))
  qed
  ultimately show ?thesis
    using 1(1,8) by blast
qed

lemma align_up_least: "(LEAST n. 2 ^ k dvd n \<and> m \<le> n) = align_up m k"
proof (rule Least_equality)
  show "2 ^ k dvd align_up m k \<and> m \<le> align_up m k"
    by (simp add: align_up_dvd align_up_le)
next
  fix n :: nat
  assume n: "2 ^ k dvd n \<and> m \<le> n"
  then obtain q where q: "n = 2 ^ k * q"
    by blast
  obtain q' where q': "align_up m k = 2 ^ k * q'"
    using align_up_dvd [of k m] by blast
  have "2 ^ k * q' < 2 ^ k * (q + 1)"
    using align_up_less [of m k] n unfolding q q' by (simp add: distrib_left)
  then have "q' < q + 1"
    by (simp only: nat_mult_less_cancel1 zero_less_power)
  then show "align_up m k \<le> n"
    by (simp add: q q')
qed

lemma init_obj_unmapped:
  assumes "init_obj o1 ms ar = Some ar'"
  shows "(ka_bytes ar' a = None) = (ka_bytes ar a = None)" "ka_bytes ar o1 \<noteq> None"
proof -
  have v: "valid ar o1 24"
    using assms by (auto simp: init_obj_def split: if_splits)
  then have "ka_bytes ar (o1 + 0) \<noteq> None"
    unfolding valid_def by (rule bspec) simp
  then show "ka_bytes ar o1 \<noteq> None"
    by simp
  show "(ka_bytes ar' a = None) = (ka_bytes ar a = None)"
    using assms v by (auto simp: init_obj_def put_def Let_def split: if_splits Option.bind_splits)
qed

lemma init_objs_unmapped:
  assumes "i < n" "ka_bytes ar (obj_at base B i) = None"
  shows "init_objs n h ms (int B) base ar = None"
  using assms
proof (induction n arbitrary: base ar i)
  case (Suc n)
  have *: "init_objs n h ms (int B) (base + B) (ar'\<lparr>ka_links := L\<rparr>) = None" if "init_obj base ms ar = Some ar'" for ar' L
  proof (cases i)
    case 0
    then show ?thesis
      using Suc.prems(2) init_obj_unmapped(2) [OF that] by simp
  next
    case (Suc j)
    then show ?thesis
      using Suc.prems init_obj_unmapped(1) [OF that, of "obj_at base B i"] Suc.IH [of j "ar'\<lparr>ka_links := L\<rparr>" "base + B"]
      by (simp add: obj_at_shift)
  qed
  show ?case
    using * by (auto simp: bind_eq_None_conv nat_int_add split: Option.bind_splits)
qed simp

text \<open>C20: For an alignment that is a power of two the macro \<open>set_align\<close> of \<open>list.h\<close>, a masked addition in machine
  arithmetic, computes the least multiple of the alignment that is not below the size, as long as the addition does
  not wrap around.\<close>

theorem set_align_least:
  assumes "k < 31" "unat sz + 2 ^ k \<le> 2 ^ 64"
  shows "unat (set_align sz (2 ^ k)) = (LEAST n. 2 ^ k dvd n \<and> unat sz \<le> n)"
  unfolding align_up_least using unat_set_align [OF assms] by (simp add: align_up_def)

theorem set_align_least_witness: "unat (set_align 26 (2 ^ 3)) = 32"
proof -
  have "unat (set_align 26 (2 ^ 3)) = (LEAST n. 2 ^ 3 dvd n \<and> unat (26 :: size_t) \<le> n)"
    by (rule set_align_least) simp_all
  also have "\<dots> = align_up (unat (26 :: size_t)) 3"
    by (rule align_up_least)
  finally show ?thesis
    by (simp add: align_up_def)
qed


text \<open>A piece of memory of 1024 bytes for the witnesses.\<close>

definition demo_kmem :: kmem where
  "demo_kmem = \<lparr>km_tots = 0, km_size = 1024, km_used_size = 32, km_free = 1056, km_align = 8, km_lock = 1\<rparr>"

definition demo_area :: karea where
  "demo_area = \<lparr>ka_bytes = (\<lambda>a. if 1024 \<le> a \<and> a < 2048 then Some 0 else None), ka_links = Map.empty, ka_buf = Map.empty,
     ka_caches = Map.empty, ka_kmems = [1024 \<mapsto> demo_kmem]\<rparr>"

lemma demo_init: "init_kmem 1024 1024 8 (demo_area\<lparr>ka_kmems := Map.empty\<rparr>) = Some (Some 1024, demo_area)"
proof -
  have "set_align SIZEOF_KMEM 8 = 32"
    by (simp add: set_align_def)
  moreover have "valid (demo_area\<lparr>ka_kmems := Map.empty\<rparr>) 1024 32"
    by (simp add: valid_def demo_area_def)
  ultimately show ?thesis
    by (simp add: init_kmem_def demo_area_def demo_kmem_def)
qed

lemma demo_facts:
  "ka_kmems demo_area 1024 = Some demo_kmem" "km_align demo_kmem = 2 ^ 3" "km_lock demo_kmem \<noteq> 0" "km_free demo_kmem = 1056"
  "int (block_size (nat (sint (6 :: cint))) (nat (sint (2 :: cint))) 3) < sint (km_size demo_kmem - km_used_size demo_kmem)"
  "km_free demo_kmem \<le> a \<Longrightarrow> a < km_free demo_kmem + block_size (nat (sint (6 :: cint))) (nat (sint (2 :: cint))) 3 \<Longrightarrow> ka_bytes demo_area a \<noteq> None"
  "buffers 1056 (nat (sint (6 :: cint))) (nat (sint (2 :: cint))) 3 = [1185, 1153]"
  by (auto simp: demo_area_def demo_kmem_def block_size_def align_up_def buffers_def obj_at_def upt_conv_Cons)


text \<open>C12: The objects of a cache are conserved. After \<open>kmem_cache_create\<close> no sequence of \<open>kmem_cache_alloc\<close> and
  \<open>kmem_cache_free\<close> by a user that gives back only what it holds goes wrong; the buffers the user holds
  are always pairwise different buffers of the cache, the others are free, the two
  counters tell how many there are of each, and \<open>kmem_cache_alloc\<close> returns NULL exactly when the user holds all of them.\<close>

theorem kmem_cache_conserves:
  assumes "ka_kmems ar kp = Some km" "km_align km = 2 ^ k" "km_lock km \<noteq> 0" "k < 31" "0 \<le> sint mem_size" "0 \<le> sint tots"
    and "int (block_size (nat (sint mem_size)) (nat (sint tots)) k) < sint (km_size km - km_used_size km)"
    and "\<And>a. km_free km \<le> a \<Longrightarrow> a < km_free km + block_size (nat (sint mem_size)) (nat (sint tots)) k \<Longrightarrow> ka_bytes ar a \<noteq> None"
    and "c = km_free km"
  shows "\<exists>ar'. kmem_cache_create kp str mem_size tots ar = Some (Some c, ar') \<and>
    (\<forall>rs. \<exists>held ar'' fs. pool_run (kmem_cache_alloc c) (kmem_cache_free c) rs [] ar' = Some (held, ar'') \<and>
       distinct (fs @ held) \<and> mset (fs @ held) = mset (buffers c (nat (sint mem_size)) (nat (sint tots)) k) \<and>
       map_option kc_used (ka_caches ar'' c) = Some (word_of_nat (length held)) \<and>
       map_option kc_free (ka_caches ar'' c) = Some (word_of_nat (length fs)) \<and>
       ((\<exists>s. kmem_cache_alloc c ar'' = Some (None, s)) \<longleftrightarrow> length held = nat (sint tots)))"
proof -
  let ?bs = "buffers c (nat (sint mem_size)) (nat (sint tots)) k"
  obtain ar' where 1: "kmem_cache_create kp str mem_size tots ar = Some (Some c, ar')" "cache_inv c ar' ?bs []"
    using create_inv [OF assms(1-6) refl assms(7,8)] assms(9) by blast
  have "\<exists>held ar'' fs. pool_run (kmem_cache_alloc c) (kmem_cache_free c) rs [] ar' = Some (held, ar'') \<and>
       distinct (fs @ held) \<and> mset (fs @ held) = mset ?bs \<and>
       map_option kc_used (ka_caches ar'' c) = Some (word_of_nat (length held)) \<and>
       map_option kc_free (ka_caches ar'' c) = Some (word_of_nat (length fs)) \<and>
       ((\<exists>s. kmem_cache_alloc c ar'' = Some (None, s)) \<longleftrightarrow> length held = nat (sint tots))" for rs
  proof -
    obtain held ar'' fs where 2: "pool_run (kmem_cache_alloc c) (kmem_cache_free c) rs [] ar' = Some (held, ar'')"
        "cache_inv c ar'' fs held" "distinct (fs @ held)" "mset (fs @ held) = mset ?bs"
      using kmem.run_conserves [OF 1(2), of rs] by auto
    have "length fs + length held = nat (sint tots)"
      using mset_eq_length [OF 2(4)] by (simp add: buffers_def)
    then have "(\<exists>s. kmem_cache_alloc c ar'' = Some (None, s)) \<longleftrightarrow> length held = nat (sint tots)"
      using kmem.alloc_none_iff [OF 2(2)] by auto
    then show ?thesis
      using 2 by (intro exI [of _ held] exI [of _ ar''] exI [of _ fs]) (auto simp: cache_inv_def)
  qed
  then show ?thesis
    using 1(1) by blast
qed

theorem kmem_cache_conserves_witness:
  "\<exists>ar' held ar''. kmem_cache_create 1024 [97] 6 2 demo_area = Some (Some 1056, ar') \<and>
     pool_run (kmem_cache_alloc 1056) (kmem_cache_free 1056) [Get, Get, Give 1, Get, Give 5] [] ar' = Some (held, ar'') \<and> distinct held"
proof -
  obtain ar' where 1: "kmem_cache_create 1024 [97] 6 2 demo_area = Some (Some 1056, ar')"
    "\<forall>rs. \<exists>held ar''. pool_run (kmem_cache_alloc 1056) (kmem_cache_free 1056) rs [] ar' = Some (held, ar'') \<and> distinct held"
    using kmem_cache_conserves [OF demo_facts(1-3) _ _ _ demo_facts(5,6) refl, of "[97]"] unfolding demo_facts(4) by fastforce
  from 1(2) [rule_format, of "[Get, Get, Give 1, Get, Give 5]"] 1(1) show ?thesis
    by blast
qed

text \<open>The size check of \<open>kmem_cache_create\<close> can be passed by a request that does not fit: the size is computed
  modulo \<open>2 ^ 64\<close> and cut to an \<open>int\<close>, so \<open>2 ^ 27\<close> objects of 6 bytes, which need 4 gigabytes, count as 72 bytes. If
  the memory ends anywhere in those 4 gigabytes at the place of an object, the call writes outside of it.\<close>

theorem kmem_cache_create_wraps:
  assumes "ka_kmems ar kp = Some km" "km_align km = 8" "km_lock km \<noteq> 0" "72 < sint (km_size km - km_used_size km)"
    and "i < 2 ^ 27" "ka_bytes ar (km_free km + 72 + i * 32) = None"
  shows "kmem_cache_create kp str 6 134217728 ar = None"
proof -
  let ?c = "km_free km"
  have s: "cache_size 6 134217728 8 = 72" "set_align SIZEOF_CACHE 8 = 72" "obj_size 6 8 = 32"
    by (simp_all add: cache_size_def obj_size_def set_align_def)
  have "init_kmem_cache ?c str 6 134217728 8 a = None" if "ka_bytes a (?c + 72 + i * 32) = None" for a
  proof -
    have "init_objs (2 ^ 27) h 6 (int 32) (?c + 72) b = None" if "ka_bytes b (?c + 72 + i * 32) = None" for h b
      using init_objs_unmapped [of i "2 ^ 27" b "?c + 72" 32] that assms(5) by (simp add: obj_at_def)
    then show ?thesis
      using that s by (simp add: init_kmem_cache_def Let_def bind_eq_None_conv nat_add_distrib)
  qed
  then show ?thesis
    using assms(1-4,6) s(1) by (simp add: kmem_cache_create_def sem_down_now_def Let_def bind_eq_None_conv)
qed

theorem kmem_cache_create_wraps_witness: "kmem_cache_create 1024 [97] 6 134217728 demo_area = None"
  by (rule kmem_cache_create_wraps [of _ _ demo_kmem 100]) (simp_all add: demo_area_def demo_kmem_def)

end
