(* ===== verification/Rwlock.thy ===== *)
theory Rwlock
  imports Prelude
begin

text \<open>
  The readers-writer lock of \<open>misaka/include/rwlock.h\<close>, built from the \<open>__sync\<close> operations of the compiler (the variant without
  \<open>USE_PTHREAD_LOCK\<close>).

  Each access to a shared field is one step. A thread is a position in the code of one of the four calls; \<open>lock_turn\<close> executes the
  next access of a thread, and the threads interleave freely. A thread that spins takes steps that leave it where it is.
\<close>

record rwlock =
  rw_write :: cint
  rw_read :: cint

definition rwlock_init :: rwlock where
  "rwlock_init = \<lparr>rw_write = 0, rw_read = 0\<rparr>"

text \<open>The positions of a thread: outside, in the loop of \<open>rwlock_rlock\<close> (before the test, the increment, the second
  test and the decrement), reading, in the two loops of \<open>rwlock_wlock\<close>, and writing.\<close>

datatype lock_pc = Outside | RSpin | RCount | RCheck | RBack | Reading | WSet | WSpin | Writing

text \<open>The next access of each call, with the position behind it.\<close>

fun rwlock_rlock :: "lock_pc \<Rightarrow> rwlock \<Rightarrow> lock_pc \<times> rwlock" where
  "rwlock_rlock RSpin l = (if rw_write l \<noteq> 0 then RSpin else RCount, l)"
| "rwlock_rlock RCount l = (RCheck, l\<lparr>rw_read := rw_read l + 1\<rparr>)"
| "rwlock_rlock RCheck l = (if rw_write l \<noteq> 0 then RBack else Reading, l)"
| "rwlock_rlock RBack l = (RSpin, l\<lparr>rw_read := rw_read l - 1\<rparr>)"
| "rwlock_rlock pc l = (pc, l)"

fun rwlock_wlock :: "lock_pc \<Rightarrow> rwlock \<Rightarrow> lock_pc \<times> rwlock" where
  "rwlock_wlock WSet l = (if rw_write l \<noteq> 0 then WSet else WSpin, l\<lparr>rw_write := 1\<rparr>)"
| "rwlock_wlock WSpin l = (if rw_read l \<noteq> 0 then WSpin else Writing, l)"
| "rwlock_wlock pc l = (pc, l)"

definition rwlock_wunlock :: "rwlock \<Rightarrow> rwlock" where
  "rwlock_wunlock l = l\<lparr>rw_write := 0\<rparr>"

definition rwlock_runlock :: "rwlock \<Rightarrow> rwlock" where
  "rwlock_runlock l = l\<lparr>rw_read := rw_read l - 1\<rparr>"

text \<open>One step of a thread: the next access of the call it is in, or, holding the lock, its release.\<close>

fun lock_turn :: "lock_pc \<Rightarrow> rwlock \<Rightarrow> lock_pc \<times> rwlock" where
  "lock_turn Outside l = (Outside, l)"
| "lock_turn Reading l = (Outside, rwlock_runlock l)"
| "lock_turn Writing l = (Outside, rwlock_wunlock l)"
| "lock_turn WSet l = rwlock_wlock WSet l"
| "lock_turn WSpin l = rwlock_wlock WSpin l"
| "lock_turn pc l = rwlock_rlock pc l"

text \<open>The threads and the lock. A thread that is outside may call either lock function.\<close>

type_synonym lock_state = "lock_pc list \<times> rwlock"

inductive lock_step :: "lock_state \<Rightarrow> lock_state \<Rightarrow> bool" where
  call_read: "t < length ts \<Longrightarrow> ts ! t = Outside \<Longrightarrow> lock_step (ts, l) (ts[t := RSpin], l)"
| call_write: "t < length ts \<Longrightarrow> ts ! t = Outside \<Longrightarrow> lock_step (ts, l) (ts[t := WSet], l)"
| turn: "t < length ts \<Longrightarrow> lock_turn (ts ! t) l = (pc, l') \<Longrightarrow> lock_step (ts, l) (ts[t := pc], l')"

inductive lock_reach :: "nat \<Rightarrow> lock_state \<Rightarrow> bool" for n where
  start: "lock_reach n (replicate n Outside, rwlock_init)"
| step: "lock_reach n s \<Longrightarrow> lock_step s s' \<Longrightarrow> lock_reach n s'"

section \<open>The invariant\<close>

text \<open>\<open>read\<close> counts the threads between the increment and a decrement, \<open>write\<close> those that got past the exchange.\<close>

fun counted :: "lock_pc \<Rightarrow> bool" where
  "counted RCheck = True" | "counted RBack = True" | "counted Reading = True" | "counted _ = False"

fun owner :: "lock_pc \<Rightarrow> bool" where
  "owner WSpin = True" | "owner Writing = True" | "owner _ = False"

definition tally :: "('a \<Rightarrow> bool) \<Rightarrow> 'a list \<Rightarrow> nat" where
  "tally P xs = length (filter P xs)"

lemma tally_update:
  assumes "t < length xs"
  shows "tally P (xs[t := y]) + (if P (xs ! t) then 1 else 0) = tally P xs + (if P y then 1 else 0)"
  using assms
proof (induction xs arbitrary: t)
  case (Cons x xs)
  then show ?case
    by (cases t) (auto simp: tally_def)
qed simp

lemma tally_nth: "t < length xs \<Longrightarrow> P (xs ! t) \<Longrightarrow> 0 < tally P xs"
  by (auto simp: tally_def filter_empty_conv)

lemma tally_two:
  assumes "i < length xs" "j < length xs" "i \<noteq> j" "P (xs ! i)" "P (xs ! j)"
  shows "2 \<le> tally P xs"
proof -
  have "card {i, j} \<le> card {k. k < length xs \<and> P (xs ! k)}"
    using assms by (intro card_mono) auto
  then show ?thesis
    using assms(3) by (simp add: tally_def length_filter_conv_card)
qed

definition lock_inv :: "lock_state \<Rightarrow> bool" where
  "lock_inv s \<longleftrightarrow> length (fst s) < 2 ^ 31 \<and> rw_read (snd s) = word_of_nat (tally counted (fst s)) \<and>
     rw_write (snd s) = word_of_nat (tally owner (fst s)) \<and> tally owner (fst s) \<le> 1 \<and>
     (Writing \<in> set (fst s) \<longrightarrow> Reading \<notin> set (fst s))"

lemma word_of_small: "n < 2 ^ 31 \<Longrightarrow> ((word_of_nat n :: cint) = 0) = (n = 0)"
  by (subst word_of_nat_eq_0_iff) (auto dest: dvd_imp_le)

text \<open>What the two fields tell a thread that tests them.\<close>

lemma inv_free:
  assumes "lock_inv (ts, l)"
  shows "rw_write l = 0 \<longleftrightarrow> tally owner ts = 0" "rw_read l = 0 \<longleftrightarrow> tally counted ts = 0"
proof -
  have "tally P ts < 2 ^ 31" for P
    unfolding tally_def using assms by (intro order_le_less_trans [OF length_filter_le]) (simp add: lock_inv_def)
  then show "rw_write l = 0 \<longleftrightarrow> tally owner ts = 0" "rw_read l = 0 \<longleftrightarrow> tally counted ts = 0"
    using assms word_of_small by (simp_all add: lock_inv_def)
qed

lemma tally_0: "tally P ts = 0 \<Longrightarrow> x \<in> set ts \<Longrightarrow> \<not> P x"
  by (auto simp: tally_def filter_empty_conv)

text \<open>A step that changes the position of thread \<open>t\<close> keeps the invariant when it adjusts the two fields to its new
  position, becomes owner only if there is none, and does not enter against the other side.\<close>

lemma inv_move:
  assumes inv: "lock_inv (ts, l)" and t: "t < length ts"
    and r: "rw_read l' + (if counted (ts ! t) then 1 else 0) = rw_read l + (if counted pc then 1 else 0)"
    and w: "rw_write l' + (if owner (ts ! t) then 1 else 0) = rw_write l + (if owner pc then 1 else 0)"
    and o1: "owner pc \<Longrightarrow> owner (ts ! t) \<or> tally owner ts = 0"
    and x: "pc = Reading \<Longrightarrow> Writing \<notin> set ts" "pc = Writing \<Longrightarrow> Reading \<notin> set ts"
  shows "lock_inv (ts[t := pc], l')"
proof -
  have u: "(word_of_nat (tally P (ts[t := pc])) :: cint) + (if P (ts ! t) then 1 else 0) = word_of_nat (tally P ts) + (if P pc then 1 else 0)" for P
    using arg_cong [OF tally_update [OF t, of P pc], of "word_of_nat :: nat \<Rightarrow> cint"] by (simp split: if_splits)
  have "rw_read l' = word_of_nat (tally counted (ts[t := pc]))" "rw_write l' = word_of_nat (tally owner (ts[t := pc]))"
    using inv by (simp_all only: lock_inv_def fst_conv snd_conv, metis r u add_right_cancel, metis w u add_right_cancel)
  moreover have "tally owner (ts[t := pc]) \<le> 1"
    using inv o1 tally_update [OF t, of owner pc] by (auto simp: lock_inv_def split: if_splits)
  moreover have "Writing \<in> set (ts[t := pc]) \<longrightarrow> Reading \<notin> set (ts[t := pc])"
    using inv x set_update_subset_insert [of ts t pc] by (auto simp: lock_inv_def)
  ultimately show ?thesis
    using inv by (simp add: lock_inv_def)
qed

lemma inv_turn:
  assumes inv: "lock_inv (ts, l)" and t: "t < length ts" and turn: "lock_turn (ts ! t) l = (pc, l')"
  shows "lock_inv (ts[t := pc], l')"
proof (rule inv_move [OF inv t])
  have mem: "ts ! t \<in> set ts"
    using t by simp
  note free = inv_free [OF inv]
  have one: "rw_write l = 1" if "rw_write l \<noteq> 0"
    using inv free(1) that by (cases "tally owner ts") (auto simp: lock_inv_def)
  show "rw_read l' + (if counted (ts ! t) then 1 else 0) = rw_read l + (if counted pc then 1 else 0)"
    using turn by (cases "ts ! t") (auto simp: rwlock_runlock_def rwlock_wunlock_def split: if_splits)
  show "rw_write l' + (if owner (ts ! t) then 1 else 0) = rw_write l + (if owner pc then 1 else 0)"
    using turn one tally_nth [OF t, of owner] free(1)
    by (cases "ts ! t") (auto simp: rwlock_runlock_def rwlock_wunlock_def split: if_splits)
  show "owner (ts ! t) \<or> tally owner ts = 0" if "owner pc"
    using that turn free(1) by (cases "ts ! t") (auto split: if_splits)
  show "Writing \<notin> set ts" if "pc = Reading"
    using that turn free(1) tally_0 [of owner ts Writing] by (cases "ts ! t") (auto split: if_splits)
  show "Reading \<notin> set ts" if "pc = Writing"
    using that turn free(2) tally_0 [of counted ts Reading] by (cases "ts ! t") (auto split: if_splits)
qed

lemma inv_step: "lock_step s s' \<Longrightarrow> lock_inv s \<Longrightarrow> lock_inv s'"
proof (induction rule: lock_step.induct)
  case (call_read t ts l)
  then show ?case
    by (intro inv_move [of ts l t]) auto
next
  case (call_write t ts l)
  then show ?case
    by (intro inv_move [of ts l t]) auto
qed (rule inv_turn)

lemma inv_reach:
  assumes "lock_reach n s" "n < 2 ^ 31"
  shows "lock_inv s \<and> length (fst s) = n"
  using assms(1)
proof induction
  case start
  then show ?case
    using assms(2) by (simp add: lock_inv_def rwlock_init_def tally_def)
next
  case (step s s')
  then show ?case
    using inv_step [of s s'] by (auto elim: lock_step.cases)
qed

section \<open>What the lock guarantees\<close>

lemma one_writer:
  assumes inv: "lock_inv (ts, l)" and i: "i < length ts" "ts ! i = Writing" and j: "j < length ts" "ts ! j = Writing \<or> ts ! j = Reading"
  shows "j = i"
proof (rule ccontr)
  assume "j \<noteq> i"
  have "Writing \<in> set ts"
    using i nth_mem [of i ts] by simp
  then have "Reading \<notin> set ts"
    using inv by (simp add: lock_inv_def)
  then have "ts ! j \<noteq> Reading"
    using j(1) nth_mem [of j ts] by metis
  then have "2 \<le> tally owner ts"
    using \<open>j \<noteq> i\<close> i j by (intro tally_two [of j ts i]) auto
  then show False
    using inv by (simp add: lock_inv_def)
qed

text \<open>C10: The readers-writer lock excludes. In every state that any interleaving of the accesses of up to \<open>2 ^ 31 - 1\<close> threads
  reaches, a thread that writes is the only one that writes or reads, and when all threads are
  outside, the lock is as it was initialised.\<close>

theorem rwlock_exclusive:
  assumes "lock_reach n (ts, l)" "n < 2 ^ 31"
  shows "(\<forall>i < n. \<forall>j < n. ts ! i = Writing \<longrightarrow> ts ! j = Writing \<or> ts ! j = Reading \<longrightarrow> j = i) \<and>
    (set ts \<subseteq> {Outside} \<longrightarrow> l = rwlock_init)"
proof -
  have inv: "lock_inv (ts, l)" "length ts = n"
    using inv_reach [OF assms] by simp_all
  have "l = rwlock_init" if "set ts \<subseteq> {Outside}"
  proof -
    have "tally owner ts = 0" "tally counted ts = 0"
      using that by (auto simp: tally_def filter_empty_conv)
    then show ?thesis
      using inv_free [OF inv(1)] by (simp add: rwlock_init_def)
  qed
  then show ?thesis
    using one_writer [OF inv(1)] inv(2) by blast
qed

text \<open>One thread writes while another spins in \<open>rwlock_rlock\<close>.\<close>

lemma writing_reached: "lock_reach 2 ([RSpin, Writing], \<lparr>rw_write = 1, rw_read = 0\<rparr>)"
proof -
  have "lock_reach 2 ([Outside, Outside], rwlock_init)"
    using lock_reach.start [of 2] by (simp add: numeral_2_eq_2)
  then have "lock_reach 2 ([RSpin, Outside], rwlock_init)"
    using call_read [of 0 "[Outside, Outside]"] by (auto intro: lock_reach.step)
  then have "lock_reach 2 ([RSpin, WSet], rwlock_init)"
    using call_write [of 1 "[RSpin, Outside]"] by (auto intro: lock_reach.step)
  then have "lock_reach 2 ([RSpin, WSpin], \<lparr>rw_write = 1, rw_read = 0\<rparr>)"
    using turn [of 1 "[RSpin, WSet]" rwlock_init] by (auto intro: lock_reach.step simp: rwlock_init_def)
  then show ?thesis
    using turn [of 1 "[RSpin, WSpin]" "\<lparr>rw_write = 1, rw_read = 0\<rparr>"] by (auto intro: lock_reach.step)
qed

theorem rwlock_exclusive_witness:
  "lock_reach 2 ([RSpin, Writing], \<lparr>rw_write = 1, rw_read = 0\<rparr>) \<and> [RSpin, Writing] ! 1 = Writing \<and> [RSpin, Writing] ! 0 \<noteq> Reading"
proof -
  have "\<forall>i < 2. \<forall>j < 2. [RSpin, Writing] ! i = Writing \<longrightarrow> [RSpin, Writing] ! j = Writing \<or> [RSpin, Writing] ! j = Reading \<longrightarrow> j = i"
    using rwlock_exclusive [OF writing_reached] by simp
  from this [rule_format, of 1 0] show ?thesis
    using writing_reached by auto
qed

end
