(* ===== verification/Spinlock.thy ===== *)
theory Spinlock
  imports Prelude
begin

text \<open>
  The locks of \<open>misaka/include/spinlock.h\<close>, in both variants: a spin lock over the atomic operations of the compiler, and the
  wrappers around a pthread mutex, which the file selects. The contract of a lock is a locale, and the mutual exclusion of
  its users is proved in it once: it is what makes the operations of theories \<open>Mq\<close>, \<open>Sched\<close> and \<open>Timer\<close> critical sections.
\<close>

section \<open>The spin lock\<close>

record spinlock =
  sl_lock :: cint

definition spinlock_init :: spinlock where
  "spinlock_init = \<lparr>sl_lock = 0\<rparr>"

text \<open>\<open>__sync_lock_test_and_set\<close> of the compiler: store and return the old value in one step.\<close>

definition test_and_set :: "spinlock \<Rightarrow> cint \<Rightarrow> cint \<times> spinlock" where
  "test_and_set l v = (sl_lock l, l\<lparr>sl_lock := v\<rparr>)"

text \<open>One turn of the loop of \<open>spinlock_lock\<close>: whether the loop is left.\<close>

definition spinlock_lock :: "spinlock \<Rightarrow> bool \<times> spinlock" where
  "spinlock_lock l = (case test_and_set l 1 of (old, l) \<Rightarrow> (old = 0, l))"

definition spinlock_trylock :: "spinlock \<Rightarrow> cint \<times> spinlock" where
  "spinlock_trylock l = (case test_and_set l 1 of (old, l) \<Rightarrow> (if old = 0 then 1 else 0, l))"

definition spinlock_unlock :: "spinlock \<Rightarrow> spinlock" where
  "spinlock_unlock l = l\<lparr>sl_lock := 0\<rparr>"

section \<open>The pthread mutex\<close>

text \<open>The mutex as the standard describes it: \<open>pthread_mutex_lock\<close> returns once it has the mutex, \<open>pthread_mutex_trylock\<close> returns
  \<open>EBUSY\<close> when it is locked.\<close>

record pmutex =
  pm_locked :: bool

definition EBUSY :: cint where
  "EBUSY = 16"

definition mutex_trylock :: "pmutex \<Rightarrow> cint \<times> pmutex" where
  "mutex_trylock m = (if pm_locked m then (EBUSY, m) else (0, m\<lparr>pm_locked := True\<rparr>))"

definition mspin_init :: pmutex where
  "mspin_init = \<lparr>pm_locked = False\<rparr>"

definition mspin_lock :: "pmutex \<Rightarrow> bool \<times> pmutex" where
  "mspin_lock m = (if pm_locked m then (False, m) else (True, m\<lparr>pm_locked := True\<rparr>))"

definition mspin_trylock :: "pmutex \<Rightarrow> cint \<times> pmutex" where
  "mspin_trylock m = (case mutex_trylock m of (r, m) \<Rightarrow> (if r = 0 then 1 else 0, m))"

definition mspin_unlock :: "pmutex \<Rightarrow> pmutex" where
  "mspin_unlock m = m\<lparr>pm_locked := False\<rparr>"

section \<open>The users of a lock\<close>

text \<open>A thread is outside, waiting in the lock function, or inside its critical section. A thread unlocks only what it locked.\<close>

datatype lock_pc = Outside | Waiting | Inside

type_synonym 'l lock_state = "'l \<times> (nat \<Rightarrow> lock_pc)"

datatype lock_op = Call | Turn | Try | Leave

fun lock_step :: "('l \<Rightarrow> bool \<times> 'l) \<Rightarrow> ('l \<Rightarrow> cint \<times> 'l) \<Rightarrow> ('l \<Rightarrow> 'l) \<Rightarrow> nat \<times> lock_op \<Rightarrow> 'l lock_state \<Rightarrow> 'l lock_state" where
  "lock_step lock trylock unlock (t, Call) (l, pc) = (if pc t = Outside then (l, pc(t := Waiting)) else (l, pc))"
| "lock_step lock trylock unlock (t, Turn) (l, pc) =
     (if pc t = Waiting then (case lock l of (got, l) \<Rightarrow> (l, pc(t := if got then Inside else Waiting))) else (l, pc))"
| "lock_step lock trylock unlock (t, Try) (l, pc) =
     (if pc t = Outside then (case trylock l of (r, l) \<Rightarrow> (l, pc(t := if r \<noteq> 0 then Inside else Outside))) else (l, pc))"
| "lock_step lock trylock unlock (t, Leave) (l, pc) = (if pc t = Inside then (unlock l, pc(t := Outside)) else (l, pc))"

definition lock_run :: "('l \<Rightarrow> bool \<times> 'l) \<Rightarrow> ('l \<Rightarrow> cint \<times> 'l) \<Rightarrow> ('l \<Rightarrow> 'l) \<Rightarrow> 'l \<Rightarrow> (nat \<times> lock_op) list \<Rightarrow> 'l lock_state" where
  "lock_run lock trylock unlock l ops = fold (lock_step lock trylock unlock) ops (l, \<lambda>t. Outside)"

section \<open>The contract\<close>

text \<open>\<open>free\<close> is the abstract state of the lock.\<close>

locale lock_spec =
  fixes init :: 'l and lock :: "'l \<Rightarrow> bool \<times> 'l" and trylock :: "'l \<Rightarrow> cint \<times> 'l" and unlock :: "'l \<Rightarrow> 'l" and free :: "'l \<Rightarrow> bool"
  assumes init_free: "free init"
    and lock_got: "lock l = (got, l') \<Longrightarrow> got = free l \<and> \<not> free l'"
    and try_got: "trylock l = (r, l') \<Longrightarrow> r = (if free l then 1 else 0) \<and> \<not> free l'"
    and unlock_free: "free (unlock l)"
begin

definition excl :: "'l lock_state \<Rightarrow> bool" where
  "excl s \<longleftrightarrow> (\<forall>t u. snd s t = Inside \<longrightarrow> snd s u = Inside \<longrightarrow> t = u) \<and> (free (fst s) \<longleftrightarrow> (\<forall>t. snd s t \<noteq> Inside))"

lemma step_excl: "excl s \<Longrightarrow> excl (lock_step lock trylock unlock a s)"
proof (cases "(lock, trylock, unlock, a, s)" rule: lock_step.cases)
  case (2 lock' trylock' unlock' t l pc)
  assume i: "excl s"
  obtain got l' where g: "lock l = (got, l')"
    by fastforce
  show ?thesis
    using i 2 g lock_got [OF g] by (cases "free l") (auto simp: excl_def split: if_splits, metis lock_pc.distinct(5))
next
  case (3 lock' trylock' unlock' t l pc)
  assume i: "excl s"
  obtain r l' where r: "trylock l = (r, l')"
    by fastforce
  show ?thesis
    using i 3 r try_got [OF r] by (cases "free l") (auto simp: excl_def split: if_splits, metis lock_pc.distinct(3))
qed (auto simp: excl_def unlock_free split: if_splits, metis lock_pc.distinct(3))

lemma run_excl: "excl (lock_run lock trylock unlock init ops)"
proof -
  have "excl s \<Longrightarrow> excl (fold (lock_step lock trylock unlock) ops s)" for s
    by (induction ops arbitrary: s) (simp_all add: step_excl)
  moreover have "excl (init, \<lambda>t. Outside)"
    using init_free by (simp add: excl_def)
  ultimately show ?thesis
    unfolding lock_run_def by blast
qed

lemma free_iff:
  assumes "excl (l, pc)"
  shows "fst (lock l) \<longleftrightarrow> (\<forall>v. pc v \<noteq> Inside)" "fst (trylock l) = 1 \<longleftrightarrow> (\<forall>v. pc v \<noteq> Inside)"
proof -
  obtain got l1 r l2 where "lock l = (got, l1)" "trylock l = (r, l2)"
    by fastforce
  then show "fst (lock l) \<longleftrightarrow> (\<forall>v. pc v \<noteq> Inside)" "fst (trylock l) = 1 \<longleftrightarrow> (\<forall>v. pc v \<noteq> Inside)"
    using lock_got [of l got l1] try_got [of l r l2] assms by (simp_all add: excl_def)
qed

lemma run_serial:
  assumes "lock_run lock trylock unlock init ops = (l, pc)"
  shows "pc t = Inside \<Longrightarrow> pc u = Inside \<Longrightarrow> t = u" "fst (lock l) \<longleftrightarrow> (\<forall>v. pc v \<noteq> Inside)"
    "fst (trylock l) = 1 \<longleftrightarrow> (\<forall>v. pc v \<noteq> Inside)"
  using run_excl [of ops] free_iff [of l pc] assms by (auto simp: excl_def)

end

text \<open>Two locks that keep the contract treat their users alike.\<close>

locale lock_pair = A: lock_spec initA lockA tryA unlockA freeA + B: lock_spec initB lockB tryB unlockB freeB
  for initA :: 'a and lockA tryA unlockA freeA and initB :: 'b and lockB tryB unlockB freeB
begin

lemma step_alike:
  assumes "freeA l = freeB m" "lock_step lockA tryA unlockA a (l, pc) = (l', pc')" "lock_step lockB tryB unlockB a (m, pc) = (m', qc')"
  shows "pc' = qc' \<and> freeA l' = freeB m'"
proof -
  obtain t op where a: "a = (t, op)"
    by fastforce
  obtain g1 l1 g2 m1 r1 l2 r2 m2 where "lockA l = (g1, l1)" "lockB m = (g2, m1)" "tryA l = (r1, l2)" "tryB m = (r2, m2)"
    by (meson surj_pair)
  then show ?thesis
    using assms a A.lock_got [of l g1 l1] B.lock_got [of m g2 m1] A.try_got [of l r1 l2] B.try_got [of m r2 m2] A.unlock_free B.unlock_free
    by (cases op) (auto split: if_splits)
qed

lemma run_alike:
  "snd (lock_run lockA tryA unlockA initA ops) = snd (lock_run lockB tryB unlockB initB ops)"
proof -
  have "freeA (fst x) = freeB (fst y) \<and> snd x = snd y \<Longrightarrow>
      snd (fold (lock_step lockA tryA unlockA) ops x) = snd (fold (lock_step lockB tryB unlockB) ops y)" for x y
  proof (induction ops arbitrary: x y)
    case (Cons a ops)
    have "freeA (fst (lock_step lockA tryA unlockA a x)) = freeB (fst (lock_step lockB tryB unlockB a y)) \<and>
        snd (lock_step lockA tryA unlockA a x) = snd (lock_step lockB tryB unlockB a y)"
      using step_alike [of "fst x" "fst y" a "snd x"] Cons.prems by (metis prod.collapse)
    then show ?case
      using Cons.IH by simp
  qed simp
  then show ?thesis
    unfolding lock_run_def using A.init_free B.init_free by simp
qed

end

interpretation spin: lock_spec spinlock_init spinlock_lock spinlock_trylock spinlock_unlock "\<lambda>l. sl_lock l = 0"
  by unfold_locales
    (auto simp: spinlock_init_def spinlock_lock_def spinlock_trylock_def spinlock_unlock_def test_and_set_def)

interpretation mspin: lock_spec mspin_init mspin_lock mspin_trylock mspin_unlock "\<lambda>m. \<not> pm_locked m"
  by unfold_locales
    (auto simp: mspin_init_def mspin_lock_def mspin_trylock_def mspin_unlock_def mutex_trylock_def EBUSY_def split: if_splits)

interpretation locks: lock_pair spinlock_init spinlock_lock spinlock_trylock spinlock_unlock "\<lambda>l. sl_lock l = 0"
  mspin_init mspin_lock mspin_trylock mspin_unlock "\<lambda>m. \<not> pm_locked m"
  by unfold_locales

section \<open>Properties\<close>

text \<open>C11: The two variants of the lock exclude and are interchangeable. Whatever sequence of calls, turns of the waiting loop, attempts and
  releases any number of threads make, each thread is at the same place with the spin lock and with the mutex, at most one
  is inside its critical section, and the next call or attempt succeeds, with either lock, exactly if none is.\<close>

theorem spinlocks_alike:
  assumes "lock_run spinlock_lock spinlock_trylock spinlock_unlock spinlock_init ops = (l, pc)"
    and "lock_run mspin_lock mspin_trylock mspin_unlock mspin_init ops = (m, qc)"
  shows "pc = qc \<and> (pc t = Inside \<longrightarrow> pc u = Inside \<longrightarrow> t = u) \<and>
    (fst (spinlock_lock l) \<longleftrightarrow> (\<forall>v. pc v \<noteq> Inside)) \<and> (fst (mspin_lock m) \<longleftrightarrow> (\<forall>v. pc v \<noteq> Inside)) \<and>
    (fst (spinlock_trylock l) = 1 \<longleftrightarrow> (\<forall>v. pc v \<noteq> Inside)) \<and> (fst (mspin_trylock m) = 1 \<longleftrightarrow> (\<forall>v. pc v \<noteq> Inside))"
  using spin.run_serial [OF assms(1)] mspin.run_serial [OF assms(2)] locks.run_alike [of ops] assms by simp

theorem spinlocks_alike_witness:
  "\<exists>l m pc. lock_run spinlock_lock spinlock_trylock spinlock_unlock spinlock_init [(0, Try), (1, Call), (1, Turn)] = (l, pc) \<and>
     lock_run mspin_lock mspin_trylock mspin_unlock mspin_init [(0, Try), (1, Call), (1, Turn)] = (m, pc) \<and>
     pc 0 = Inside \<and> pc 1 = Waiting \<and> \<not> fst (spinlock_lock l) \<and> fst (mspin_trylock m) \<noteq> 1"
proof -
  let ?ops = "[(0, Try), (1, Call), (1, Turn)]"
  obtain l pc m qc where r: "lock_run spinlock_lock spinlock_trylock spinlock_unlock spinlock_init ?ops = (l, pc)"
    "lock_run mspin_lock mspin_trylock mspin_unlock mspin_init ?ops = (m, qc)"
    by fastforce
  moreover have "pc 0 = Inside" "pc 1 = Waiting"
    using r(1) by (auto simp: lock_run_def spinlock_lock_def spinlock_trylock_def spinlock_init_def test_and_set_def)
  ultimately show ?thesis
    using spinlocks_alike [OF r] by auto
qed

end
