(* ===== verification/Cstring.thy ===== *)
theory Cstring
  imports Prelude
begin

text \<open>
  The functions of the C library on strings that the system utilities use: searching, decimal numbers, bounded copying.

  A string is the list of its characters without the terminating NUL; a buffer is the list of all its characters, and \<open>cstr\<close>
  gives the string it holds.
\<close>

abbreviation (input) NUL :: char where "NUL \<equiv> CHR 0x00"

definition cstr :: "char list \<Rightarrow> string" where
  "cstr buf = takeWhile (\<lambda>c. c \<noteq> NUL) buf"

section \<open>Searching and comparing\<close>

text \<open>\<open>strchr\<close>, \<open>strrchr\<close> and \<open>strstr\<close>: the position of the match.\<close>

fun strchr :: "string \<Rightarrow> char \<Rightarrow> nat option" where
  "strchr [] c = None"
| "strchr (x # xs) c = (if x = c then Some 0 else map_option Suc (strchr xs c))"

fun strrchr :: "string \<Rightarrow> char \<Rightarrow> nat option" where
  "strrchr [] c = None"
| "strrchr (x # xs) c = (case strrchr xs c of Some i \<Rightarrow> Some (Suc i) | None \<Rightarrow> if x = c then Some 0 else None)"

definition prefix_of :: "string \<Rightarrow> string \<Rightarrow> bool" where
  "prefix_of p s \<longleftrightarrow> take (length p) s = p"

fun strstr :: "string \<Rightarrow> string \<Rightarrow> nat option" where
  "strstr [] p = (if p = [] then Some 0 else None)"
| "strstr (x # xs) p = (if prefix_of p (x # xs) then Some 0 else map_option Suc (strstr xs p))"

text \<open>\<open>strcmp\<close> of a string and a buffer for equality; running off the end of the buffer is undefined.\<close>

fun streq :: "string \<Rightarrow> char list \<Rightarrow> bool option" where
  "streq s [] = None"
| "streq [] (b # bs) = Some (b = NUL)"
| "streq (c # cs) (b # bs) = (if c = b then streq cs bs else Some False)"

text \<open>\<open>strncpy\<close> into the first \<open>n\<close> characters of a buffer: the string, cut to \<open>n\<close>, filled up with NUL.\<close>

definition strncpy :: "char list \<Rightarrow> string \<Rightarrow> nat \<Rightarrow> char list option" where
  "strncpy buf s n = (if n \<le> length buf then Some (take n (s @ replicate n NUL) @ drop n buf) else None)"

section \<open>Decimal numbers\<close>

definition is_digit :: "char \<Rightarrow> bool" where
  "is_digit c \<longleftrightarrow> 48 \<le> (of_char c :: nat) \<and> (of_char c :: nat) \<le> 57"

definition digit_val :: "char \<Rightarrow> nat" where
  "digit_val c = of_char c - 48"

definition digit_char :: "nat \<Rightarrow> char" where
  "digit_char d = char_of (48 + d)"

definition is_space :: "char \<Rightarrow> bool" where
  "is_space c \<longleftrightarrow> (of_char c :: nat) = 32 \<or> (9 \<le> (of_char c :: nat) \<and> (of_char c :: nat) \<le> 13)"

text \<open>\<open>%d\<close> of \<open>printf\<close>.\<close>

fun dec :: "nat \<Rightarrow> string" where
  "dec n = (if n < 10 then [digit_char n] else dec (n div 10) @ [digit_char (n mod 10)])"

declare dec.simps [simp del]

definition dec_int :: "int \<Rightarrow> string" where
  "dec_int i = (if i < 0 then CHR ''-'' # dec (nat (- i)) else dec (nat i))"

text \<open>The digits at the start of a string.\<close>

fun scan :: "nat \<Rightarrow> string \<Rightarrow> nat \<times> string" where
  "scan acc [] = (acc, [])"
| "scan acc (c # cs) = (if is_digit c then scan (acc * 10 + digit_val c) cs else (acc, c # cs))"

text \<open>\<open>strtol\<close> with base 10 in \<open>long\<close>: white space, a sign, digits; the value, limited to the range, and the rest of the
  string, which is the whole string when there is no number.\<close>

definition strtol :: "string \<Rightarrow> int \<times> string" where
  "strtol s =
     (let t = dropWhile is_space s;
          neg = (t \<noteq> [] \<and> hd t = CHR ''-'');
          u = (if t \<noteq> [] \<and> (hd t = CHR ''-'' \<or> hd t = CHR ''+'') then tl t else t) in
      if u = [] \<or> \<not> is_digit (hd u) then (0, s)
      else (let (v, rest) = scan 0 u; i = (if neg then - int v else int v) in
            (max (- (2 ^ 63)) (min (2 ^ 63 - 1) i), rest)))"

text \<open>\<open>atoi\<close>, and the conversion of a \<open>long\<close> to an \<open>int\<close>.\<close>

definition to_int :: "int \<Rightarrow> int" where
  "to_int i = sint (word_of_int i :: cint)"

definition atoi :: "string \<Rightarrow> int" where
  "atoi s = to_int (fst (strtol s))"

text \<open>\<open>sscanf\<close> with the format \<open>%d.%d.%d.%d\<close> (for \<open>n = 4\<close>): the numbers it assigns.\<close>

fun scan_dots :: "nat \<Rightarrow> string \<Rightarrow> int list" where
  "scan_dots 0 s = []"
| "scan_dots (Suc n) s =
     (let (v, r) = strtol s in
      if r = s then []
      else to_int v # (if r \<noteq> [] \<and> hd r = CHR ''.'' then scan_dots n (tl r) else []))"

text \<open>\<open>fgets\<close> with a buffer of \<open>n\<close> characters: up to and including a newline, at most \<open>n - 1\<close>; and all lines it delivers.\<close>

fun line_end :: "nat \<Rightarrow> string \<Rightarrow> nat" where
  "line_end 0 s = 0"
| "line_end (Suc n) [] = 0"
| "line_end (Suc n) (c # cs) = (if c = CHR 0x0A then 1 else Suc (line_end n cs))"

function fgets_all :: "nat \<Rightarrow> string \<Rightarrow> string list" where
  "fgets_all n s = (if n < 2 \<or> s = [] then [] else take (line_end (n - 1) s) s # fgets_all n (drop (line_end (n - 1) s) s))"
  by pat_completeness auto
termination
proof (relation "measure (length \<circ> snd)")
  fix n :: nat and s :: string
  assume *: "\<not> (n < 2 \<or> s = [])"
  then obtain m c cs where "n - 1 = Suc m" "s = c # cs"
    by (cases "n - 1"; cases s) auto
  then show "((n, drop (line_end (n - 1) s) s), (n, s)) \<in> measure (length \<circ> snd)"
    by simp
qed simp

declare fgets_all.simps [simp del]

section \<open>Lemmas\<close>

lemma digit_props [simp]: "d < 10 \<Longrightarrow> is_digit (digit_char d)" "d < 10 \<Longrightarrow> digit_val (digit_char d) = d"
  by (simp_all add: is_digit_def digit_val_def digit_char_def of_char_of)

lemma scan_dec: "scan acc (dec n @ r) = scan (acc * 10 ^ length (dec n) + n) r"
proof (induction n arbitrary: acc r rule: dec.induct)
  case (1 n)
  show ?case
  proof (cases "n < 10")
    case True
    then show ?thesis
      by (simp add: dec.simps [of n])
  next
    case False
    then show ?thesis
      using 1 [of acc "digit_char (n mod 10) # r"] by (simp add: dec.simps [of n] add_mult_distrib ac_simps)
  qed
qed

lemma scan_stop: "r = [] \<or> \<not> is_digit (hd r) \<Longrightarrow> scan acc r = (acc, r)"
  by (cases r) auto

lemma dec_nonempty [simp]: "dec n \<noteq> []"
  by (subst dec.simps) simp

lemma dec_digits: "c \<in> set (dec n) \<Longrightarrow> is_digit c"
proof (induction n rule: dec.induct)
  case (1 n)
  then show ?case
    by (cases "n < 10") (auto simp: dec.simps [of n])
qed

lemma digit_not_space: "is_digit c \<Longrightarrow> \<not> is_space c"
  by (auto simp: is_digit_def is_space_def)

lemma digit_not_sign: "is_digit c \<Longrightarrow> c \<noteq> CHR ''-''" "is_digit c \<Longrightarrow> c \<noteq> CHR ''+''"
  by (auto simp: is_digit_def)

lemma strtol_dec:
  assumes "n < 2 ^ 63" "r = [] \<or> \<not> is_digit (hd r)"
  shows "strtol (dec n @ r) = (int n, r)"
proof -
  obtain c cs where c: "dec n = c # cs" "is_digit c"
    using dec_digits [of _ n] by (cases "dec n") auto
  have "scan 0 (dec n @ r) = (n, r)"
    using scan_dec [of 0 n r] scan_stop [OF assms(2)] by simp
  then show ?thesis
    using c assms(1) digit_not_space [OF c(2)] digit_not_sign [OF c(2)] by (simp add: strtol_def)
qed

lemma strchr_append: "c \<notin> set xs \<Longrightarrow> strchr (xs @ c # ys) c = Some (length xs)"
  by (induction xs) auto

lemma strchr_None: "strchr xs c = None \<longleftrightarrow> c \<notin> set xs"
  by (induction xs) auto

lemma strrchr_None: "strrchr xs c = None \<longleftrightarrow> c \<notin> set xs"
  by (induction xs) (auto split: option.splits)

lemma strrchr_append: "c \<notin> set ys \<Longrightarrow> strrchr (xs @ c # ys) c = Some (length xs)"
  by (induction xs) (use strrchr_None [of ys c] in auto)

lemma cstr_append: "NUL \<notin> set s \<Longrightarrow> cstr (s @ NUL # r) = s"
  by (induction s) (auto simp: cstr_def)

lemma streq_term: "NUL \<notin> set s \<Longrightarrow> NUL \<notin> set t \<Longrightarrow> streq s (t @ NUL # r) = Some (s = t)"
  by (induction s "t @ NUL # r" arbitrary: t rule: streq.induct) (auto simp: Cons_eq_append_conv)

lemma to_int_id: "- (2 ^ 31) \<le> i \<Longrightarrow> i < 2 ^ 31 \<Longrightarrow> to_int i = i"
  by (simp add: to_int_def signed_of_int signed_take_bit_int_eq_self)

lemma scan_dots_dec:
  assumes "n < 2 ^ 31" "r = [] \<or> \<not> is_digit (hd r)"
  shows "scan_dots (Suc k) (dec n @ r) = int n # (if r \<noteq> [] \<and> hd r = CHR ''.'' then scan_dots k (tl r) else [])"
  using strtol_dec [of n r] to_int_id [of "int n"] assms by simp

lemma fgets_all_concat: "1 < n \<Longrightarrow> concat (fgets_all n s) = s"
proof (induction n s rule: fgets_all.induct)
  case (1 n s)
  show ?case
  proof (cases "s = []")
    case False
    then show ?thesis
      using 1 by (subst fgets_all.simps) simp
  qed (simp add: fgets_all.simps)
qed

end
