(* ===== verification/Procs.thy ===== *)
theory Procs
  imports Cstring
begin

text \<open>
  Process control in \<open>misaka/lib/common.c\<close>: finding processes by name in \<open>/proc\<close>, signalling them and waiting for their end.

  The operating system is a parameter: a record of the answers of the system calls in a state \<open>'s\<close> of the system, and of
  the states that sending a signal and sleeping lead to. A local array starts with arbitrary contents.
\<close>

unbundle bit_operations_syntax

record 's os =
  os_open :: "string \<Rightarrow> nat \<Rightarrow> 's \<Rightarrow> char list option option"
  os_proc :: "'s \<Rightarrow> string list option"
  os_stat :: "string \<Rightarrow> 's \<Rightarrow> u32 option"
  os_kill :: "int \<Rightarrow> int \<Rightarrow> 's \<Rightarrow> int \<times> 's"
  os_usleep :: "int \<Rightarrow> 's \<Rightarrow> 's"
  os_realloc :: "nat \<Rightarrow> bool"
  os_stack :: "char list"

text \<open>
  \<^item> \<open>os_open path n s\<close>: opening the file and reading at most \<open>n\<close> bytes; \<open>None\<close> when it cannot be opened, \<open>Some None\<close> when the
    read fails.
  \<^item> \<open>os_proc s\<close>: the names \<open>readdir\<close> gives for \<open>/proc\<close>, or \<open>None\<close> when it cannot be opened.
  \<^item> \<open>os_stat path s\<close>: the mode of the file, if there is one.
\<close>

definition local_array :: "'s os \<Rightarrow> nat \<Rightarrow> char list" where
  "local_array os n = take n (os_stack os @ replicate n NUL)"

abbreviation (input) SIGKILL :: int where "SIGKILL \<equiv> 9"
abbreviation (input) SIGTERM :: int where "SIGTERM \<equiv> 15"
abbreviation (input) S_IFREG :: u32 where "S_IFREG \<equiv> 0x8000"
abbreviation (input) S_IFDIR :: u32 where "S_IFDIR \<equiv> 0x4000"
abbreviation (input) S_IFMT :: u32 where "S_IFMT \<equiv> 0xF000"

section \<open>Reading files\<close>

definition f_exists :: "'s os \<Rightarrow> string \<Rightarrow> 's \<Rightarrow> bool" where
  "f_exists os path s = (case os_stat os path s of None \<Rightarrow> False | Some m \<Rightarrow> m AND S_IFMT \<noteq> S_IFDIR)"

definition f_read :: "'s os \<Rightarrow> string \<Rightarrow> char list \<Rightarrow> int \<Rightarrow> 's \<Rightarrow> (int \<times> char list) option" where
  "f_read os path buffer mx s =
     (case os_open os path (nat (mx mod 2 ^ 64)) s of
        Some (Some bs) \<Rightarrow>
          if length bs \<le> length buffer then Some (int (length bs), bs @ drop (length bs) buffer) else None
      | _ \<Rightarrow> Some (-1, buffer))"

definition f_read_string :: "'s os \<Rightarrow> string \<Rightarrow> char list \<Rightarrow> int \<Rightarrow> 's \<Rightarrow> (int \<times> char list) option" where
  "f_read_string os path buffer mx s =
     (if mx \<le> 0 then Some (-1, buffer)
      else do {
        (n, buffer) \<leftarrow> f_read os path buffer (mx - 1) s;
        let i = nat (if n > 0 then n else 0);
        if i < length buffer then Some (n, buffer[i := NUL]) else None
      })"

section \<open>Processes by name\<close>

definition stat_path :: "int \<Rightarrow> string" where
  "stat_path pid = ''/proc/'' @ dec_int pid @ ''/stat''"

text \<open>\<open>psname\<close>: the inner \<open>None\<close> is the result NULL; otherwise the contents of the buffer, to which the function returns a pointer.\<close>

definition psname :: "'s os \<Rightarrow> int \<Rightarrow> char list \<Rightarrow> int \<Rightarrow> 's \<Rightarrow> char list option option" where
  "psname os pid buffer maxlen s =
     (if maxlen \<le> 0 then Some None
      else if buffer = [] then None
      else do {
        let buffer = buffer[0 := NUL];
        (n, buf) \<leftarrow> f_read_string os (stat_path pid) (local_array os 512) 512 s;
        let str = cstr buf;
        case (if n > 4 then strrchr str CHR '')'' else None) of
          None \<Rightarrow> Some (Some buffer)
        | Some p \<Rightarrow>
            (let str = take p str in
             case strchr str CHR ''('' of
               None \<Rightarrow> Some (Some buffer)
             | Some q \<Rightarrow>
                 if atoi str = pid then map_option Some (strncpy buffer (drop (Suc q) str) (nat maxlen))
                 else Some (Some buffer))
      })"

text \<open>The loop of \<open>_pidof\<close> over the entries of \<open>/proc\<close>; the inner \<open>None\<close> is a failed \<open>realloc\<close>. The comparison runs over the
  buffer \<open>psname\<close> returned.\<close>

fun pidof_loop :: "'s os \<Rightarrow> string \<Rightarrow> string list \<Rightarrow> char list \<Rightarrow> int list \<Rightarrow> 's \<Rightarrow> int list option option" where
  "pidof_loop os name [] buf pids s = Some (Some pids)"
| "pidof_loop os name (d # ds) buf pids s =
     (let (v, e) = strtol d; i = to_int v in
      if e \<noteq> [] then pidof_loop os name ds buf pids s
      else do {
        r \<leftarrow> psname os i buf 256 s;
        buf \<leftarrow> r;
        eq \<leftarrow> streq name buf;
        if \<not> eq then pidof_loop os name ds buf pids s
        else if os_realloc os (length pids) then pidof_loop os name ds buf (pids @ [i]) s
        else Some None
      })"

definition base_name :: "string \<Rightarrow> string" where
  "base_name name = (case strchr name CHR ''/'' of Some p \<Rightarrow> drop (Suc p) name | None \<Rightarrow> name)"

text \<open>\<open>_pidof\<close>: the count and the array. \<open>closedir\<close> of a directory that could not be opened is undefined.\<close>

definition pidof_array :: "'s os \<Rightarrow> string \<Rightarrow> 's \<Rightarrow> (int \<times> int list) option" where
  "pidof_array os name s = do {
     entries \<leftarrow> os_proc os s;
     r \<leftarrow> pidof_loop os (base_name name) entries (local_array os 256) [] s;
     Some (case r of None \<Rightarrow> (-1, []) | Some pids \<Rightarrow> (int (length pids), pids))
   }"

definition pidof :: "'s os \<Rightarrow> string \<Rightarrow> 's \<Rightarrow> int option" where
  "pidof os name s = do {
     (n, pids) \<leftarrow> pidof_array os name s;
     Some (if n > 0 then pids ! 0 else -1)
   }"

section \<open>Signals\<close>

text \<open>The loop of \<open>killall\<close> goes through the array from its end.\<close>

fun kill_loop :: "'s os \<Rightarrow> int list \<Rightarrow> int \<Rightarrow> int \<Rightarrow> 's \<Rightarrow> int \<times> 's" where
  "kill_loop os [] sig r s = (r, s)"
| "kill_loop os (p # ps) sig r s = (let (k, s) = os_kill os p sig s in kill_loop os ps sig (r OR k) s)"

definition killall :: "'s os \<Rightarrow> string \<Rightarrow> int \<Rightarrow> 's \<Rightarrow> (int \<times> 's) option" where
  "killall os name sig s = do {
     (n, pids) \<leftarrow> pidof_array os name s;
     Some (if n > 0 then kill_loop os (rev pids) sig 0 s else (-2, s))
   }"

text \<open>The waiting loop of \<open>kill_pid\<close>, with the rounds that are left.\<close>

fun kill_wait :: "'s os \<Rightarrow> nat \<Rightarrow> int \<Rightarrow> 's \<Rightarrow> 's" where
  "kill_wait os 0 pid s = s"
| "kill_wait os (Suc deadcnt) pid s =
     (let s = os_usleep os 100000 s in
      case os_stat os (stat_path pid) s of
        Some m \<Rightarrow> if m AND S_IFREG \<noteq> 0 then kill_wait os deadcnt pid (snd (os_kill os pid SIGKILL s)) else s
      | None \<Rightarrow> s)"

definition kill_pid :: "'s os \<Rightarrow> int \<Rightarrow> 's \<Rightarrow> int \<times> 's" where
  "kill_pid os pid s =
     (if pid > 0 then (let s = snd (os_kill os pid SIGTERM s) in (1, kill_wait os 20 pid s)) else (0, s))"

text \<open>The waiting loop of \<open>stop_process\<close>: \<open>pidof\<close> is asked once more when the counter has run out.\<close>

fun stop_wait :: "'s os \<Rightarrow> nat \<Rightarrow> string \<Rightarrow> 's \<Rightarrow> 's option" where
  "stop_wait os 0 name s = do { p \<leftarrow> pidof os name s; Some s }"
| "stop_wait os (Suc deadcounter) name s = do {
     p \<leftarrow> pidof os name s;
     if p > 0 then stop_wait os deadcounter name (os_usleep os 100000 s) else Some s
   }"

definition stop_process :: "'s os \<Rightarrow> string \<Rightarrow> 's \<Rightarrow> (int \<times> 's) option" where
  "stop_process os name s = do {
     p \<leftarrow> pidof os name s;
     if p > 0 then do {
       (r, s) \<leftarrow> killall os name SIGTERM s;
       s \<leftarrow> stop_wait os 20 name s;
       p \<leftarrow> pidof os name s;
       if p > 0 then do {
         (r, s) \<leftarrow> killall os name SIGKILL s;
         Some (1, s)
       } else Some (1, s)
     } else Some (0, s)
   }"

section \<open>The process table\<close>

text \<open>A line of \<open>/proc/<pid>/stat\<close>. The name of the command may itself contain parentheses and blanks; the fields behind it have none.\<close>

definition stat_line :: "int \<Rightarrow> string \<Rightarrow> string \<Rightarrow> string" where
  "stat_line pid comm rest = dec (nat pid) @ '' ('' @ comm @ '') '' @ rest"

lemma length_dec: "n < 10 ^ k \<Longrightarrow> 0 < k \<Longrightarrow> length (dec n) \<le> k"
proof (induction n arbitrary: k rule: dec.induct)
  case (1 n)
  show ?case
  proof (cases "n < 10")
    case False
    then obtain j where k: "k = Suc j" "0 < j"
      using 1(2,3) by (cases k; cases "k - 1") auto
    have "n div 10 < 10 ^ j"
      using 1(2) k(1) by (simp add: less_mult_imp_div_less mult.commute)
    then show ?thesis
      using 1(1) [OF False _ k(2)] False k(1) by (simp add: dec.simps [of n])
  qed (use 1(3) in \<open>simp add: dec.simps [of n]\<close>)
qed

lemma dec_no_char: "c \<in> {NUL, CHR ''('', CHR '')'', CHR '' ''} \<Longrightarrow> c \<notin> set (dec n)"
  using dec_digits [of c n] by (auto simp: is_digit_def)

lemma atoi_dec:
  assumes "0 \<le> pid" "pid < 2 ^ 31" "r = [] \<or> \<not> is_digit (hd r)"
  shows "atoi (dec (nat pid) @ r) = pid"
proof -
  have "sint (word_of_int pid :: cint) = pid"
    using assms(1,2) by (simp add: signed_of_int signed_take_bit_int_eq_self)
  then show ?thesis
    using strtol_dec [of "nat pid" r] assms by (simp add: atoi_def to_int_def)
qed

lemma f_read_string_512:
  assumes "os_open os path 511 s = Some (Some bs)" "length bs \<le> 511" "NUL \<notin> set bs"
  shows "\<exists>buf. f_read_string os path (local_array os 512) 512 s = Some (int (length bs), buf) \<and> cstr buf = bs"
proof -
  have l: "length (local_array os 512) = 512"
    by (simp add: local_array_def)
  let ?d = "drop (length bs) (local_array os 512)"
  obtain x xs where x: "?d = x # xs"
    using l assms(2) by (cases ?d) auto
  have r: "f_read os path (local_array os 512) 511 s = Some (int (length bs), bs @ ?d)"
    using assms(1,2) l by (simp add: f_read_def)
  have "f_read_string os path (local_array os 512) 512 s = Some (int (length bs), bs @ NUL # xs)"
    using r x assms(2) l by (cases "bs = []") (auto simp: f_read_string_def)
  then show ?thesis
    using cstr_append [OF assms(3)] by blast
qed

lemma psname_line:
  assumes op: "os_open os (stat_path pid) 511 s = Some (Some (dec (nat pid) @ '' ('' @ comm @ CHR '')'' # r))"
    and len: "length (dec (nat pid) @ '' ('' @ comm @ CHR '')'' # r) \<le> 511" and pid: "0 \<le> pid" "pid < 2 ^ 31"
    and nul: "NUL \<notin> set comm" "NUL \<notin> set r" and paren: "CHR '')'' \<notin> set r" and m: "0 < maxlen" "nat maxlen \<le> length buffer"
    and l4: "0 < length (comm @ r)"
  shows "psname os pid buffer maxlen s = Some (Some (take (nat maxlen) (comm @ replicate (nat maxlen) NUL) @ drop (nat maxlen) buffer))"
proof -
  let ?str = "dec (nat pid) @ '' ('' @ comm"
  have "NUL \<notin> set (?str @ CHR '')'' # r)"
    using nul dec_no_char by auto
  then obtain buf where buf: "f_read_string os (stat_path pid) (local_array os 512) 512 s = Some (int (length (?str @ CHR '')'' # r)), buf)"
      "cstr buf = ?str @ CHR '')'' # r"
    using f_read_string_512 [of os "stat_path pid" s "?str @ CHR '')'' # r"] op len by auto
  have n: "4 < int (length (?str @ CHR '')'' # r))"
  proof -
    have "0 < length (dec (nat pid))"
      by simp
    then show ?thesis
      using l4 unfolding length_append list.size by linarith
  qed
  have p: "strrchr (?str @ CHR '')'' # r) CHR '')'' = Some (length ?str)"
    using strrchr_append [OF paren, of ?str] by simp
  have q: "strchr ?str CHR ''('' = Some (Suc (length (dec (nat pid))))"
    using strchr_append [of "CHR ''(''" "dec (nat pid) @ '' ''" comm] dec_no_char by simp
  have a: "atoi ?str = pid"
    using atoi_dec [OF pid, of "'' ('' @ comm"] by (simp add: is_digit_def)
  have c: "strncpy (buffer[0 := NUL]) comm (nat maxlen) = Some (take (nat maxlen) (comm @ replicate (nat maxlen) NUL) @ drop (nat maxlen) buffer)"
    using m by (simp add: strncpy_def)
  have "drop (Suc (Suc (length (dec (nat pid))))) ?str = comm" "buffer \<noteq> []"
    using m by auto
  then show ?thesis
    using buf m n p q a c by (simp add: psname_def del: drop_append)
qed

text \<open>
  What the kernel documents of \<open>/proc\<close>, for a process table \<open>tab s\<close> of numbers and command names in the states that satisfy \<open>ok\<close>: the
  numeric entries of the directory are the processes, their \<open>stat\<close> files start with number and name, and a name has at most 15 characters.
\<close>

definition numeric :: "string \<Rightarrow> bool" where
  "numeric d \<longleftrightarrow> snd (strtol d) = []"

definition stat_ok :: "'s os \<Rightarrow> 's \<Rightarrow> int \<times> string \<Rightarrow> bool" where
  "stat_ok os s pc \<longleftrightarrow> (case pc of (pid, comm) \<Rightarrow> 0 < pid \<and> pid < 2 ^ 22 \<and> length comm \<le> 15 \<and> NUL \<notin> set comm \<and>
     (\<exists>rest. NUL \<notin> set rest \<and> CHR '')'' \<notin> set rest \<and>
        (\<forall>n. os_open os (stat_path pid) n s = Some (Some (take n (stat_line pid comm rest))))))"

definition proc_fs :: "'s os \<Rightarrow> ('s \<Rightarrow> (int \<times> string) list) \<Rightarrow> 's \<Rightarrow> bool" where
  "proc_fs os tab s \<longleftrightarrow> (\<exists>entries. os_proc os s = Some entries \<and> filter numeric entries = map (\<lambda>(pid, comm). dec (nat pid)) (tab s)) \<and>
     (\<forall>pc \<in> set (tab s). stat_ok os s pc)"

lemma psname_stat:
  assumes "stat_ok os s (pid, comm)" "length buf = 256"
  shows "psname os pid buf 256 s = Some (Some (comm @ replicate (256 - length comm) NUL))"
proof -
  from assms(1) obtain rest where r: "0 < pid" "pid < 2 ^ 22" "length comm \<le> 15" "NUL \<notin> set comm" "NUL \<notin> set rest" "CHR '')'' \<notin> set rest"
      "os_open os (stat_path pid) 511 s = Some (Some (take 511 (stat_line pid comm rest)))"
    by (auto simp: stat_ok_def)
  have d: "length (dec (nat pid)) \<le> 7"
    using r(1,2) by (intro length_dec) simp_all
  let ?r = "'' '' @ take (508 - (length (dec (nat pid)) + length comm) - 1) rest"
  have t: "take 511 (stat_line pid comm rest) = dec (nat pid) @ '' ('' @ comm @ CHR '')'' # ?r"
    using d r(3) by (simp add: stat_line_def numeral_eq_Suc take_Cons')
  have "psname os pid buf 256 s = Some (Some (take (nat 256) (comm @ replicate (nat 256) NUL) @ drop (nat 256) buf))"
    using r d t assms(2) by (intro psname_line [where r = ?r]) (auto dest: in_set_takeD)
  then show ?thesis
    using r(3) assms(2) by simp
qed

section \<open>Finding and stopping\<close>

text \<open>The processes of a name, in the order of the table.\<close>

definition named :: "string \<Rightarrow> (int \<times> string) list \<Rightarrow> int list" where
  "named name t = map fst (filter (\<lambda>(pid, comm). comm = name) t)"

lemma pidof_loop_finds:
  assumes "filter numeric entries = map (\<lambda>(pid, comm). dec (nat pid)) t" "\<forall>pc \<in> set t. stat_ok os s pc"
    and "length buf = 256" "NUL \<notin> set name" "\<forall>n. os_realloc os n"
  shows "pidof_loop os name entries buf pids s = Some (Some (pids @ named name t))"
  using assms(1-3)
proof (induction entries arbitrary: t buf pids)
  case (Cons d ds)
  show ?case
  proof (cases "numeric d")
    case False
    then show ?thesis
      using Cons.prems Cons.IH [of t buf pids] by (cases "strtol d") (auto simp: numeric_def)
  next
    case True
    then obtain pid comm t' where t: "t = (pid, comm) # t'" "d = dec (nat pid)" "filter numeric ds = map (\<lambda>(pid, comm). dec (nat pid)) t'"
      using Cons.prems(1) by (cases t) auto
    have ok: "stat_ok os s (pid, comm)"
      using Cons.prems(2) t(1) by simp
    then have c: "0 < pid" "pid < 2 ^ 22" "NUL \<notin> set comm" "length comm \<le> 15"
      by (auto simp: stat_ok_def)
    let ?buf = "comm @ replicate (256 - length comm) NUL"
    have "replicate (256 - length comm) NUL = NUL # replicate (255 - length comm) NUL"
      using c(4) by (simp add: replicate_Suc [symmetric] Suc_diff_le del: replicate_Suc)
    then have e: "streq name ?buf = Some (name = comm)"
      using streq_term [OF assms(4) c(3)] by simp
    have i: "strtol d = (pid, [])" "to_int pid = pid"
      using strtol_dec [of "nat pid" "[]"] atoi_dec [of pid "[]"] c(1,2) t(2) by (simp_all add: atoi_def)
    have "pidof_loop os name ds ?buf xs s = Some (Some (xs @ named name t'))" for xs
      using Cons.IH [of t' ?buf xs] Cons.prems(2) t(1,3) c(4) by simp
    then show ?thesis
      using i e psname_stat [OF ok Cons.prems(3)] assms(5) t(1) by (cases "name = comm") (auto simp: named_def)
  qed
qed (simp add: named_def)

lemma pidof_array_finds:
  assumes "proc_fs os tab s" "\<forall>n. os_realloc os n" "NUL \<notin> set name"
  shows "pidof_array os name s = Some (int (length (named (base_name name) (tab s))), named (base_name name) (tab s))"
proof -
  have "set (base_name name) \<subseteq> set name"
    by (auto simp: base_name_def dest: in_set_dropD split: option.splits)
  then have "NUL \<notin> set (base_name name)"
    using assms(3) by blast
  then show ?thesis
    using assms(1,2) pidof_loop_finds [of _ "tab s" os s "local_array os 256" "base_name name" "[]"]
    by (auto simp: pidof_array_def proc_fs_def local_array_def)
qed

lemma pidof_named:
  assumes "proc_fs os tab s" "\<forall>n. os_realloc os n" "NUL \<notin> set name"
  shows "pidof os name s = Some (case named (base_name name) (tab s) of [] \<Rightarrow> -1 | pid # _ \<Rightarrow> pid)"
  using pidof_array_finds [OF assms] by (simp add: pidof_def split: list.splits)

lemma killall_named:
  assumes "proc_fs os tab s" "\<forall>n. os_realloc os n" "NUL \<notin> set name"
  shows "killall os name sig s = Some (if named (base_name name) (tab s) = [] then (-2, s)
    else kill_loop os (rev (named (base_name name) (tab s))) sig 0 s)"
  using pidof_array_finds [OF assms] by (simp add: killall_def)

lemma kill_loop_ok:
  assumes "\<And>p sig s. ok s \<Longrightarrow> ok (snd (os_kill os p sig s))" "ok s"
  shows "ok (snd (kill_loop os ps sig r s))"
  using assms(2)
proof (induction ps arbitrary: r s)
  case (Cons p ps)
  then show ?case
    using assms(1) [of s p sig] by (auto simp: case_prod_beta)
qed simp

lemma named_pos: "\<forall>pc \<in> set t. stat_ok os s pc \<Longrightarrow> pid \<in> set (named name t) \<Longrightarrow> 0 < pid"
  by (auto simp: named_def stat_ok_def)

lemma pidof_pos:
  assumes "proc_fs os tab s" "\<forall>n. os_realloc os n" "NUL \<notin> set name"
  shows "\<exists>p. pidof os name s = Some p \<and> (0 < p \<longleftrightarrow> named (base_name name) (tab s) \<noteq> [])"
proof -
  have "\<forall>pid \<in> set (named (base_name name) (tab s)). 0 < pid"
    using assms(1) named_pos by (fastforce simp: proc_fs_def)
  then show ?thesis
    using pidof_named [OF assms] by (auto split: list.splits)
qed

lemma stop_wait_ok:
  assumes "\<And>s. ok s \<Longrightarrow> proc_fs os tab s" "\<And>t s. ok s \<Longrightarrow> ok (os_usleep os t s)" "\<forall>n. os_realloc os n" "NUL \<notin> set name" "ok s"
  shows "\<exists>s'. stop_wait os n name s = Some s' \<and> ok s'"
  using assms(5)
proof (induction n arbitrary: s)
  case 0
  then show ?case
    using pidof_pos [OF assms(1) assms(3,4), of s] by auto
next
  case (Suc n)
  obtain p where "pidof os name s = Some p"
    using pidof_pos [OF assms(1) assms(3,4), of s] Suc.prems by blast
  then show ?case
    using Suc.IH [of "os_usleep os 100000 s"] Suc.prems assms(2) by auto
qed

text \<open>A system with the state of a process table for the witnesses; a signal removes the process, and all other calls change nothing.\<close>

definition demo_os :: "(int \<times> string) list os" where
  "demo_os = \<lparr>os_open = (\<lambda>path n t. case filter (\<lambda>(pid, comm). stat_path pid = path) t of
       [] \<Rightarrow> None | (pid, comm) # _ \<Rightarrow> Some (Some (take n (stat_line pid comm ''S 1'')))),
     os_proc = (\<lambda>t. Some (''.'' # ''self'' # map (\<lambda>(pid, comm). dec (nat pid)) t)),
     os_stat = (\<lambda>path t. None), os_kill = (\<lambda>p sig t. (0, filter (\<lambda>(pid, comm). pid \<noteq> p) t)), os_usleep = (\<lambda>n t. t),
     os_realloc = (\<lambda>n. True), os_stack = []\<rparr>"

definition demo_ok :: "(int \<times> string) list \<Rightarrow> bool" where
  "demo_ok t \<longleftrightarrow> distinct (map fst t) \<and> (\<forall>(pid, comm) \<in> set t. 0 < pid \<and> pid < 2 ^ 22 \<and> length comm \<le> 15 \<and> NUL \<notin> set comm)"

lemma dec_inj: "dec n = dec m \<longleftrightarrow> n = m"
proof -
  have "fst (scan 0 (dec k)) = k" for k
    using scan_dec [of 0 k "[]"] by simp
  then show ?thesis
    by metis
qed

lemma stat_path_inj: "0 < p \<Longrightarrow> 0 < q \<Longrightarrow> stat_path p = stat_path q \<longleftrightarrow> p = q"
  by (auto simp: stat_path_def dec_int_def dec_inj)

lemma demo_fs:
  assumes "demo_ok t"
  shows "proc_fs demo_os (\<lambda>t. t) t"
proof -
  have "numeric (dec n)" if "n < 2 ^ 22" for n
    using strtol_dec [of n "[]"] that by (simp add: numeric_def)
  then have "filter numeric (map (\<lambda>(pid, comm). dec (nat pid)) t) = map (\<lambda>(pid, comm). dec (nat pid)) t"
    using assms by (auto simp: demo_ok_def filter_id_conv)
  moreover have "\<not> numeric ''.''" "\<not> numeric ''self''"
    by (simp_all add: numeric_def strtol_def is_digit_def is_space_def)
  moreover have "stat_ok demo_os t (pid, comm)" if pc: "(pid, comm) \<in> set t" for pid comm
  proof -
    let ?f = "filter (\<lambda>(q, c). stat_path q = stat_path pid) t"
    have pos: "0 < q" if "(q, c) \<in> set t" for q c
      using that assms by (auto simp: demo_ok_def)
    have uniq: "x = (pid, comm)" if "x \<in> set ?f" for x
    proof (cases x)
      case (Pair q c)
      then have "(q, c) \<in> set t" "q = pid"
        using that pos [OF pc] pos [of q c] stat_path_inj [of q pid] by simp_all
      then show ?thesis
        using Pair pc assms eq_key_imp_eq_value [of t pid c comm] by (simp add: demo_ok_def)
    qed
    have "?f \<noteq> []"
      using pc by (auto simp: filter_empty_conv)
    then obtain r where "?f = (pid, comm) # r"
      using uniq by (metis list.exhaust list.set_intros(1))
    then have "os_open demo_os (stat_path pid) n t = Some (Some (take n (stat_line pid comm ''S 1'')))" for n
      by (simp add: demo_os_def)
    then show ?thesis
      using pc assms unfolding stat_ok_def demo_ok_def by (auto intro!: exI [of _ "''S 1''"])
  qed
  ultimately show ?thesis
    by (auto simp: proc_fs_def demo_os_def)
qed

lemma demo_laws:
  "demo_ok t \<Longrightarrow> demo_ok (os_usleep demo_os n t)" "demo_ok t \<Longrightarrow> demo_ok (snd (os_kill demo_os p sig t))" "os_realloc demo_os m"
  by (auto simp: demo_os_def demo_ok_def distinct_map_filter)

definition demo_table :: "(int \<times> string) list" where
  "demo_table = [(1, ''init''), (77, ''a) b (c''), (90, ''echo''), (91, ''echo'')]"

lemma demo_table_ok: "demo_ok demo_table"
  by (simp add: demo_ok_def demo_table_def)





end
