(* ===== verification/Sysinfo.thy ===== *)
theory Sysinfo
  imports Procs
begin

text \<open>
  The remaining system utilities of \<open>misaka/lib/common.c\<close>: addresses and names of network interfaces, netmasks, shell commands, general-purpose
  I/O pins, the tick counter and starting a program.

  As in theory \<open>Procs\<close> the operating system is a parameter: the answers of the calls are arguments.
\<close>

section \<open>Interfaces\<close>

text \<open>\<open>strncpy\<close> of the device name and the \<open>ioctl\<close> that asks for \<open>sa_data\<close>: \<open>dev name\<close> is the answer, \<open>None\<close> for -1. The array
  \<open>ifr_name\<close> gets the first 15 characters of the name.\<close>

definition ifr_name :: "string \<Rightarrow> string" where
  "ifr_name devname = take 15 devname"

text \<open>\<open>get_mac\<close>, \<open>get_netmask\<close> and \<open>get_ip\<close>: the result and the bytes stored. An address starts at byte 2 of \<open>sa_data\<close>.\<close>

definition get_mac :: "(string \<Rightarrow> byte list option) \<Rightarrow> string \<Rightarrow> int \<times> byte list" where
  "get_mac hwaddr devname =
     (case hwaddr (ifr_name devname) of None \<Rightarrow> (-1, replicate 6 0) | Some sa_data \<Rightarrow> (0, take 6 sa_data))"

definition get_netmask :: "(string \<Rightarrow> byte list option) \<Rightarrow> string \<Rightarrow> int \<times> byte list" where
  "get_netmask netmask devname =
     (case netmask (ifr_name devname) of None \<Rightarrow> (-1, replicate 4 0) | Some sa_data \<Rightarrow> (0, take 4 (drop 2 sa_data)))"

definition get_ip :: "(string \<Rightarrow> byte list option) \<Rightarrow> string \<Rightarrow> int \<times> byte list" where
  "get_ip addr devname =
     (case addr (ifr_name devname) of None \<Rightarrow> (-1, replicate 4 0) | Some sa_data \<Rightarrow> (0, take 4 (drop 2 sa_data)))"

text \<open>\<open>get_net_info\<close>: the result, \<open>None\<close> where it is the indeterminate value of \<open>ret\<close>, and what becomes of the fields \<open>ip\<close> and \<open>mask\<close>.\<close>

definition get_net_info ::
  "int \<Rightarrow> (string \<Rightarrow> byte list option) \<Rightarrow> (string \<Rightarrow> byte list option) \<Rightarrow> string \<Rightarrow> byte list \<times> byte list \<Rightarrow> int option \<times> byte list \<times> byte list" where
  "get_net_info sk addr netmask ifname info =
     (if sk < 0 then (Some sk, info)
      else case addr (ifr_name ifname) of
        None \<Rightarrow> (Some (-1), info)
      | Some a \<Rightarrow>
          (case netmask (ifr_name ifname) of
             None \<Rightarrow> (Some (-1), take 4 (drop 2 a), snd info)
           | Some n \<Rightarrow> (None, take 4 (drop 2 a), take 4 (drop 2 n))))"

text \<open>\<open>get_gateway\<close> over the output of the command, \<open>None\<close> when \<open>popen\<close> fails. The scanned numbers go into local variables. Scanning
  behind the end of the line is undefined.\<close>

fun gateway_loop :: "string list \<Rightarrow> int option" where
  "gateway_loop [] = Some (-1)"
| "gateway_loop (msg # msgs) =
     (case strstr (cstr msg) ''via'' of
        None \<Rightarrow> gateway_loop msgs
      | Some via \<Rightarrow> if via + 4 \<le> length (cstr msg) then Some 0 else None)"

definition get_gateway :: "string option \<Rightarrow> (int \<times> byte list) option" where
  "get_gateway out =
     (case out of
        None \<Rightarrow> Some (-1, replicate 4 0)
      | Some text \<Rightarrow> map_option (\<lambda>r. (r, replicate 4 0)) (gateway_loop (fgets_all 64 text)))"

text \<open>\<open>getmask\<close>: the numbers that were scanned, zero for the others, and the loop over the bits from 7 down to 0.\<close>

definition mask_test :: "int \<Rightarrow> nat \<Rightarrow> int" where
  "mask_test ip n = (if bit (word_of_int ip :: cint) n then 1 else 0)"

fun mask_loop :: "nat \<Rightarrow> int list \<Rightarrow> int \<Rightarrow> int" where
  "mask_loop 0 ip loopmask = loopmask"
| "mask_loop (Suc n) ip loopmask =
     mask_loop n ip (loopmask + mask_test (ip ! 0) n + mask_test (ip ! 1) n + mask_test (ip ! 2) n + mask_test (ip ! 3) n)"

definition getmask :: "string \<Rightarrow> int" where
  "getmask nmask = mask_loop 8 (take 4 (scan_dots 4 nmask @ replicate 4 0)) 0"

text \<open>\<open>get_complete_ip\<close>: \<open>snprintf\<close> keeps 19 characters.\<close>

definition get_complete_ip :: "string option \<Rightarrow> string option \<Rightarrow> string" where
  "get_complete_ip from to =
     (case (from, to) of
        (Some f, Some t) \<Rightarrow>
          (let i = scan_dots 4 f in
           if length i \<noteq> 4 then ''0.0.0.0''
           else take 19 (dec_int (i ! 0) @ ''.'' @ dec_int (i ! 1) @ ''.'' @ dec_int (i ! 2) @ ''.'' @ t))
      | _ \<Rightarrow> ''0.0.0.0'')"

text \<open>\<open>get_ifname\<close>: whether the result is not NULL, and the buffer \<open>name\<close>.\<close>

definition get_ifname :: "char list \<Rightarrow> int \<Rightarrow> string \<Rightarrow> (bool \<times> char list) option" where
  "get_ifname name nsize buf =
     (let buf = dropWhile is_space buf in
      case strstr buf '': '' of
        None \<Rightarrow> Some (False, name)
      | Some e \<Rightarrow>
          if int e + 1 > nsize then Some (False, name)
          else if e < length name then Some (True, take e buf @ NUL # drop (Suc e) name)
          else None)"

text \<open>The loop of \<open>sys_get_eth_ifname\<close> and \<open>sys_get_wlan_ifname\<close> over the lines, for the prefix each looks for.\<close>

fun ifname_loop :: "string \<Rightarrow> int \<Rightarrow> string list \<Rightarrow> char list \<Rightarrow> (int \<times> char list) option" where
  "ifname_loop prefix nsize [] ifname = Some (0, ifname)"
| "ifname_loop prefix nsize (buf # bufs) ifname =
     (if length (cstr buf) < 2 then ifname_loop prefix nsize bufs ifname
      else do {
        (found, ifname) \<leftarrow> get_ifname ifname nsize (cstr buf);
        if found \<and> prefix_of prefix (cstr ifname) then Some (1, ifname)
        else ifname_loop prefix nsize bufs ifname
      })"

definition sys_get_eth_ifname :: "string option \<Rightarrow> char list \<Rightarrow> int \<Rightarrow> (int \<times> char list) option" where
  "sys_get_eth_ifname file ifname nsize =
     (case file of None \<Rightarrow> Some (-1, ifname) | Some text \<Rightarrow> ifname_loop ''eth'' nsize (fgets_all 256 text) ifname)"

definition sys_get_wlan_ifname :: "string option \<Rightarrow> char list \<Rightarrow> int \<Rightarrow> (int \<times> char list) option" where
  "sys_get_wlan_ifname file ifname nsize =
     (case file of None \<Rightarrow> Some (-1, ifname) | Some text \<Rightarrow> ifname_loop ''wlan'' nsize (fgets_all 256 text) ifname)"

section \<open>Commands and files\<close>

text \<open>\<open>pipe_exec\<close>: \<open>popen\<close> gives the output of the command, or \<open>None\<close>; up to 63 bytes of it are read.\<close>

definition pipe_exec :: "(string \<Rightarrow> char list option) \<Rightarrow> string \<Rightarrow> int" where
  "pipe_exec popen shell = (case popen shell of None \<Rightarrow> -1 | Some out \<Rightarrow> if length (take 63 out) > 0 then 1 else 0)"

text \<open>\<open>sprintf\<close> into an array of \<open>n\<close> characters.\<close>

definition sprintf :: "nat \<Rightarrow> string \<Rightarrow> string option" where
  "sprintf n str = (if length str < n then Some str else None)"

definition get_eth_link :: "(string \<Rightarrow> char list option) \<Rightarrow> string \<Rightarrow> int option" where
  "get_eth_link popen name = map_option (pipe_exec popen) (sprintf 32 (''ifconfig '' @ name @ '' | grep RUNNING''))"

definition LSMOD :: "(string \<Rightarrow> char list option) \<Rightarrow> string \<Rightarrow> int option" where
  "LSMOD popen module = map_option (pipe_exec popen) (sprintf 32 (''lsmod | grep '' @ module))"

text \<open>\<open>file_to_buf\<close>: \<open>fopen path\<close> tells whether the file could be opened; the buffer is only cleared.\<close>

definition file_to_buf :: "(string \<Rightarrow> bool) \<Rightarrow> string \<Rightarrow> nat \<Rightarrow> int \<times> char list" where
  "file_to_buf fopen path len = (if fopen path then 1 else 0, replicate len NUL)"

definition get_ppp_pid :: "(string \<Rightarrow> bool) \<Rightarrow> string \<Rightarrow> int" where
  "get_ppp_pid fopen file =
     (let (r, buf) = file_to_buf fopen file 80 in
      if r \<noteq> 0 then (let tmp = take 79 (''/var/run/'' @ cstr buf @ ''.pid''); (r, tmp1) = file_to_buf fopen tmp 80 in atoi (cstr tmp1))
      else -1)"

text \<open>\<open>find_name_by_proc\<close>: the first line of the file, \<open>None\<close> when it cannot be opened, and an empty text when there is no line. The second word of
  \<open>out\<close> is scanned into the local array \<open>line\<close> of 254 characters.\<close>

definition second_word :: "string \<Rightarrow> string" where
  "second_word s = takeWhile (\<lambda>c. \<not> is_space c) (dropWhile is_space (dropWhile (\<lambda>c. \<not> is_space c) (dropWhile is_space s)))"

definition find_name_by_proc :: "(string \<Rightarrow> string option) \<Rightarrow> string option \<Rightarrow> int \<Rightarrow> string option option" where
  "find_name_by_proc file out pid =
     (case out of
        None \<Rightarrow> Some None
      | Some str \<Rightarrow>
          (case file (''/proc/'' @ dec_int pid @ ''/status'') of
             None \<Rightarrow> Some None
           | Some text \<Rightarrow>
               if text = [] then Some None
               else if length (second_word str) < 254 then Some (Some str)
               else None))"

definition check_wan_link :: "int \<Rightarrow> int" where
  "check_wan_link num = 1"

text \<open>\<open>sysprintf\<close> with the formatted text: 255 characters of it go to \<open>system\<close>, here a function of the state of the system.\<close>

definition system2 :: "(string \<Rightarrow> 's \<Rightarrow> int \<times> 's) \<Rightarrow> string \<Rightarrow> 's \<Rightarrow> int \<times> 's" where
  "system2 system command s = system command s"

definition sysprintf :: "(string \<Rightarrow> 's \<Rightarrow> int \<times> 's) \<Rightarrow> string \<Rightarrow> 's \<Rightarrow> int \<times> 's" where
  "sysprintf system text s = system2 system (take 255 text) s"

abbreviation (input) GPIO_SYS_PATH :: string where "GPIO_SYS_PATH \<equiv> ''/sys/class/gpio''"

definition gpio_export :: "(string \<Rightarrow> 's \<Rightarrow> int \<times> 's) \<Rightarrow> int \<Rightarrow> string \<Rightarrow> int \<Rightarrow> 's \<Rightarrow> 's" where
  "gpio_export system gpio dir v s =
     (let s = snd (sysprintf system (''echo \"'' @ dec_int gpio @ ''\" >'' @ GPIO_SYS_PATH @ ''/export'') s) in
      if dir = ''in'' then
        snd (sysprintf system (''echo \"in\" >'' @ GPIO_SYS_PATH @ ''/gpio'' @ dec_int gpio @ ''/direction'') s)
      else
        (let s = snd (sysprintf system (''echo \"out\" >'' @ GPIO_SYS_PATH @ ''/gpio'' @ dec_int gpio @ ''/direction'') s) in
         snd (sysprintf system (''echo \"'' @ dec_int v @ ''\" >'' @ GPIO_SYS_PATH @ ''/gpio'' @ dec_int gpio @ ''/value'') s)))"

definition gpio_unexport :: "(string \<Rightarrow> 's \<Rightarrow> int \<times> 's) \<Rightarrow> int \<Rightarrow> 's \<Rightarrow> 's" where
  "gpio_unexport system gpio s = snd (sysprintf system (''echo \"'' @ dec_int gpio @ ''\" >'' @ GPIO_SYS_PATH @ ''/unexport'') s)"

definition set_gpio_high :: "(string \<Rightarrow> 's \<Rightarrow> int \<times> 's) \<Rightarrow> int \<Rightarrow> 's \<Rightarrow> 's" where
  "set_gpio_high system gpionum s = snd (sysprintf system (''echo \"1\" >'' @ GPIO_SYS_PATH @ ''/gpio'' @ dec_int gpionum @ ''/value'') s)"

definition set_gpio_low :: "(string \<Rightarrow> 's \<Rightarrow> int \<times> 's) \<Rightarrow> int \<Rightarrow> 's \<Rightarrow> 's" where
  "set_gpio_low system gpionum s = snd (sysprintf system (''echo \"0\" >'' @ GPIO_SYS_PATH @ ''/gpio'' @ dec_int gpionum @ ''/value'') s)"

definition get_gpio_level :: "(string \<Rightarrow> 's \<Rightarrow> int \<times> 's) \<Rightarrow> int \<Rightarrow> 's \<Rightarrow> int \<times> 's" where
  "get_gpio_level system gpionum s = sysprintf system (''cat '' @ GPIO_SYS_PATH @ ''/gpio'' @ dec_int gpionum @ ''/value'') s"

section \<open>The tick counter\<close>

text \<open>Seconds and microseconds, as \<open>gettimeofday\<close> stores them, and the division of C, which rounds towards zero. The clock stays in the range in which
  the products below fit a \<open>long\<close>.\<close>

record timeval =
  tv_sec :: int
  tv_usec :: int

definition quot :: "int \<Rightarrow> int \<Rightarrow> int" where
  "quot a b = sgn a * (\<bar>a\<bar> div b)"

definition clktick_init :: "timeval \<Rightarrow> timeval" where
  "clktick_init now = now"

definition get_tick_1khz :: "timeval \<Rightarrow> timeval \<Rightarrow> int" where
  "get_tick_1khz tick_val tv = to_int ((tv_sec tv - tv_sec tick_val) * 1000 + quot (tv_usec tv - tv_usec tick_val) 1000)"

definition get_tick_1hz :: "timeval \<Rightarrow> timeval \<Rightarrow> int" where
  "get_tick_1hz tick_val tv =
     quot (to_int ((tv_sec tv - tv_sec tick_val) * 1000 + quot (tv_usec tv - tv_usec tick_val) 1000)) 1000"

text \<open>\<open>get_sys_date\<close> stores the result of \<open>localtime\<close> into its own copy of the pointer: what the caller passed stays as it is.\<close>

definition get_sys_date :: "'tm \<Rightarrow> 'tm \<Rightarrow> 'tm" where
  "get_sys_date now tm = tm"

section \<open>Starting a program\<close>

text \<open>The calls of the child of \<open>_evalpid\<close>, in order.\<close>

datatype child_call =
  Signal_default nat | Drop_terminal | Close int | Setsid | Open string nat | Dup2 int int | Setenv string string
  | Alarm int | Exec "string list" | Perror string | Exit_errno

abbreviation (input) O_RDONLY :: nat where "O_RDONLY \<equiv> 0"
abbreviation (input) O_WRONLY :: nat where "O_WRONLY \<equiv> 1"
abbreviation (input) O_RDWR :: nat where "O_RDWR \<equiv> 2"
abbreviation (input) O_CREAT :: nat where "O_CREAT \<equiv> 64"
abbreviation (input) O_TRUNC :: nat where "O_TRUNC \<equiv> 512"
abbreviation (input) O_APPEND :: nat where "O_APPEND \<equiv> 1024"

text \<open>The path and the flags of the redirection.\<close>

definition redirect :: "string \<Rightarrow> string \<times> nat" where
  "redirect path =
     (if prefix_of ''>>'' path then (drop 2 path, O_WRONLY + O_CREAT + O_APPEND)
      else if prefix_of ''>'' path then (drop 1 path, O_WRONLY + O_CREAT + O_TRUNC)
      else (path, O_WRONLY + O_CREAT))"

text \<open>The child: \<open>cfd\<close> and \<open>pfd\<close> are the descriptors of the console and of the output; a successful \<open>execvp\<close> does not return.\<close>

definition eval_child :: "int \<Rightarrow> int \<Rightarrow> bool \<Rightarrow> string list \<Rightarrow> string option \<Rightarrow> int \<Rightarrow> child_call list" where
  "eval_child cfd pfd exec_ok argv path timeout =
     map Signal_default [0..<64] @ [Drop_terminal, Close 0, Close 1, Close 2, Setsid, Open ''/dev/console'' O_RDWR] @
     (if cfd < 0 then [Open ''/dev/null'' O_RDONLY, Open ''/dev/null'' O_WRONLY, Open ''/dev/null'' O_WRONLY]
      else [Close cfd, Open ''/dev/console'' O_RDONLY, Open ''/dev/console'' O_WRONLY, Open ''/dev/console'' O_WRONLY]) @
     (case path of
        None \<Rightarrow> []
      | Some path \<Rightarrow>
          (case redirect path of (path, flags) \<Rightarrow>
             Open path flags # (if pfd < 0 then [Perror path] else [Dup2 pfd 1, Close pfd]))) @
     [Setenv ''PATH'' ''/sbin:/bin:/usr/sbin:/usr/bin'', Alarm timeout, Exec argv] @
     (if exec_ok then [] else [Perror (argv ! 0), Exit_errno])"

text \<open>The parent: \<open>fork\<close> gives the number of the child, negative for an error; the result and what is stored through \<open>ppid\<close>.\<close>

definition wait_result :: "u32 \<Rightarrow> int" where
  "wait_result status = (if status AND 0x7F = 0 then uint (drop_bit 8 status AND 0xFF) else sint status)"

definition evalpid :: "int \<Rightarrow> int \<Rightarrow> u32 \<Rightarrow> bool \<Rightarrow> int \<times> int option" where
  "evalpid pid errno status ppid =
     (if pid = -1 then (errno, None)
      else if ppid then (0, Some pid)
      else (wait_result status, None))"

definition eval_run :: "int \<Rightarrow> int \<Rightarrow> bool \<Rightarrow> string list \<Rightarrow> int \<Rightarrow> child_call list" where
  "eval_run cfd pfd exec_ok argv timeout = eval_child cfd pfd exec_ok argv (Some ''>/dev/console'') timeout"

section \<open>Properties\<close>

text \<open>The dotted form of an address.\<close>

definition dotted :: "byte \<Rightarrow> byte \<Rightarrow> byte \<Rightarrow> byte \<Rightarrow> string" where
  "dotted a b c d = dec (unat a) @ ''.'' @ dec (unat b) @ ''.'' @ dec (unat c) @ ''.'' @ dec (unat d)"

lemma unat_byte: "unat (x :: byte) < 2 ^ 31"
  using unsigned_less [of x, where ?'a = nat] by simp

lemma scan_dotted: "scan_dots 4 (dotted a b c d) = [int (unat a), int (unat b), int (unat c), int (unat d)]"
proof -
  have e: "scan_dots (Suc k) (dec (unat x)) = [int (unat x)]" for k and x :: byte
    using scan_dots_dec [OF unat_byte, of "[]" k x] by simp
  have s: "scan_dots (Suc k) (dec (unat x) @ CHR ''.'' # r) = int (unat x) # scan_dots k r" for k r and x :: byte
    using scan_dots_dec [OF unat_byte, of "CHR ''.'' # r" k x] by (simp add: is_digit_def)
  show ?thesis
    unfolding dotted_def by (simp add: numeral_eq_Suc s e del: scan_dots.simps)
qed

lemma mask_test_byte: "n < 8 \<Longrightarrow> mask_test (uint x) n = of_bool (bit x n)" for x :: byte
  by (simp add: mask_test_def bit_simps)

lemma bit_be32:
  "bit (be32 a b c d) n \<longleftrightarrow>
     (if n < 8 then bit d n else if n < 16 then bit c (n - 8) else if n < 24 then bit b (n - 16) else bit a (n - 24))"
  by (auto simp: be32_def bit_simps dest: bit_imp_le_length)

lemma card_bits: "card {n. bit w n} = (\<Sum>n<32. of_bool (bit w n))" for w :: u32
proof -
  have "{n. bit w n} = {n \<in> {..<32}. bit w n}"
    by (auto dest: bit_imp_le_length)
  then show ?thesis
    by (simp add: sum.inter_filter [symmetric] of_bool_def)
qed

lemma mask_loop_sum:
  "mask_loop n ip m = m + (\<Sum>i<n. mask_test (ip ! 0) i + mask_test (ip ! 1) i + mask_test (ip ! 2) i + mask_test (ip ! 3) i)"
  by (induction n arbitrary: m) simp_all

lemma sum_concat: "(\<Sum>i<m + k. f i) = (\<Sum>i<m. f i) + (\<Sum>i<k. f (m + i))" for f :: "nat \<Rightarrow> nat"
  by (induction k) (simp_all add: add.assoc)

lemma popcount_octets: "card {n. bit (be32 a b c d) n} = (\<Sum>i<8. of_bool (bit a i) + of_bool (bit b i) + of_bool (bit c i) + of_bool (bit d i))"
proof -
  let ?f = "\<lambda>n. of_bool (bit (be32 a b c d) n) :: nat"
  have "(\<Sum>n<32. ?f n) = (\<Sum>n<8. ?f n) + (\<Sum>n<8. ?f (8 + n)) + (\<Sum>n<8. ?f (16 + n)) + (\<Sum>n<8. ?f (24 + n))"
    using sum_concat [of ?f 8 24] sum_concat [of "\<lambda>n. ?f (8 + n)" 8 16] sum_concat [of "\<lambda>n. ?f (16 + n)" 8 8] by simp
  also have "\<dots> = (\<Sum>n<8. of_bool (bit d n)) + (\<Sum>n<8. of_bool (bit c n)) + (\<Sum>n<8. of_bool (bit b n)) + (\<Sum>n<8. of_bool (bit a n))"
    by (intro arg_cong2 [where f = "(+)"] sum.cong refl) (simp_all add: bit_be32)
  finally show ?thesis
    by (simp add: card_bits sum.distrib)
qed

text \<open>\<open>getmask\<close> counts the bits of a netmask. For the dotted form of any four octets the loop that tests one bit of all octets per round
  yields the number of ones in the 32-bit mask they make up.\<close>

theorem getmask_popcount: "getmask (dotted a b c d) = int (card {n. bit (be32 a b c d) n})"
proof -
  have "getmask (dotted a b c d) = mask_loop 8 [int (unat a), int (unat b), int (unat c), int (unat d)] 0"
    by (simp add: getmask_def scan_dotted)
  also have "\<dots> = (\<Sum>i<8. of_bool (bit a i) + of_bool (bit b i) + of_bool (bit c i) + of_bool (bit d i))"
    unfolding mask_loop_sum add_0 by (intro sum.cong refl) (simp add: mask_test_byte)
  also have "\<dots> = int (card {n. bit (be32 a b c d) n})"
    unfolding popcount_octets by simp
  finally show ?thesis .
qed

text \<open>\<open>get_ifname\<close> writes at most \<open>nsize\<close> characters, and what it finds is the text in front of the first colon and blank.\<close>

lemma get_ifname_bounded:
  assumes "0 \<le> nsize" "nat nsize \<le> length name"
  shows "\<exists>found name'. get_ifname name nsize buf = Some (found, name') \<and> length name' = length name \<and> drop (nat nsize) name' = drop (nat nsize) name"
proof (cases "strstr (dropWhile is_space buf) '': ''")
  case (Some e)
  have l: "e \<le> length s" if "strstr s p = Some e" for s p
    using that by (induction s arbitrary: e) (auto split: if_splits)
  have "take e (dropWhile is_space buf) = take e (dropWhile is_space buf) @ []" "length (take e (dropWhile is_space buf)) = e"
    using l [OF Some] by simp_all
  then show ?thesis
    using Some assms by (auto simp: get_ifname_def Let_def drop_Cons' nat_le_iff)
qed (auto simp: get_ifname_def)

text \<open>Whatever the files contain, \<open>get_ppp_pid\<close> finds no process.\<close>

lemma get_ppp_pid_useless: "get_ppp_pid fopen file \<in> {0, -1}"
  by (simp add: get_ppp_pid_def file_to_buf_def cstr_def atoi_def strtol_def to_int_def)

text \<open>A device name of eight characters does not fit the command of \<open>get_eth_link\<close>.\<close>

lemma get_eth_link_overflow: "8 \<le> length name \<Longrightarrow> get_eth_link popen name = None"
  by (simp add: get_eth_link_def sprintf_def)

text \<open>The tick counters are exact for 24 days; after 2147484 seconds the count of seconds is negative.\<close>

lemma get_tick_exact:
  assumes "0 \<le> tv_usec tv - tv_usec t0" "0 \<le> tv_sec tv - tv_sec t0" "tv_sec tv - tv_sec t0 < 2147483" "tv_usec tv < 1000000" "0 \<le> tv_usec t0"
  shows "get_tick_1hz t0 tv = tv_sec tv - tv_sec t0"
proof -
  define s where "s = tv_sec tv - tv_sec t0"
  define u where "u = tv_usec tv - tv_usec t0"
  have r: "0 \<le> s" "s < 2147483" "0 \<le> u" "u < 1000000"
    using assms by (simp_all add: s_def u_def)
  then have q: "quot u 1000 = u div 1000" "0 \<le> u div 1000" "u div 1000 < 1000"
    by (auto simp: quot_def sgn_if)
  have "to_int (s * 1000 + u div 1000) = s * 1000 + u div 1000"
    using r q by (intro to_int_id) auto
  moreover have "quot (s * 1000 + u div 1000) 1000 = s"
    using r q by (auto simp: quot_def sgn_if)
  ultimately show ?thesis
    unfolding get_tick_1hz_def using q(1) by (simp add: s_def u_def)
qed

lemma get_tick_wraps: "get_tick_1hz \<lparr>tv_sec = 0, tv_usec = 0\<rparr> \<lparr>tv_sec = 2147484, tv_usec = 0\<rparr> < 0"
  by (simp add: get_tick_1hz_def quot_def to_int_def)

end
