(* ===== verification/Shm.thy ===== *)
theory Shm
  imports Prelude
begin

text \<open>
  Shared memory segments (\<open>misaka/lib/shm.c\<close>) and the signal handler of \<open>misaka/lib/core.c\<close> that removes one.

  Addresses are integers, 0 is NULL, and \<open>shmat\<close> answers -1 for an error. The fields that \<open>shm_new\<close> does not set are \<open>None\<close>
  until they are set. The answers of the system calls are arguments.
\<close>

record shmhandle =
  sh_mem :: "int option"
  sh_size :: int
  sh_key :: int
  sh_running :: int
  sh_shmid :: "int option"

definition shm_new :: "bool \<Rightarrow> int \<Rightarrow> int \<Rightarrow> shmhandle option" where
  "shm_new alloc key sz =
     (if \<not> alloc then None
      else Some \<lparr>sh_mem = None, sh_size = sz, sh_key = key, sh_running = 0, sh_shmid = None\<rparr>)"

definition shm_open :: "int \<Rightarrow> int \<Rightarrow> shmhandle \<Rightarrow> int \<times> shmhandle" where
  "shm_open shmget shmat handle =
     (if shmget < 0 then (0, handle)
      else if shmat = 0 then (0, handle)
      else (shmat, handle\<lparr>sh_shmid := Some shmget, sh_mem := Some shmat, sh_running := 1\<rparr>))"

definition shm_close :: "int \<Rightarrow> int \<Rightarrow> shmhandle \<Rightarrow> (int \<times> shmhandle) option" where
  "shm_close shmdt shmctl handle = do {
     mem \<leftarrow> sh_mem handle;
     if mem = 0 then Some (0, handle)
     else if shmdt < 0 then Some (-1, handle)
     else do {
       shmid \<leftarrow> sh_shmid handle;
       if shmctl < 0 then Some (-2, handle)
       else Some (0, handle\<lparr>sh_running := 0, sh_mem := Some 0\<rparr>)
     }
   }"

text \<open>\<open>shm_delete\<close>: the handle is gone (the inner \<open>None\<close>) when it was freed.\<close>

definition shm_delete :: "int \<Rightarrow> int \<Rightarrow> shmhandle \<Rightarrow> (int \<times> shmhandle option) option" where
  "shm_delete shmdt shmctl handle = do {
     (ret, handle) \<leftarrow> shm_close shmdt shmctl handle;
     Some (if ret < 0 then (-1, Some handle) else (0, None))
   }"

text \<open>The signal handler: whether the process exits, and the pointer \<open>misaka_servant.shm\<close>.\<close>

definition sighandle :: "int \<Rightarrow> int \<Rightarrow> int \<Rightarrow> shmhandle option \<Rightarrow> (bool \<times> shmhandle option) option" where
  "sighandle shmdt shmctl num shm =
     (if num \<in> {1, 2, 9} then
        (case shm of
           None \<Rightarrow> Some (True, None)
         | Some handle \<Rightarrow> do { r \<leftarrow> shm_delete shmdt shmctl handle; Some (True, None) })
      else Some (False, shm))"

text \<open>A segment that was opened can be closed, after which closing it again does nothing.\<close>

lemma shm_open_close:
  assumes "shm_open i at h = (m, h')" "m \<noteq> 0" "0 \<le> dt" "0 \<le> ctl"
  shows "\<exists>h''. shm_close dt ctl h' = Some (0, h'') \<and> sh_running h'' = 0 \<and> (\<forall>dt ctl. shm_close dt ctl h'' = Some (0, h''))"
  using assms by (auto simp: shm_open_def shm_close_def split: if_splits)

text \<open>The failure of \<open>shmat\<close> is taken for an address.\<close>

lemma shm_open_failed_attach: "0 \<le> i \<Longrightarrow> shm_open i (-1) h = (-1, h\<lparr>sh_shmid := Some i, sh_mem := Some (-1), sh_running := 1\<rparr>)"
  by (simp add: shm_open_def)

text \<open>A handle that was never opened cannot be closed: its \<open>mem\<close> is indeterminate.\<close>

lemma shm_close_unopened: "shm_new alloc key sz = Some h \<Longrightarrow> shm_close dt ctl h = None"
  by (auto simp: shm_new_def shm_close_def split: if_splits)

end
