(* ===== verification/Client.thy ===== *)
theory Client
  imports Network
begin

text \<open>
  The load-test client \<open>tool/client.c\<close>: it sends a file through a connection in blocks of 256 bytes and stores what comes back.

  The system calls are a record of functions of the state \<open>'s\<close> of the system. \<open>read\<close> and \<open>write\<close> retry after every error, so the loops may run for
  ever: they are partial functions, and \<open>None\<close> means that they do not return.
\<close>

record 's calls =
  k_read :: "int \<Rightarrow> nat \<Rightarrow> 's \<Rightarrow> sysread \<times> 's"
  k_write :: "int \<Rightarrow> byte list \<Rightarrow> 's \<Rightarrow> syswrite \<times> 's"
  k_close :: "int \<Rightarrow> 's \<Rightarrow> 's"

text \<open>The loop of \<open>read_block\<close> with the bytes \<open>buf\<close> read so far; the result is these bytes and the flag \<open>end\<close>.\<close>

partial_function (option) read_loop :: "'s calls \<Rightarrow> int \<Rightarrow> nat \<Rightarrow> byte list \<Rightarrow> 's \<Rightarrow> (byte list \<times> bool \<times> 's) option" where
  "read_loop k fd nbytes buf s =
     (if length buf = nbytes then Some (buf, False, s)
      else (case k_read k fd (nbytes - length buf) s of
              (Got bs, s) \<Rightarrow>
                if bs = [] then Some (buf, True, k_close k fd s) else read_loop k fd nbytes (buf @ bs) s
            | (Fail e, s) \<Rightarrow> read_loop k fd nbytes buf s))"

definition read_block :: "'s calls \<Rightarrow> int \<Rightarrow> nat \<Rightarrow> 's \<Rightarrow> (byte list \<times> bool \<times> 's) option" where
  "read_block k fd nbytes s = read_loop k fd nbytes [] s"

text \<open>The loop of \<open>write_block\<close> with the bytes that are left; \<open>tot\<close> have been written.\<close>

partial_function (option) write_loop :: "'s calls \<Rightarrow> int \<Rightarrow> byte list \<Rightarrow> nat \<Rightarrow> 's \<Rightarrow> (nat \<times> 's) option" where
  "write_loop k fd buf tot s =
     (if buf = [] then Some (tot, s)
      else (case k_write k fd buf s of
              (Wrote n, s) \<Rightarrow> write_loop k fd (drop n buf) (tot + n) s
            | (WFail e, s) \<Rightarrow> write_loop k fd buf tot s))"

definition write_block :: "'s calls \<Rightarrow> int \<Rightarrow> byte list \<Rightarrow> 's \<Rightarrow> (nat \<times> 's) option" where
  "write_block k fd buf s = write_loop k fd buf 0 s"

text \<open>The loop of \<open>test_main\<close>: read a block of the file, send it, read as many bytes back and store them.\<close>

partial_function (option) test_loop :: "'s calls \<Rightarrow> int \<Rightarrow> int \<Rightarrow> int \<Rightarrow> 's \<Rightarrow> 's option" where
  "test_loop k s_fd sockfd w_fd s = do {
     (data, endf, s) \<leftarrow> read_block k s_fd 256 s;
     (data_len, s) \<leftarrow> write_block k sockfd data s;
     (back, ends, s) \<leftarrow> read_block k sockfd data_len s;
     (n, s) \<leftarrow> write_block k w_fd back s;
     if endf then Some (k_close k sockfd (k_close k w_fd (k_close k s_fd s)))
     else test_loop k s_fd sockfd w_fd s
   }"

text \<open>\<open>tcp_server_creat\<close> over the answers of \<open>socket\<close>, \<open>inet_aton\<close> and \<open>connect\<close>: a failed \<open>connect\<close> is only reported.\<close>

definition tcp_server_creat :: "int \<Rightarrow> int \<Rightarrow> int \<Rightarrow> int" where
  "tcp_server_creat sock aton connect = (if sock < 0 then -1 else if aton < 0 then 0 else sock)"

text \<open>\<open>test_main\<close>: how it ends. The descriptors are the answers of the calls that open them.\<close>

datatype 's test_end = Exits | Returns 's

definition test_main :: "'s calls \<Rightarrow> int \<Rightarrow> int \<times> int \<times> int \<Rightarrow> int \<Rightarrow> 's \<Rightarrow> 's test_end option" where
  "test_main k w_fd tcp s_fd s =
     (if w_fd < 0 then Some Exits
      else (case tcp of (sock, aton, connect) \<Rightarrow>
        let sockfd = tcp_server_creat sock aton connect in
        if sockfd < 0 then Some (Returns s)
        else if s_fd < 0 then Some (Returns s)
        else map_option Returns (test_loop k s_fd sockfd w_fd s)))"

section \<open>What the calls promise\<close>

text \<open>
  Reading from a descriptor takes a non-empty piece from the front of the bytes \<open>view\<close> that are there, and nothing only when there are none; it leaves
  the rest of the system, \<open>keep\<close>, alone. An end of the bytes can be asked for only on a file (\<open>eof\<close>). Errors may occur, but not for
  ever: \<open>pat\<close> bounds their number.
\<close>

definition read_law :: "'s calls \<Rightarrow> int \<Rightarrow> bool \<Rightarrow> ('s \<Rightarrow> byte list) \<Rightarrow> ('s \<Rightarrow> 'k) \<Rightarrow> ('s \<Rightarrow> nat) \<Rightarrow> bool" where
  "read_law k fd eof view keep pat \<longleftrightarrow> (\<forall>n s. 0 < n \<and> (eof \<or> view s \<noteq> []) \<longrightarrow>
     (case k_read k fd n s of
        (Got bs, s') \<Rightarrow> length bs \<le> n \<and> view s = bs @ view s' \<and> (bs = [] \<longrightarrow> view s = []) \<and> keep s' = keep s \<and> pat s' \<le> pat s
      | (Fail e, s') \<Rightarrow> view s' = view s \<and> keep s' = keep s \<and> pat s' < pat s))"

text \<open>Writing appends a non-empty part of the bytes.\<close>

definition write_law :: "'s calls \<Rightarrow> int \<Rightarrow> ('s \<Rightarrow> byte list) \<Rightarrow> ('s \<Rightarrow> 'k) \<Rightarrow> ('s \<Rightarrow> nat) \<Rightarrow> bool" where
  "write_law k fd view keep pat \<longleftrightarrow> (\<forall>bs s. bs \<noteq> [] \<longrightarrow>
     (case k_write k fd bs s of
        (Wrote n, s') \<Rightarrow> 0 < n \<and> n \<le> length bs \<and> view s' = view s @ take n bs \<and> keep s' = keep s \<and> pat s' \<le> pat s
      | (WFail e, s') \<Rightarrow> view s' = view s \<and> keep s' = keep s \<and> pat s' < pat s))"

definition close_law :: "'s calls \<Rightarrow> ('s \<Rightarrow> 'k) \<Rightarrow> ('s \<Rightarrow> nat) \<Rightarrow> bool" where
  "close_law k all pat \<longleftrightarrow> (\<forall>fd s. all (k_close k fd s) = all s \<and> pat (k_close k fd s) \<le> pat s)"

lemma read_lawE:
  assumes "read_law k fd eof view keep pat" "0 < n" "eof \<or> view s \<noteq> []"
  obtains (got) bs s1 where "k_read k fd n s = (Got bs, s1)" "length bs \<le> n" "view s = bs @ view s1" "bs = [] \<longrightarrow> view s = []" "keep s1 = keep s" "pat s1 \<le> pat s"
  | (fail) e s1 where "k_read k fd n s = (Fail e, s1)" "view s1 = view s" "keep s1 = keep s" "pat s1 < pat s"
  using assms(1) [unfolded read_law_def, rule_format, of n s] assms(2,3)
  by (cases "k_read k fd n s"; cases "fst (k_read k fd n s)") auto

lemma write_lawE:
  assumes "write_law k fd view keep pat" "bs \<noteq> []"
  obtains (wrote) n s1 where "k_write k fd bs s = (Wrote n, s1)" "0 < n" "n \<le> length bs" "view s1 = view s @ take n bs" "keep s1 = keep s" "pat s1 \<le> pat s"
  | (fail) e s1 where "k_write k fd bs s = (WFail e, s1)" "view s1 = view s" "keep s1 = keep s" "pat s1 < pat s"
  using assms(1) [unfolded write_law_def, rule_format, of bs s] assms(2)
  by (cases "k_write k fd bs s"; cases "fst (k_write k fd bs s)") auto

text \<open>The outcome of \<open>read_loop\<close>, as a predicate of the state it starts in.\<close>

definition reads :: "'s calls \<Rightarrow> int \<Rightarrow> ('s \<Rightarrow> byte list) \<Rightarrow> ('s \<Rightarrow> 'k) \<Rightarrow> ('s \<Rightarrow> nat) \<Rightarrow> nat \<Rightarrow> byte list \<Rightarrow> 's \<Rightarrow> bool" where
  "reads k fd view keep pat nbytes buf s \<longleftrightarrow> (\<exists>s'.
     read_loop k fd nbytes buf s = Some (buf @ take (nbytes - length buf) (view s), length (view s) < nbytes - length buf, s') \<and>
     view s' = drop (nbytes - length buf) (view s) \<and> keep s' = keep s \<and> pat s' \<le> pat s)"

lemma reads_end:
  assumes "length buf < nbytes" "k_read k fd (nbytes - length buf) s = (Got [], s1)" "view s1 = view s" "view s = []" "keep s1 = keep s" "pat s1 \<le> pat s"
    and "close_law k (\<lambda>s. (view s, keep s)) pat"
  shows "reads k fd view keep pat nbytes buf s"
proof -
  have "view (k_close k fd s1) = view s1" "keep (k_close k fd s1) = keep s1" "pat (k_close k fd s1) \<le> pat s1"
    using assms(7) by (simp_all add: close_law_def)
  then show ?thesis
    using assms(1-6) unfolding reads_def by (subst read_loop.simps) (auto intro: order_trans)
qed

lemma reads_got:
  assumes "length buf < nbytes" "k_read k fd (nbytes - length buf) s = (Got bs, s1)" "bs \<noteq> []" "length bs \<le> nbytes - length buf"
    and "view s = bs @ view s1" "keep s1 = keep s" "pat s1 \<le> pat s" "reads k fd view keep pat nbytes (buf @ bs) s1"
  shows "reads k fd view keep pat nbytes buf s"
proof -
  let ?n = "nbytes - length buf"
  obtain s' where "read_loop k fd nbytes (buf @ bs) s1 = Some ((buf @ bs) @ take (?n - length bs) (view s1), length (view s1) < ?n - length bs, s')"
      "view s' = drop (?n - length bs) (view s1)" "keep s' = keep s1" "pat s' \<le> pat s1"
    using assms(8) by (auto simp: reads_def)
  then show ?thesis
    using assms(1-7) unfolding reads_def by (subst read_loop.simps) auto
qed

lemma read_loop_ok:
  assumes law: "read_law k fd eof view keep pat" "close_law k (\<lambda>s. (view s, keep s)) pat"
  shows "length buf \<le> nbytes \<Longrightarrow> eof \<or> nbytes - length buf \<le> length (view s) \<Longrightarrow> reads k fd view keep pat nbytes buf s"
proof (induction "nbytes - length buf + pat s" arbitrary: buf s rule: less_induct)
  case less
  let ?n = "nbytes - length buf"
  show ?case
  proof (cases "length buf = nbytes")
    case True
    then show ?thesis
      by (simp add: reads_def read_loop.simps)
  next
    case False
    have n: "0 < ?n" "eof \<or> view s \<noteq> []" "length buf < nbytes"
      using False less.prems by auto
    from law(1) n(1,2) show ?thesis
    proof (cases rule: read_lawE)
      case (got bs s1)
      show ?thesis
      proof (cases "bs = []")
        case True
        then show ?thesis
          using got n(3) law(2) by (intro reads_end [of buf nbytes k fd s s1]) auto
      next
        case ne: False
        then have "nbytes - length (buf @ bs) + pat s1 < ?n + pat s"
          using got(2,6) by (cases bs) auto
        moreover have "length (buf @ bs) \<le> nbytes" "eof \<or> nbytes - length (buf @ bs) \<le> length (view s1)"
          using less.prems got(2,3) by auto
        ultimately have "reads k fd view keep pat nbytes (buf @ bs) s1"
          by (rule less.hyps)
        then show ?thesis
          using got ne n(3) by (intro reads_got [of buf nbytes k fd s bs s1]) auto
      qed
    next
      case (fail e s1)
      have "?n + pat s1 < ?n + pat s"
        using fail(4) by simp
      then have "reads k fd view keep pat nbytes buf s1"
        using less.hyps [of buf s1] less.prems fail(2) by simp
      then show ?thesis
        using fail n(3) unfolding reads_def by (subst read_loop.simps) auto
    qed
  qed
qed

lemma write_loop_ok:
  assumes law: "write_law k fd view keep pat"
  shows "\<exists>s'. write_loop k fd bs tot s = Some (tot + length bs, s') \<and> view s' = view s @ bs \<and> keep s' = keep s \<and> pat s' \<le> pat s"
proof (induction "length bs + pat s" arbitrary: bs tot s rule: less_induct)
  case less
  show ?case
  proof (cases "bs = []")
    case True
    then show ?thesis
      by (simp add: write_loop.simps)
  next
    case False
    from law False show ?thesis
    proof (cases rule: write_lawE [where s = s])
      case (wrote n s1)
      then have "length (drop n bs) + pat s1 < length bs + pat s"
        by auto
      from less.hyps [OF this, of "tot + n"] show ?thesis
        using wrote False by (subst write_loop.simps) auto
    next
      case (fail e s1)
      then have "length bs + pat s1 < length bs + pat s"
        by simp
      from less.hyps [OF this, of tot] show ?thesis
        using fail False by (subst write_loop.simps) auto
    qed
  qed
qed

section \<open>The client copies the file\<close>

text \<open>An echoing connection: what is sent can be read back in order. \<open>file\<close> is what is left of the file, \<open>line\<close> what was sent and not yet read back,
  and \<open>out\<close> what was stored.\<close>

definition echo_calls :: "'s calls \<Rightarrow> int \<Rightarrow> int \<Rightarrow> int \<Rightarrow> ('s \<Rightarrow> byte list) \<Rightarrow> ('s \<Rightarrow> byte list) \<Rightarrow> ('s \<Rightarrow> byte list) \<Rightarrow> ('s \<Rightarrow> nat) \<Rightarrow> bool" where
  "echo_calls k s_fd sockfd w_fd file line out pat \<longleftrightarrow>
     read_law k s_fd True file (\<lambda>s. (line s, out s)) pat \<and> write_law k sockfd line (\<lambda>s. (file s, out s)) pat \<and>
     read_law k sockfd False line (\<lambda>s. (file s, out s)) pat \<and> write_law k w_fd out (\<lambda>s. (file s, line s)) pat \<and>
     close_law k (\<lambda>s. (file s, line s, out s)) pat"

lemma echo_close:
  assumes "echo_calls k s_fd sockfd w_fd file line out pat"
  shows "file (k_close k fd s) = file s" "line (k_close k fd s) = line s" "out (k_close k fd s) = out s"
  using assms by (simp_all add: echo_calls_def close_law_def)

text \<open>One round: the next block of the file goes through the connection to the output.\<close>

lemma test_round:
  assumes law: "echo_calls k s_fd sockfd w_fd file line out pat" and "line s = []"
  obtains s4 where "line s4 = []" "out s4 = out s @ take 256 (file s)" "file s4 = drop 256 (file s)"
    "test_loop k s_fd sockfd w_fd s = (if length (file s) < 256 then Some (k_close k sockfd (k_close k w_fd (k_close k s_fd s4))) else test_loop k s_fd sockfd w_fd s4)"
proof -
  have l: "read_law k s_fd True file (\<lambda>s. (line s, out s)) pat" "close_law k (\<lambda>s. (file s, line s, out s)) pat"
      "write_law k sockfd line (\<lambda>s. (file s, out s)) pat" "read_law k sockfd False line (\<lambda>s. (file s, out s)) pat"
      "close_law k (\<lambda>s. (line s, file s, out s)) pat" "write_law k w_fd out (\<lambda>s. (file s, line s)) pat"
    using law by (auto simp: echo_calls_def close_law_def)
  define d where "d = take 256 (file s)"
  obtain s1 where 1: "read_block k s_fd 256 s = Some (d, length (file s) < 256, s1)" "file s1 = drop 256 (file s)" "line s1 = []" "out s1 = out s"
    using read_loop_ok [OF l(1,2), of "[]" 256 s] assms(2) by (auto simp: reads_def read_block_def d_def)
  obtain s2 where 2: "write_block k sockfd d s1 = Some (length d, s2)" "line s2 = d" "file s2 = file s1" "out s2 = out s1"
    using write_loop_ok [OF l(3), of d 0 s1] 1(3) by (auto simp: write_block_def)
  obtain s3 where 3: "read_block k sockfd (length d) s2 = Some (d, False, s3)" "line s3 = []" "file s3 = file s2" "out s3 = out s2"
    using read_loop_ok [OF l(4,5), of "[]" "length d" s2] 2(2) by (auto simp: reads_def read_block_def)
  obtain s4 where 4: "write_block k w_fd d s3 = Some (length d, s4)" "out s4 = out s3 @ d" "file s4 = file s3" "line s4 = line s3"
    using write_loop_ok [OF l(6), of d 0 s3] by (auto simp: write_block_def)
  have "test_loop k s_fd sockfd w_fd s = (if length (file s) < 256 then Some (k_close k sockfd (k_close k w_fd (k_close k s_fd s4))) else test_loop k s_fd sockfd w_fd s4)"
    using 1(1) 2(1) 3(1) 4(1) by (subst test_loop.simps) simp
  then show thesis
    using 1 2 3 4 by (intro that [of s4]) (simp_all add: d_def)
qed

text \<open>C40: The client copies the file. Over a connection that echoes, whatever pieces the calls transfer and as long as errors do not go on for ever, the client
  ends, and what it has stored is the file.\<close>

theorem client_copies:
  assumes "echo_calls k s_fd (tcp_server_creat sock aton con) w_fd file line out pat" "line s = []"
    and "0 \<le> w_fd" "0 \<le> s_fd" "0 \<le> sock"
  shows "\<exists>s'. test_main k w_fd (sock, aton, con) s_fd s = Some (Returns s') \<and> out s' = out s @ file s"
proof -
  let ?t = "tcp_server_creat sock aton con"
  have "\<exists>s'. test_loop k s_fd ?t w_fd s = Some s' \<and> out s' = out s @ file s"
    using assms(2)
  proof (induction "length (file s)" arbitrary: s rule: less_induct)
    case less
    obtain s4 where 4: "line s4 = []" "out s4 = out s @ take 256 (file s)" "file s4 = drop 256 (file s)"
      "test_loop k s_fd ?t w_fd s = (if length (file s) < 256 then Some (k_close k ?t (k_close k w_fd (k_close k s_fd s4))) else test_loop k s_fd ?t w_fd s4)"
      using test_round [OF assms(1) less.prems] by metis
    show ?case
    proof (cases "length (file s) < 256")
      case True
      then show ?thesis
        using 4 echo_close [OF assms(1)] by simp
    next
      case False
      then show ?thesis
        using less.hyps [of s4] 4 by auto
    qed
  qed
  moreover have "0 \<le> ?t"
    using assms(5) by (simp add: tcp_server_creat_def)
  ultimately show ?thesis
    using assms(3,4) by (auto simp: test_main_def)
qed

text \<open>A system for the witness: the bytes of the file, of the connection and of the output, transferred one at a time.\<close>

definition demo_calls :: "(byte list \<times> byte list \<times> byte list) calls" where
  "demo_calls = \<lparr>
     k_read = (\<lambda>fd n (f, l, w). if fd = 3 then (Got (take 1 f), drop 1 f, l, w) else (Got (take 1 l), f, drop 1 l, w)),
     k_write = (\<lambda>fd bs (f, l, w). if fd = 4 then (Wrote 1, f, l @ take 1 bs, w) else (Wrote 1, f, l, w @ take 1 bs)),
     k_close = (\<lambda>fd s. s)\<rparr>"

lemma demo_echo: "echo_calls demo_calls 3 4 5 fst (fst \<circ> snd) (snd \<circ> snd) (\<lambda>s. 0)"
  by (auto simp: echo_calls_def read_law_def write_law_def close_law_def demo_calls_def Suc_le_eq)

theorem client_copies_witness:
  "\<exists>s'. test_main demo_calls 5 (4, 1, 0) 3 ([1, 2, 3], [], []) = Some (Returns s') \<and> snd (snd s') = [1, 2, 3]"
  using client_copies [of demo_calls 3 4 1 0 5 fst "fst \<circ> snd" "snd \<circ> snd" "\<lambda>s. 0" "([1, 2, 3], [], [])"] demo_echo
  by (simp add: tcp_server_creat_def)

end
