(* ===== verification/Spec2Isabelle.thy ===== *)
theory Spec2Isabelle
  imports Vector Release Program Polling Thpool Kmem Rwlock Spinlock Sysinfo Shm Client
begin

text \<open>
  A verification development of the misaka server framework (directory \<open>src/misaka\<close>).

  \<^bold>\<open>The program.\<close> Misaka is an event-driven server. The event loop (libev) calls the handlers of
  \<open>lib/core.c\<close>: \<open>misaka_read\<close> reads from a peer through its link (\<open>link/*.c\<close>) into its read buffer (\<open>lib/stream.c\<close>), the
  parser (\<open>parser/normal_parser.c\<close>) cuts packets out of it, and a packet for this node is cloned and put into the
  message queue of its task (\<open>lib/skynet_mq.c\<close>). Threads of a pool (\<open>lib/thpool.c\<close>) run \<open>worker\<close>: they take a
  queue from the queue of queues and give its packets to the plugin of the task. A plugin sends a packet on by changing
  its type: to another task, or into the network queue, which the event loop polls; \<open>misaka_packet_route\<close> looks up the
  peer in a hash table (\<open>lib/hash.c\<close>), packs the packet and appends it to the output fifo, which \<open>misaka_write\<close> sends.
  Timers wait in a timing wheel (\<open>lib/timer.c\<close>). Lists, vectors, identifiers and addresses are in
  \<open>lib/linklist.c\<close>, \<open>lib/vector.c\<close>, \<open>lib/idmaker.c\<close> and \<open>lib/sockunion.c\<close>. The library also holds parts that the server is built
  with but calls little or not at all: object caches (\<open>lib/kmem.c\<close>), shared memory (\<open>lib/shm.c\<close>), a readers-writer lock
  (\<open>include/rwlock.h\<close>) and system utilities (\<open>lib/common.c\<close>).

  \<^bold>\<open>Conventions.\<close> C integers are words of their width, or \<open>int\<close> where the code stays inside the range and the
  range is checked. A \<open>struct\<close> is a record with the fields of the source. Pointers are addresses into explicit stores.
  An operation returns \<open>None\<close> exactly when the C function has undefined behaviour: a NULL or freed pointer is
  dereferenced, an index is outside its array, a signed addition overflows, an indeterminate value is
  used. Errors the code reports are values. What malloc, the kernel, libev, Lua, Python and shared objects answer is a
  parameter, so the theorems hold for every answer unless a hypothesis says otherwise. Loops are structural or have a
  termination proof; \<open>partial_function (option)\<close> is used where a corrupted chain could be cyclic, and there \<open>None\<close> also
  means that the loop does not end, so a theorem with a \<open>Some\<close> result includes termination.

  \<^bold>\<open>The theories.\<close>
  \<^item> \<open>Prelude\<close>: types, byte access, big-endian words, the \<open>post\<close> rules for option computations.
  \<^item> \<open>Queues\<close>: linked paths and the interface of a fifo queue as a locale, with its law for sequences of operations.
  \<^item> \<open>Memory\<close>, \<open>Network\<close>: allocation wrappers; \<open>readn\<close>, \<open>writen\<close>, \<open>set_nonblocking\<close>.
  \<^item> \<open>Release\<close>: \<open>misakafree\<close> and the functions of the containers that only give their memory back.
  \<^item> \<open>Stream\<close>: the packet buffer. Every sequence of calls stays inside the data segment; round trips of the integers.
  \<^item> \<open>Fifo\<close>: the chain of packets as a queue (\<open>interpretation pfifo\<close>).
  \<^item> \<open>Mq\<close>: rings and the global queue, both interpretations of the fifo queue locale; release of a queue.
  \<^item> \<open>Sched\<close>: the workers. In every interleaving each queue is scheduled once or held by one worker, no message
    is lost or duplicated and every call is defined; and a run in which a queued message is left without a worker.
  \<^item> \<open>Timer\<close>: the wheel refines the specification that every timer fires at its time, also across the wrap of the counter.
  \<^item> \<open>Linklist\<close>, \<open>Vector\<close>, \<open>Hash\<close>, \<open>Idmaker\<close>: the containers, each against its abstract value. \<open>Hash\<close> states what a client
    must know about keys as a locale.
  \<^item> \<open>Sockunion\<close>: addresses; printing and parsing are inverse, the comparison is a total order.
  \<^item> \<open>Peer\<close>, \<open>Parser\<close>, \<open>World\<close>: the peer structure, the wire format, the global state and the life of a peer. The
    peer table is a map (the hash interface interpreted on peers).
  \<^item> \<open>Links\<close>: the four links. What is written is what the fifo holds; what is read is what the kernel delivered.
  \<^item> \<open>Core\<close>, \<open>Server\<close>: the handlers, plugin loading, start, and the step relation of the running server.
  \<^item> \<open>Shutdown\<close>, \<open>Boot\<close>, \<open>Echo\<close>: properties of the composed server: what \<open>core_init\<close> establishes, the way of a
    packet through read handler, queue, worker, plugin and route, and what happens when a connection is reset.
  \<^item> \<open>Frame\<close>, \<open>Composition\<close>, \<open>Program\<close>: the scheduler inside the server. \<open>Frame\<close> shows which handlers leave the queues, plugins and
    timers alone; \<open>Composition\<close> hides the queues the event loop polls and carries the invariant of \<open>Sched\<close> through every handler and worker
    turn; \<open>Program\<close> shows that \<open>main\<close> of the echo application starts and establishes it, so that the packets are served one at a time.
  \<^item> \<open>Polling\<close>: the queue of the timers, which the workers and the event loop both consume, can be held twice.
  \<^item> \<open>Thpool\<close>: the thread pool, its job queue (an interpretation of the fifo queue locale) and the binary semaphore. In every
    interleaving of the threads and the user the jobs run in order, no wake-up is lost, \<open>thpool_wait\<close> waits for all of them and
    \<open>thpool_destroy\<close> frees what is left.
  \<^item> \<open>Kmem\<close>: circular lists and object caches in a block of memory. The layout of a cache stays inside the block; the cache is an
    interpretation of the locale of object pools, so no sequence of requests hands out a buffer twice.
  \<^item> \<open>Rwlock\<close>: the readers-writer lock, one shared access per step; a writer excludes all others in every interleaving.
  \<^item> \<open>Spinlock\<close>: the spin lock and the wrappers around the mutex as interpretations of one locale; they exclude and are interchangeable.
  \<^item> \<open>Cstring\<close>, \<open>Procs\<close>, \<open>Sysinfo\<close>: the string functions of the C library and the system utilities over a parameter for the operating system:
    finding and stopping processes by name, netmasks, interfaces, commands, ticks, starting a program.
  \<^item> \<open>Shm\<close>: shared memory segments and the signal handler.
  \<^item> \<open>Client\<close>: the load-test client of \<open>src/tool\<close>; over a connection that echoes it copies its file.

  \<^bold>\<open>Bounds.\<close> The budgets of the code (100 messages per worker, 50 per poll, 30 per write) are the code's own. Hypotheses
  such as a queue of less than \<open>2 ^ 30\<close> messages are the ranges of the \<open>int\<close> fields that the code does not check.

  \<^bold>\<open>Not modelled.\<close> Logging and dumping (\<open>log.c\<close>, \<open>pub.c\<close>, \<open>peer_dump\<close>, the debug functions of \<open>kmem.c\<close>) only print. Other functions that only free
  memory act on values that the model does not store. The endless loop around \<open>ev_loop\<close> is the step relation of
  theory \<open>Server\<close>, in which a handler and a turn of a worker are one step each; the races inside a handler that matter are separate theorems.
  The \<open>main\<close> of the load-test client only starts processes. Threads interleave at critical sections and, for the lock, at atomic
  accesses: the memory model of the processor is not modelled. The pthread variant in \<open>rwlock.h\<close> only calls the pthread library. Critical sections under a lock of
  \<open>spinlock.h\<close> are the atomic steps of the theories that use them.
\<close>

end
